(* ===== verification/Relay_Prelude.thy ===== *)
theory Relay_Prelude
  imports Main "HOL-Library.Word"
begin

text \<open>
  Shared vocabulary of the development: the machine integers, identifiers and clocks
  of the Rust sources, the ASCII predicates of \<^verbatim>\<open>u8\<close>, string stripping, saturating
  arithmetic, signed and unsigned casts, decimal and hexadecimal printing, and the list
  facts several components use.
\<close>

section \<open>Types\<close>

type_synonym u8 = "8 word"
type_synonym u16 = "16 word"
type_synonym u32 = "32 word"
type_synonym u64 = "64 word"
type_synonym uuid = "128 word"

text \<open>A byte string (\<^verbatim>\<open>Vec<u8>\<close>, \<^verbatim>\<open>&[u8]\<close>, \<^verbatim>\<open>[u8; N]\<close>).\<close>

type_synonym bytes = "u8 list"

text \<open>A PostgreSQL \<^verbatim>\<open>timestamptz\<close>: microseconds since the epoch.\<close>

type_synonym timestamp = int

named_theorems relay_defs \<open>definitions unfolded by the component proofs\<close>

section \<open>ASCII\<close>

definition byte_of :: "char \<Rightarrow> nat" where
  "byte_of c = of_char c"

definition is_ascii_digit :: "char \<Rightarrow> bool" where
  "is_ascii_digit c \<longleftrightarrow> 48 \<le> byte_of c \<and> byte_of c \<le> 57"

definition is_ascii_lowercase :: "char \<Rightarrow> bool" where
  "is_ascii_lowercase c \<longleftrightarrow> 97 \<le> byte_of c \<and> byte_of c \<le> 122"

definition is_ascii_uppercase :: "char \<Rightarrow> bool" where
  "is_ascii_uppercase c \<longleftrightarrow> 65 \<le> byte_of c \<and> byte_of c \<le> 90"

definition is_ascii_alphanumeric :: "char \<Rightarrow> bool" where
  "is_ascii_alphanumeric c \<longleftrightarrow> is_ascii_digit c \<or> is_ascii_lowercase c \<or> is_ascii_uppercase c"

definition is_ascii_hexdigit :: "char \<Rightarrow> bool" where
  "is_ascii_hexdigit c \<longleftrightarrow> is_ascii_digit c \<or> (97 \<le> byte_of c \<and> byte_of c \<le> 102)
     \<or> (65 \<le> byte_of c \<and> byte_of c \<le> 70)"

lemmas ascii_defs =
  byte_of_def is_ascii_digit_def is_ascii_lowercase_def is_ascii_uppercase_def
  is_ascii_alphanumeric_def is_ascii_hexdigit_def

text \<open>The bytes of a string slice, \<^verbatim>\<open>str::as_bytes\<close>.\<close>

definition as_bytes :: "string \<Rightarrow> bytes" where
  "as_bytes s = map of_char s"

lemma length_as_bytes [simp]: "length (as_bytes s) = length s"
  by (simp add: as_bytes_def)

lemma of_char_u8_inject: "(of_char c :: u8) = of_char d \<longleftrightarrow> c = d"
proof -
  have "unat (of_char x :: u8) = of_char x" for x :: char
    by (cases x) (simp add: of_char_def unat_of_nat horner_sum_bit_eq_take_bit)
  then show ?thesis
    by (metis of_char_eq_iff)
qed

lemma as_bytes_inject [simp]: "as_bytes s = as_bytes t \<longleftrightarrow> s = t"
  by (simp add: as_bytes_def inj_map_eq_map inj_def of_char_u8_inject)

section \<open>Stripping prefixes and suffixes\<close>

definition strip_prefix :: "'a list \<Rightarrow> 'a list \<Rightarrow> 'a list option" where
  "strip_prefix p s = (if take (length p) s = p then Some (drop (length p) s) else None)"

definition strip_suffix :: "'a list \<Rightarrow> 'a list \<Rightarrow> 'a list option" where
  "strip_suffix p s =
     (if length p \<le> length s \<and> drop (length s - length p) s = p
      then Some (take (length s - length p) s) else None)"

lemma strip_prefix_Some: "strip_prefix p s = Some r \<longleftrightarrow> s = p @ r"
proof -
  have "s = p @ drop (length p) s" if "take (length p) s = p"
    using that by (metis append_take_drop_id)
  then show ?thesis
    by (auto simp: strip_prefix_def)
qed

lemma strip_suffix_Some: "strip_suffix p s = Some r \<longleftrightarrow> s = r @ p"
proof
  assume "strip_suffix p s = Some r"
  then show "s = r @ p"
    by (auto simp: strip_suffix_def split: if_splits) (metis append_take_drop_id)
next
  assume "s = r @ p"
  then show "strip_suffix p s = Some r"
    by (simp add: strip_suffix_def)
qed

lemma strip_suffix_None: "strip_suffix p s = None \<longleftrightarrow> (\<nexists>r. s = r @ p)"
  by (metis not_None_eq strip_suffix_Some)

lemma strip_prefix_None: "strip_prefix p s = None \<longleftrightarrow> (\<nexists>r. s = p @ r)"
  by (metis not_None_eq strip_prefix_Some)

text \<open>\<^verbatim>\<open>str::trim_end_matches\<close> of one character.\<close>

definition trim_end_matches :: "('a \<Rightarrow> bool) \<Rightarrow> 'a list \<Rightarrow> 'a list" where
  "trim_end_matches p s = rev (dropWhile p (rev s))"

section \<open>Unsigned 64-bit arithmetic\<close>

definition saturating_add :: "u64 \<Rightarrow> u64 \<Rightarrow> u64" where
  "saturating_add a b = (if unat a + unat b < 2 ^ 64 then a + b else - 1)"

definition saturating_sub :: "u64 \<Rightarrow> u64 \<Rightarrow> u64" where
  "saturating_sub a b = (if b \<le> a then a - b else 0)"

lemma unat_saturating_add: "unat (saturating_add a b) = min (unat a + unat b) (2 ^ 64 - 1)"
  by (auto simp: saturating_add_def unat_word_ariths unsigned_minus_1_eq_mask mask_eq_exp_minus_1)

lemma unat_saturating_sub: "unat (saturating_sub a b) = unat a - unat b"
  by (auto simp: saturating_sub_def unat_sub word_le_nat_alt)

section \<open>Casts between \<^verbatim>\<open>u64\<close> and \<^verbatim>\<open>i64\<close>\<close>

definition as_i64 :: "u64 \<Rightarrow> int" where
  "as_i64 w = sint w"

definition as_u64 :: "int \<Rightarrow> u64" where
  "as_u64 i = word_of_int i"

definition as_i32 :: "u32 \<Rightarrow> int" where
  "as_i32 w = sint w"

lemma as_i64_as_u64: "- (2 ^ 63) \<le> i \<Longrightarrow> i < 2 ^ 63 \<Longrightarrow> as_i64 (as_u64 i) = i"
  by (simp add: as_i64_def as_u64_def signed_of_int signed_take_bit_int_eq_self)

lemma as_u64_as_i64 [simp]: "as_u64 (as_i64 w) = w"
  by (simp add: as_i64_def as_u64_def)

lemma as_i64_inject [simp]: "as_i64 v = as_i64 w \<longleftrightarrow> v = w"
  by (metis as_u64_as_i64)

lemma unat_as_u64: "0 \<le> i \<Longrightarrow> i < 2 ^ 64 \<Longrightarrow> unat (as_u64 i) = nat i"
  by (simp add: as_u64_def unsigned_of_int take_bit_int_eq_self unat_eq_nat_uint)

lemma as_i64_range: "- (2 ^ 63) \<le> as_i64 w \<and> as_i64 w < 2 ^ 63"
  using sint_ge [of w] sint_lt [of w] by (simp add: as_i64_def)

lemma as_u64_less: "0 \<le> i \<Longrightarrow> i < j \<Longrightarrow> j < 2 ^ 63 \<Longrightarrow> as_u64 i < as_u64 j"
  by (simp add: word_less_nat_alt unat_as_u64)

section \<open>Hexadecimal and decimal digits\<close>

definition hex_digit :: "nat \<Rightarrow> char" where
  "hex_digit n = (if n < 10 then char_of (48 + n) else char_of (87 + n))"

text \<open>\<^verbatim>\<open>format!("{byte:02x}")\<close>.\<close>

definition hex_byte :: "u8 \<Rightarrow> string" where
  "hex_byte b = [hex_digit (unat b div 16), hex_digit (unat b mod 16)]"

definition hex_encode :: "bytes \<Rightarrow> string" where
  "hex_encode bs = concat (map hex_byte bs)"

lemma hex_digit_inject: "m < 16 \<Longrightarrow> n < 16 \<Longrightarrow> hex_digit m = hex_digit n \<longleftrightarrow> m = n"
  by (auto simp: hex_digit_def char_of_eq_iff take_bit_nat_eq_self split: if_splits)

lemma hex_byte_inject: "hex_byte a = hex_byte b \<longleftrightarrow> a = b"
proof
  assume *: "hex_byte a = hex_byte b"
  have "unat a < 256" "unat b < 256"
    using unsigned_less [of a] unsigned_less [of b] by simp_all
  with * have "unat a div 16 = unat b div 16" "unat a mod 16 = unat b mod 16"
    by (auto simp: hex_byte_def hex_digit_inject)
  then have "unat a = unat b"
    by (metis div_mult_mod_eq)
  then show "a = b" by (rule unsigned_word_eqI)
qed simp

lemma length_hex_byte [simp]: "length (hex_byte b) = 2"
  by (simp add: hex_byte_def)

lemma length_hex_encode [simp]: "length (hex_encode bs) = 2 * length bs"
  by (induction bs) (auto simp: hex_encode_def)

lemma hex_encode_inject: "hex_encode a = hex_encode b \<longleftrightarrow> a = b"
proof (induction a arbitrary: b)
  case Nil
  then show ?case
    by (cases b) (auto simp: hex_encode_def hex_byte_def)
next
  case (Cons x xs)
  show ?case
  proof (cases b)
    case Nil
    then show ?thesis by (simp add: hex_encode_def hex_byte_def)
  next
    case (Cons y ys)
    with Cons.IH [of ys] show ?thesis
      by (auto simp: hex_encode_def hex_byte_inject)
  qed
qed

section \<open>Decimal numbers: \<^verbatim>\<open>u64::from_str\<close> and \<^verbatim>\<open>Display\<close>\<close>

definition is_digit_byte :: "u8 \<Rightarrow> bool" where
  "is_digit_byte b \<longleftrightarrow> 48 \<le> unat b \<and> unat b \<le> 57"

definition digits_value :: "bytes \<Rightarrow> nat" where
  "digits_value ds = foldl (\<lambda>acc b. 10 * acc + (unat b - 48)) 0 ds"

text \<open>
  \<^verbatim>\<open>u64::from_str\<close>: an optional plus sign in front of at least one decimal digit, and a
  value that fits.
\<close>

definition parse_u64 :: "bytes \<Rightarrow> u64 option" where
  "parse_u64 bs =
     (let ds = (case bs of b # r \<Rightarrow> if b = 43 then r else bs | [] \<Rightarrow> [])
      in if ds \<noteq> [] \<and> list_all is_digit_byte ds \<and> digits_value ds < 2 ^ 64
         then Some (of_nat (digits_value ds)) else None)"

text \<open>The bound of 64 bits as an integer, for evaluation.\<close>

lemma parse_u64_code [code]:
  "parse_u64 bs =
     (let ds = (case bs of b # r \<Rightarrow> if b = 43 then r else bs | [] \<Rightarrow> [])
      in if ds \<noteq> [] \<and> list_all is_digit_byte ds \<and> int (digits_value ds) < 18446744073709551616
         then Some (word_of_int (int (digits_value ds))) else None)"
  by (simp add: parse_u64_def Let_def zless_nat_eq_int_zless [symmetric] nat_less_iff)

fun dec_digits :: "nat \<Rightarrow> bytes" where
  "dec_digits n = (if n < 10 then [of_nat (48 + n)] else dec_digits (n div 10) @ [of_nat (48 + n mod 10)])"

declare dec_digits.simps [simp del]

lemma unat_digit: "d < 10 \<Longrightarrow> unat (of_nat (48 + d) :: u8) = 48 + d"
  by (simp add: unsigned_of_nat take_bit_nat_eq_self del: of_nat_add)

lemma is_digit_byte_digit: "d < 10 \<Longrightarrow> is_digit_byte (of_nat (48 + d))"
  by (simp add: is_digit_byte_def unat_digit del: of_nat_add)

lemma digits_value_snoc: "digits_value (xs @ [b]) = 10 * digits_value xs + (unat b - 48)"
  by (simp add: digits_value_def)

lemma digits_value_dec_digits [simp]: "digits_value (dec_digits n) = n"
proof (induction n rule: dec_digits.induct)
  case (1 n)
  show ?case
  proof (cases "n < 10")
    case True
    then show ?thesis
      by (subst dec_digits.simps) (simp add: digits_value_def unat_digit del: of_nat_add)
  next
    case False
    with "1.IH" show ?thesis
      by (subst dec_digits.simps) (simp add: digits_value_snoc unat_digit del: of_nat_add)
  qed
qed

lemma dec_digits_digits [simp]: "list_all is_digit_byte (dec_digits n)"
proof (induction n rule: dec_digits.induct)
  case (1 n)
  have "is_digit_byte (of_nat (48 + n mod 10))" by (rule is_digit_byte_digit) simp
  with "1.IH" show ?case
    by (subst dec_digits.simps) (simp add: is_digit_byte_digit del: of_nat_add)
qed

lemma dec_digits_nonempty [simp]: "dec_digits n \<noteq> []"
  by (subst dec_digits.simps) simp

lemma length_dec_digits: "n < 10 ^ k \<Longrightarrow> 0 < k \<Longrightarrow> length (dec_digits n) \<le> k"
proof (induction n arbitrary: k rule: dec_digits.induct)
  case (1 n)
  show ?case
  proof (cases "n < 10")
    case True
    with "1.prems" show ?thesis by (subst dec_digits.simps) simp
  next
    case False
    with "1.prems" obtain j where j: "k = Suc j" "0 < j"
      by (cases k; cases "k - 1") auto
    with "1.prems" have "n div 10 < 10 ^ j" by auto
    with "1.IH" [OF False this \<open>0 < j\<close>] j False show ?thesis
      by (subst dec_digits.simps) simp
  qed
qed

lemma digit_byte_not_plus: "is_digit_byte b \<Longrightarrow> b \<noteq> 43"
  by (auto simp: is_digit_byte_def)

lemma digit_byte_not_newline: "is_digit_byte b \<Longrightarrow> b \<noteq> 10"
  by (auto simp: is_digit_byte_def)

lemma parse_u64_digits:
  assumes "ds \<noteq> []" and "list_all is_digit_byte ds" and "digits_value ds < 2 ^ 64"
  shows "parse_u64 ds = Some (of_nat (digits_value ds))"
proof -
  from assms(1,2) obtain b r where "ds = b # r" "b \<noteq> 43"
    by (cases ds) (auto dest: digit_byte_not_plus)
  with assms show ?thesis
    unfolding parse_u64_def Let_def by simp
qed

lemma parse_u64_dec_digits: "n < 2 ^ 64 \<Longrightarrow> parse_u64 (dec_digits n) = Some (of_nat n)"
  by (subst parse_u64_digits) simp_all

section \<open>Big-endian bytes\<close>

text \<open>\<^verbatim>\<open>to_be_bytes\<close> of an integer of \<open>n\<close> bytes, and \<^verbatim>\<open>Uuid::as_bytes\<close>.\<close>

definition be_bytes :: "nat \<Rightarrow> 'a::len word \<Rightarrow> bytes" where
  "be_bytes n w = map (\<lambda>i. ucast (drop_bit (8 * i) w)) (rev [0..<n])"

lemma length_be_bytes [simp]: "length (be_bytes n w) = n"
  by (simp add: be_bytes_def)

lemma be_bytes_inject:
  fixes v w :: "'a::len word"
  assumes eq: "be_bytes n v = be_bytes n w" and "LENGTH('a) \<le> 8 * n"
  shows "v = w"
proof (rule bit_word_eqI)
  fix k assume "k < LENGTH('a)"
  with assms(2) have "k div 8 < n" by auto
  with eq have "(ucast (drop_bit (8 * (k div 8)) v) :: 8 word) = ucast (drop_bit (8 * (k div 8)) w)"
    by (simp add: be_bytes_def del: rev_map)
  then have "bit (ucast (drop_bit (8 * (k div 8)) v) :: 8 word) (k mod 8)
      = bit (ucast (drop_bit (8 * (k div 8)) w) :: 8 word) (k mod 8)" by simp
  then show "bit v k = bit w k"
    by (simp add: bit_unsigned_iff bit_drop_bit_eq)
qed
section \<open>Network addresses\<close>

datatype ip_addr = V4 u32 | V6 "128 word"

end
