(* ===== verification/Protocol.thy ===== *)
theory Protocol
  imports Relay_Prelude
begin

text \<open>
  The wire types, limits and checks of \<^verbatim>\<open>crates/bloom-relay-protocol/src/lib.rs\<close>: ACME
  account URIs, hostnames and challenge values, signed control requests
  (\<^verbatim>\<open>AuthClaims::verify\<close>), allocation receipts (\<^verbatim>\<open>AllocationReceipt::verify\<close>,
  \<^verbatim>\<open>verify_bytes\<close>) and the newline-delimited \<^verbatim>\<open>ControlDecoder\<close>.

  SHA-256, Ed25519, base64url and JSON (canonicalisation and parsing) come from other
  crates; they are fields of the record \<open>prims\<close>, an argument of every definition that
  uses them.
\<close>

section \<open>Limits\<close>

definition WIRE_VERSION :: u16 where
  "WIRE_VERSION = 1"

definition MAX_CONTROL_BODY :: nat where
  "MAX_CONTROL_BODY = 16 * 1024"

definition MAX_CLIENT_HELLO :: nat where
  "MAX_CLIENT_HELLO = 64 * 1024"

definition MAX_INSTALLATION_STREAMS :: nat where
  "MAX_INSTALLATION_STREAMS = 128"

definition MAX_GATEWAY_STREAMS :: nat where
  "MAX_GATEWAY_STREAMS = 10000"

definition BUFFER_PER_DIRECTION :: nat where
  "BUFFER_PER_DIRECTION = 64 * 1024"

definition BUFFER_BUDGET :: nat where
  "BUFFER_BUDGET = 256 * 1024 * 1024"

definition TRUSTED_RESPONSE_CLOCK_SKEW_MS :: u64 where
  "TRUSTED_RESPONSE_CLOCK_SKEW_MS = 5000"

definition MAX_ACME_ACCOUNT_URI_LEN :: nat where
  "MAX_ACME_ACCOUNT_URI_LEN = 200"

definition CHALLENGE_VALUE_LIFETIME_MS :: int where
  "CHALLENGE_VALUE_LIFETIME_MS = 5 * 60 * 1000"

definition MAX_LIVE_CHALLENGE_VALUES :: nat where
  "MAX_LIVE_CHALLENGE_VALUES = 2"

lemmas limit_defs =
  WIRE_VERSION_def MAX_CONTROL_BODY_def MAX_CLIENT_HELLO_def MAX_INSTALLATION_STREAMS_def
  MAX_GATEWAY_STREAMS_def BUFFER_PER_DIRECTION_def BUFFER_BUDGET_def
  TRUSTED_RESPONSE_CLOCK_SKEW_MS_def MAX_ACME_ACCOUNT_URI_LEN_def
  CHALLENGE_VALUE_LIFETIME_MS_def MAX_LIVE_CHALLENGE_VALUES_def

section \<open>Errors\<close>

datatype protocol_error =
    IncompatibleVersion
  | InvalidEncoding
  | PUnauthorized
  | Expired
  | TooLarge
  | InvalidSignature
  | InvalidHostname
  | InvalidAcmeEnvironment
  | InvalidAcmeAccountUri

datatype error_code =
    CodeInvalidRequest
  | CodeUnauthorized
  | CodeConflict
  | CodeExpiredOrReplayed
  | CodeQuotaExceeded
  | CodeDependencyUnavailable
  | CodeInternal
  | CodeIncompatibleVersion

section \<open>ACME accounts, hostnames and challenge values\<close>

datatype acme_environment = Production | Staging

definition ACME_PRODUCTION_ACCOUNT_PREFIX :: string where
  "ACME_PRODUCTION_ACCOUNT_PREFIX = ''https://acme-v02.api.letsencrypt.org/acme/acct/''"

definition ACME_STAGING_ACCOUNT_PREFIX :: string where
  "ACME_STAGING_ACCOUNT_PREFIX = ''https://acme-staging-v02.api.letsencrypt.org/acme/acct/''"

fun account_uri_prefix :: "acme_environment \<Rightarrow> string" where
  "account_uri_prefix Production = ACME_PRODUCTION_ACCOUNT_PREFIX"
| "account_uri_prefix Staging = ACME_STAGING_ACCOUNT_PREFIX"

definition validate_account_uri :: "acme_environment \<Rightarrow> string \<Rightarrow> protocol_error + unit" where
  "validate_account_uri env account_uri =
     (if length account_uri > MAX_ACME_ACCOUNT_URI_LEN then Inl InvalidAcmeAccountUri
      else (case strip_prefix (account_uri_prefix env) account_uri of
        None \<Rightarrow> Inl InvalidAcmeAccountUri
      | Some account_id \<Rightarrow>
          if account_id = [] \<or> \<not> list_all is_ascii_digit account_id
          then Inl InvalidAcmeAccountUri else Inr ()))"

definition acme_environment_from_str :: "string \<Rightarrow> protocol_error + acme_environment" where
  "acme_environment_from_str value =
     (if value = ''production'' then Inr Production
      else if value = ''staging'' then Inr Staging
      else Inl InvalidAcmeEnvironment)"

fun first_valid_environment :: "acme_environment list \<Rightarrow> string \<Rightarrow> protocol_error + acme_environment" where
  "first_valid_environment [] account_uri = Inl InvalidAcmeAccountUri"
| "first_valid_environment (e # es) account_uri =
     (case validate_account_uri e account_uri of
        Inr _ \<Rightarrow> Inr e
      | Inl _ \<Rightarrow> first_valid_environment es account_uri)"

definition validate_acme_account_uri :: "string \<Rightarrow> protocol_error + acme_environment" where
  "validate_acme_account_uri account_uri = first_valid_environment [Production, Staging] account_uri"

definition RELAY_SUFFIX :: string where
  "RELAY_SUFFIX = ''.relay.bloom.directory''"

definition validate_hostname :: "string \<Rightarrow> protocol_error + unit" where
  "validate_hostname hostname =
     (case strip_suffix RELAY_SUFFIX hostname of
        None \<Rightarrow> Inl InvalidHostname
      | Some label \<Rightarrow>
          if length label \<noteq> 26 \<or> \<not> list_all (\<lambda>c. is_ascii_lowercase c \<or> is_ascii_digit c) label
          then Inl InvalidHostname else Inr ())"

definition is_base64url :: "char \<Rightarrow> bool" where
  "is_base64url c \<longleftrightarrow> is_ascii_alphanumeric c \<or> c = CHR ''-'' \<or> c = CHR ''_''"

definition validate_challenge_value :: "string \<Rightarrow> protocol_error + unit" where
  "validate_challenge_value value =
     (if length value = 43 \<and> list_all is_base64url value then Inr () else Inl InvalidEncoding)"

section \<open>Signed control requests\<close>

datatype scope = SurfaceAdmin | Tunnel | DnsChallenge

datatype action =
    Enroll
  | IssueCredential
  | RegisterAcmeAccount
  | InstallationStatus
  | RetireInstallation

datatype allocation_state = PendingDns | DnsReady | Retired

record auth_claims =
  ac_version :: u16
  ac_installation_id :: uuid
  ac_scope :: scope
  ac_action :: action
  ac_generation :: u64
  ac_audience :: string
  ac_operation_id :: uuid
  ac_nonce :: string
  ac_expires_at_ms :: u64
  ac_body_sha256 :: string

record 'b signed_request =
  sr_claims :: auth_claims
  sr_body :: 'b
  sr_signature :: string

record allocation =
  al_version :: u16
  al_installation_id :: uuid
  al_hostname :: string
  al_placement :: string
  al_state :: allocation_state

record allocation_receipt =
  ar_allocation :: allocation
  ar_operation_id :: uuid
  ar_admin_key_sha256 :: string
  ar_issued_at_ms :: u64
  ar_signature :: string

text \<open>The receipt fields its signature covers, in the tuple order of the source.\<close>

type_synonym receipt_body = "allocation \<times> uuid \<times> string \<times> u64"

text \<open>
  The primitives of other crates: \<open>p_sha256\<close> is \<^verbatim>\<open>Sha256::digest\<close>, \<open>p_key_ok\<close> is the
  success of \<^verbatim>\<open>VerifyingKey::from_bytes\<close>, \<open>p_verify key message signature\<close> is
  \<^verbatim>\<open>VerifyingKey::verify\<close>, \<open>p_b64_decode\<close> and \<open>p_b64_encode\<close> are
  \<^verbatim>\<open>URL_SAFE_NO_PAD\<close>, and the two \<open>p_jcs\<close> fields are \<^verbatim>\<open>serde_jcs::to_vec\<close> at the two
  types the crate signs.
\<close>

record prims =
  p_sha256 :: "bytes \<Rightarrow> bytes"
  p_key_ok :: "bytes \<Rightarrow> bool"
  p_verify :: "bytes \<Rightarrow> bytes \<Rightarrow> bytes \<Rightarrow> bool"
  p_b64_decode :: "string \<Rightarrow> bytes option"
  p_b64_encode :: "bytes \<Rightarrow> string"
  p_jcs_claims :: "auth_claims \<Rightarrow> bytes option"
  p_jcs_receipt :: "receipt_body \<Rightarrow> bytes option"

definition sha256_hex :: "prims \<Rightarrow> bytes \<Rightarrow> string" where
  "sha256_hex P bs = hex_encode (p_sha256 P bs)"

definition CONTROL_DOMAIN :: bytes where
  "CONTROL_DOMAIN = as_bytes ''bloom-relay/control/v1'' @ [0]"

definition RECEIPT_DOMAIN :: bytes where
  "RECEIPT_DOMAIN = as_bytes ''bloom-relay/allocation-receipt/v1'' @ [0]"

definition signing_bytes :: "prims \<Rightarrow> auth_claims \<Rightarrow> protocol_error + bytes" where
  "signing_bytes P c =
     (if ac_version c \<noteq> WIRE_VERSION then Inl IncompatibleVersion
      else (case p_jcs_claims P c of
        None \<Rightarrow> Inl InvalidEncoding
      | Some json \<Rightarrow> Inr (CONTROL_DOMAIN @ json)))"

text \<open>
  Decoding a base64url signature, \<^verbatim>\<open>Signature::from_slice\<close> (which accepts exactly 64
  bytes) and the verification, as both \<^verbatim>\<open>verify\<close> methods end.
\<close>

definition verify_encoded :: "prims \<Rightarrow> bytes \<Rightarrow> (protocol_error + bytes) \<Rightarrow> string \<Rightarrow> protocol_error + unit" where
  "verify_encoded P key message signature =
     (case p_b64_decode P signature of
        None \<Rightarrow> Inl InvalidSignature
      | Some sig \<Rightarrow>
          if length sig \<noteq> 64 then Inl InvalidSignature
          else (case message of
            Inl e \<Rightarrow> Inl e
          | Inr m \<Rightarrow> if p_verify P key m sig then Inr () else Inl InvalidSignature))"

definition claims_verify ::
  "prims \<Rightarrow> auth_claims \<Rightarrow> bytes \<Rightarrow> string \<Rightarrow> bytes \<Rightarrow> scope \<times> action \<Rightarrow> string \<Rightarrow> u64 \<Rightarrow> protocol_error + unit" where
  "claims_verify P c body signature key required audience now_ms =
     (if ac_scope c \<noteq> fst required \<or> ac_action c \<noteq> snd required \<or> ac_audience c \<noteq> audience
      then Inl PUnauthorized
      else if ac_expires_at_ms c \<le> now_ms \<or> ac_expires_at_ms c > saturating_add now_ms 60000
      then Inl Expired
      else if length body > MAX_CONTROL_BODY then Inl TooLarge
      else if sha256_hex P body \<noteq> ac_body_sha256 c then Inl InvalidSignature
      else verify_encoded P key (signing_bytes P c) signature)"

section \<open>Allocation receipts\<close>

definition signed_bytes :: "prims \<Rightarrow> allocation_receipt \<Rightarrow> protocol_error + bytes" where
  "signed_bytes P r =
     (if al_version (ar_allocation r) \<noteq> WIRE_VERSION then Inl IncompatibleVersion
      else (case p_jcs_receipt P (ar_allocation r, ar_operation_id r, ar_admin_key_sha256 r, ar_issued_at_ms r) of
        None \<Rightarrow> Inl InvalidEncoding
      | Some json \<Rightarrow> Inr (RECEIPT_DOMAIN @ json)))"

definition receipt_verify ::
  "prims \<Rightarrow> allocation_receipt \<Rightarrow> bytes \<Rightarrow> uuid \<Rightarrow> bytes \<Rightarrow> u64 \<Rightarrow> protocol_error + unit" where
  "receipt_verify P r relay_key operation_id admin_public_key now_ms =
     (case validate_hostname (al_hostname (ar_allocation r)) of
        Inl e \<Rightarrow> Inl e
      | Inr _ \<Rightarrow>
          if ar_operation_id r \<noteq> operation_id
            \<or> ar_admin_key_sha256 r \<noteq> sha256_hex P admin_public_key
            \<or> ar_issued_at_ms r > saturating_add now_ms TRUSTED_RESPONSE_CLOCK_SKEW_MS
            \<or> saturating_sub now_ms (ar_issued_at_ms r) > 300000
          then Inl PUnauthorized
          else verify_encoded P relay_key (signed_bytes P r) (ar_signature r))"

fun verify_keys ::
  "prims \<Rightarrow> allocation_receipt \<Rightarrow> uuid \<Rightarrow> bytes \<Rightarrow> u64 \<Rightarrow> protocol_error + unit \<Rightarrow> bytes list \<Rightarrow> protocol_error + unit" where
  "verify_keys P r operation_id admin_public_key now_ms res [] = res"
| "verify_keys P r operation_id admin_public_key now_ms res (k # ks) =
     (if \<not> p_key_ok P k then Inl InvalidSignature
      else (case receipt_verify P r k operation_id admin_public_key now_ms of
        Inl InvalidSignature \<Rightarrow>
          verify_keys P r operation_id admin_public_key now_ms (Inl InvalidSignature) ks
      | other \<Rightarrow> other))"

definition verify_bytes ::
  "prims \<Rightarrow> allocation_receipt \<Rightarrow> bytes list \<Rightarrow> uuid \<Rightarrow> bytes \<Rightarrow> u64 \<Rightarrow> protocol_error + unit" where
  "verify_bytes P r relay_public_keys operation_id admin_public_key now_ms =
     verify_keys P r operation_id admin_public_key now_ms (Inl InvalidSignature) relay_public_keys"

section \<open>Tunnel events and the control decoder\<close>

datatype tunnel_event =
    Open u16 string uuid string u64 u64
      \<comment> \<open>version, ticket, connection id, hostname, generation, expires-at (ms)\<close>
  | Heartbeat u16 u64
      \<comment> \<open>version, generation\<close>

text \<open>
  \<^verbatim>\<open>ControlDecoder::push\<close>. The loop drains one line per round; \<open>json\<close> stands for
  \<^verbatim>\<open>serde_json::from_slice::<TunnelEvent>\<close>. On a malformed line the source returns with
  that line already drained and the lines behind it still pending, and drops the events
  decoded before it. The result is the outcome and the bytes left in \<^verbatim>\<open>pending\<close>.
\<close>

definition newline :: u8 where
  "newline = 10"

function drain_lines ::
  "(bytes \<Rightarrow> tunnel_event option) \<Rightarrow> bytes \<Rightarrow> tunnel_event list \<Rightarrow> (protocol_error + tunnel_event list) \<times> bytes" where
  "drain_lines json pending events =
     (if newline \<in> set pending
      then let line = takeWhile (\<lambda>b. b \<noteq> newline) pending;
               rest = drop (Suc (length line)) pending
           in (case json line of
                 None \<Rightarrow> (Inl InvalidEncoding, rest)
               | Some e \<Rightarrow> drain_lines json rest (events @ [e]))
      else (Inr events, pending))"
  by pat_completeness auto
termination
  by (relation "measure (\<lambda>(json, pending, events). length pending)") (auto intro!: diff_less length_pos_if_in_set)

declare drain_lines.simps [simp del]

definition decoder_push ::
  "(bytes \<Rightarrow> tunnel_event option) \<Rightarrow> bytes \<Rightarrow> bytes \<Rightarrow> (protocol_error + tunnel_event list) \<times> bytes" where
  "decoder_push json pending chunk =
     (if length chunk > MAX_CONTROL_BODY \<or> length pending + length chunk > MAX_CONTROL_BODY
      then (Inl TooLarge, pending)
      else drain_lines json (pending @ chunk) [])"

section \<open>Reference splitting of a byte stream into lines\<close>

text \<open>
  The specification of the decoder: \<open>split_lines\<close> cuts a byte stream into its complete
  (newline-terminated) lines and the unterminated rest; \<open>push_all\<close> feeds a decoder with
  a list of chunks, as the tunnel client does with the HTTP/2 DATA frames.
\<close>

fun split_lines :: "bytes \<Rightarrow> bytes list \<times> bytes" where
  "split_lines [] = ([], [])"
| "split_lines (b # bs) =
     (let (ls, t) = split_lines bs
      in if b = newline then ([] # ls, t)
         else (case ls of [] \<Rightarrow> ([], b # t) | l # ls' \<Rightarrow> ((b # l) # ls', t)))"

fun push_all ::
  "(bytes \<Rightarrow> tunnel_event option) \<Rightarrow> bytes \<Rightarrow> bytes list \<Rightarrow> protocol_error + tunnel_event list \<times> bytes" where
  "push_all json pending [] = Inr ([], pending)"
| "push_all json pending (c # cs) =
     (case decoder_push json pending c of
        (Inl e, _) \<Rightarrow> Inl e
      | (Inr es, pending') \<Rightarrow>
          (case push_all json pending' cs of
             Inl e \<Rightarrow> Inl e
           | Inr (es', p) \<Rightarrow> Inr (es @ es', p)))"

lemma split_lines_no_newline: "newline \<notin> set bs \<Longrightarrow> split_lines bs = ([], bs)"
  by (induction bs) auto

lemma split_lines_tail: "newline \<notin> set (snd (split_lines bs))"
  by (induction bs) (auto split: list.splits prod.splits)

lemma split_lines_tail_length: "length (snd (split_lines bs)) \<le> length bs"
  by (induction bs) (auto split: list.splits prod.splits)

lemma split_lines_line:
  "newline \<notin> set l \<Longrightarrow> split_lines (l @ newline # r) = (l # fst (split_lines r), snd (split_lines r))"
  by (induction l) (auto split: list.splits prod.splits)

lemma takeWhile_newline:
  assumes "newline \<in> set bs"
  shows "bs = takeWhile (\<lambda>b. b \<noteq> newline) bs @ newline
    # drop (Suc (length (takeWhile (\<lambda>b. b \<noteq> newline) bs))) bs"
  using assms by (induction bs) auto

lemma split_lines_step:
  assumes "newline \<in> set bs"
  defines "l \<equiv> takeWhile (\<lambda>b. b \<noteq> newline) bs"
  shows "split_lines bs = (l # fst (split_lines (drop (Suc (length l)) bs)),
    snd (split_lines (drop (Suc (length l)) bs)))"
proof -
  have "newline \<notin> set l" by (auto simp: l_def dest: set_takeWhileD)
  moreover have "bs = l @ newline # drop (Suc (length l)) bs"
    unfolding l_def by (rule takeWhile_newline [OF assms(1)])
  ultimately show ?thesis by (metis split_lines_line)
qed

lemma split_lines_append:
  "split_lines (xs @ ys) =
     (fst (split_lines xs) @ fst (split_lines (snd (split_lines xs) @ ys)),
      snd (split_lines (snd (split_lines xs) @ ys)))"
proof (induction xs)
  case (Cons b xs)
  obtain ls t where ls: "split_lines xs = (ls, t)" by fastforce
  then show ?case
    using Cons.IH by (cases ls) (auto split: list.splits prod.splits)
qed simp

lemma drain_lines_Inr:
  "drain_lines json bs events = (Inr out, rest) \<longleftrightarrow>
     rest = snd (split_lines bs)
     \<and> (\<exists>new. out = events @ new \<and> map json (fst (split_lines bs)) = map Some new)"
proof (induction json bs events arbitrary: out rule: drain_lines.induct)
  case (1 json bs events)
  define l where "l = takeWhile (\<lambda>b. b \<noteq> newline) bs"
  show ?case
  proof (cases "newline \<in> set bs")
    case True
    have sp: "split_lines bs = (l # fst (split_lines (drop (Suc (length l)) bs)),
        snd (split_lines (drop (Suc (length l)) bs)))"
      unfolding l_def by (rule split_lines_step [OF True])
    show ?thesis
    proof (cases "json l")
      case None
      with True sp show ?thesis
        by (subst drain_lines.simps) (auto simp: l_def [symmetric])
    next
      case (Some e)
      have "drain_lines json bs events = drain_lines json (drop (Suc (length l)) bs) (events @ [e])"
        using True Some by (subst drain_lines.simps) (simp add: l_def [symmetric])
      moreover have "drain_lines json (drop (Suc (length l)) bs) (events @ [e]) = (Inr out, rest) \<longleftrightarrow>
          rest = snd (split_lines (drop (Suc (length l)) bs))
          \<and> (\<exists>new. out = (events @ [e]) @ new
                \<and> map json (fst (split_lines (drop (Suc (length l)) bs))) = map Some new)"
        by (rule "1.IH" [OF True l_def refl Some [unfolded l_def, folded l_def]])
      ultimately show ?thesis
        using Some by (auto simp: sp Cons_eq_map_conv)
    qed
  next
    case False
    then show ?thesis
      by (subst drain_lines.simps) (auto simp: split_lines_no_newline)
  qed
qed

lemma decoder_push_Inr:
  "decoder_push json pending chunk = (Inr out, rest) \<longleftrightarrow>
     length pending + length chunk \<le> MAX_CONTROL_BODY
     \<and> rest = snd (split_lines (pending @ chunk))
     \<and> map json (fst (split_lines (pending @ chunk))) = map Some out"
  by (auto simp: decoder_push_def drain_lines_Inr)


text \<open>Every chunk fits beside the unterminated rest of the stream before it.\<close>

fun chunks_fit :: "bytes \<Rightarrow> bytes list \<Rightarrow> bool" where
  "chunks_fit pending [] \<longleftrightarrow> True"
| "chunks_fit pending (c # cs) \<longleftrightarrow>
     length pending + length c \<le> MAX_CONTROL_BODY \<and> chunks_fit (snd (split_lines (pending @ c))) cs"

lemma push_all_Cons:
  "push_all json pending (c # cs) = Inr (es, rest) \<longleftrightarrow>
     (\<exists>es1 p1 es2. decoder_push json pending c = (Inr es1, p1) \<and> push_all json p1 cs = Inr (es2, rest)
        \<and> es = es1 @ es2)"
  by (auto split: prod.splits sum.splits)

lemma push_all_Inr:
  assumes "newline \<notin> set pending"
  shows "push_all json pending cs = Inr (es, rest) \<longleftrightarrow>
     chunks_fit pending cs \<and> map json (fst (split_lines (pending @ concat cs))) = map Some es
     \<and> rest = snd (split_lines (pending @ concat cs))"
  using assms
proof (induction cs arbitrary: pending es)
  case Nil
  then show ?case by (auto simp: split_lines_no_newline)
next
  case (Cons c cs)
  define p1 where "p1 = snd (split_lines (pending @ c))"
  have IH: "push_all json p1 cs = Inr (es2, rest) \<longleftrightarrow> chunks_fit p1 cs
      \<and> map json (fst (split_lines (p1 @ concat cs))) = map Some es2
      \<and> rest = snd (split_lines (p1 @ concat cs))" for es2
    by (rule Cons.IH) (simp add: p1_def split_lines_tail)
  have split: "split_lines (pending @ concat (c # cs))
      = (fst (split_lines (pending @ c)) @ fst (split_lines (p1 @ concat cs)), snd (split_lines (p1 @ concat cs)))"
    using split_lines_append [of "pending @ c" "concat cs"] by (simp add: p1_def)
  show ?case
    unfolding push_all_Cons decoder_push_Inr split p1_def [symmetric]
    by (auto simp: IH p1_def [symmetric]) (auto simp: append_eq_map_conv)
qed

section \<open>Facts about the checks\<close>

lemma u64_window:
  fixes e n :: u64
  shows "\<not> e \<le> n \<and> \<not> saturating_add n 60000 < e \<longleftrightarrow> unat n < unat e \<and> unat e \<le> unat n + 60000"
proof -
  have "unat e < 2 ^ 64" using unsigned_less [of e] by simp
  then show ?thesis
    by (auto simp: word_le_nat_alt word_less_nat_alt unat_saturating_add)
qed

lemma signing_bytes_Inr:
  "signing_bytes P c = Inr m \<longleftrightarrow>
     ac_version c = WIRE_VERSION \<and> (\<exists>json. p_jcs_claims P c = Some json \<and> m = CONTROL_DOMAIN @ json)"
  by (auto simp: signing_bytes_def split: option.splits)

lemma signed_bytes_Inr:
  "signed_bytes P r = Inr m \<longleftrightarrow>
     al_version (ar_allocation r) = WIRE_VERSION
     \<and> (\<exists>json. p_jcs_receipt P (ar_allocation r, ar_operation_id r, ar_admin_key_sha256 r,
             ar_issued_at_ms r) = Some json \<and> m = RECEIPT_DOMAIN @ json)"
  by (auto simp: signed_bytes_def split: option.splits)

lemma verify_encoded_Inr:
  "verify_encoded P key message signature = Inr u \<longleftrightarrow>
     (\<exists>s m. p_b64_decode P signature = Some s \<and> length s = 64 \<and> message = Inr m \<and> p_verify P key m s)"
  by (auto simp: verify_encoded_def split: option.splits sum.splits)

lemma claims_verify_Inr:
  "claims_verify P c body signature key (sc, act) audience now_ms = Inr () \<longleftrightarrow>
     ac_scope c = sc \<and> ac_action c = act \<and> ac_audience c = audience
     \<and> unat now_ms < unat (ac_expires_at_ms c) \<and> unat (ac_expires_at_ms c) \<le> unat now_ms + 60000
     \<and> length body \<le> MAX_CONTROL_BODY \<and> sha256_hex P body = ac_body_sha256 c
     \<and> ac_version c = WIRE_VERSION
     \<and> (\<exists>json s. p_jcs_claims P c = Some json \<and> p_b64_decode P signature = Some s \<and> length s = 64
           \<and> p_verify P key (CONTROL_DOMAIN @ json) s)"
  using u64_window [of "ac_expires_at_ms c" now_ms]
  by (auto simp: claims_verify_def verify_encoded_Inr signing_bytes_Inr)

lemma domains_disjoint: "CONTROL_DOMAIN @ xs \<noteq> RECEIPT_DOMAIN @ ys"
proof
  assume "CONTROL_DOMAIN @ xs = RECEIPT_DOMAIN @ ys"
  then have "(CONTROL_DOMAIN @ xs) ! 12 = (RECEIPT_DOMAIN @ ys) ! 12" by simp
  then show False
    by (simp add: CONTROL_DOMAIN_def RECEIPT_DOMAIN_def as_bytes_def nth_append)
qed

lemma validate_hostname_Inr:
  "validate_hostname h = Inr () \<longleftrightarrow>
     (\<exists>label. h = label @ RELAY_SUFFIX \<and> length label = 26
        \<and> list_all (\<lambda>c. is_ascii_lowercase c \<or> is_ascii_digit c) label)"
  by (auto simp: validate_hostname_def strip_suffix_Some strip_suffix_None split: option.splits)

lemma validate_account_uri_Inr:
  "validate_account_uri env u = Inr () \<longleftrightarrow>
     length u \<le> MAX_ACME_ACCOUNT_URI_LEN
     \<and> (\<exists>account_id. u = account_uri_prefix env @ account_id \<and> account_id \<noteq> []
           \<and> list_all is_ascii_digit account_id)"
  by (auto simp: validate_account_uri_def strip_prefix_Some strip_prefix_None split: option.splits)

lemma account_prefixes_disjoint:
  "ACME_PRODUCTION_ACCOUNT_PREFIX @ xs \<noteq> ACME_STAGING_ACCOUNT_PREFIX @ ys"
  by (simp add: ACME_PRODUCTION_ACCOUNT_PREFIX_def ACME_STAGING_ACCOUNT_PREFIX_def)

lemma validate_account_uri_unique:
  assumes "validate_account_uri e u = Inr ()" and "validate_account_uri e' u = Inr ()"
  shows "e = e'"
  using assms account_prefixes_disjoint
  by (cases e; cases e') (auto simp: validate_account_uri_Inr, metis+)

lemma verify_keys_Inr:
  "res \<noteq> Inr () \<Longrightarrow> verify_keys P r oid admin now_ms res ks = Inr () \<longleftrightarrow>
     (\<exists>pre k post. ks = pre @ k # post \<and> (\<forall>x \<in> set (pre @ [k]). p_key_ok P x)
        \<and> (\<forall>x \<in> set pre. receipt_verify P r x oid admin now_ms = Inl InvalidSignature)
        \<and> receipt_verify P r k oid admin now_ms = Inr ())"
proof (induction ks arbitrary: res)
  case (Cons k ks)
  let ?v = "\<lambda>x. receipt_verify P r x oid admin now_ms"
  show ?case
  proof (cases "p_key_ok P k \<and> ?v k = Inl InvalidSignature")
    case True
    then show ?thesis
      using Cons.IH [of "Inl InvalidSignature"]
      by (auto simp: Cons_eq_append_conv)
        (metis (no_types, lifting) append_Cons list.set_intros(1) set_ConsD)+
  next
    case False
    then show ?thesis
      by (auto simp: Cons_eq_append_conv split: sum.splits protocol_error.splits)
        (rule exI [of _ "[]"], simp)
  qed
qed simp

section \<open>Properties\<close>


text \<open>C30. A receipt is accepted against a set of pinned keys exactly when some pinned key
  verifies it, that key and every key before it decode, and every key before it failed on
  the signature alone.\<close>

theorem verify_bytes_exact:
  "verify_bytes P r ks oid admin now_ms = Inr () \<longleftrightarrow>
     (\<exists>pre k post. ks = pre @ k # post \<and> list_all (p_key_ok P) (pre @ [k])
        \<and> list_all (\<lambda>x. receipt_verify P r x oid admin now_ms = Inl InvalidSignature) pre
        \<and> receipt_verify P r k oid admin now_ms = Inr ())"
  unfolding verify_bytes_def by (subst verify_keys_Inr) (simp_all add: list_all_iff)

text \<open>C28. The control decoder is independent of HTTP/2 frame boundaries: however a byte
  stream is cut into chunks, the decoder accepts them exactly when each chunk fits the limit
  beside the line still open and every complete line decodes; it then yields the events of the
  stream's complete lines, in order, and keeps exactly the unterminated rest.\<close>

theorem decoder_chunking:
  "push_all json [] chunks = Inr (events, pending) \<longleftrightarrow>
     chunks_fit [] chunks \<and> map json (fst (split_lines (concat chunks))) = map Some events
     \<and> pending = snd (split_lines (concat chunks))"
  by (simp add: push_all_Inr)

end
