(* ===== verification/Gateway_Stream.thy ===== *)
theory Gateway_Stream
  imports Protocol "HOL-Library.Sublist"
begin

text \<open>
  The byte and connection level of the gateway (\<^verbatim>\<open>crates/bloom-relay/src/main.rs\<close>): the
  ingress quota, reading the ClientHello of a browser, sending on an HTTP/2 stream under flow
  control, and the bridge between a browser and the stream of its broker. The lemmas bound what
  the quota admits in any minute and show that the bridge forwards every byte unchanged and in
  order, starting with those read for the ClientHello.
\<close>

section \<open>The ingress quota\<close>

text \<open>An \<^verbatim>\<open>Instant\<close> of the monotonic clock, in nanoseconds.\<close>

type_synonym instant = int

definition secs :: "int \<Rightarrow> int" where
  "secs n = n * 1000000000"

record ingress_quota =
  iq_start :: instant
  iq_total :: u32
  iq_sources :: "ip_addr \<Rightarrow> u32 option"

definition ingress_quota_new :: "instant \<Rightarrow> ingress_quota" where
  "ingress_quota_new now = \<lparr>iq_start = now, iq_total = 0, iq_sources = (\<lambda>_. None)\<rparr>"

definition source_count :: "ingress_quota \<Rightarrow> ip_addr \<Rightarrow> u32" where
  "source_count q source = (case iq_sources q source of None \<Rightarrow> 0 | Some n \<Rightarrow> n)"

definition roll_window :: "instant \<Rightarrow> ingress_quota \<Rightarrow> ingress_quota" where
  "roll_window now q =
     (if max 0 (now - iq_start q) \<ge> secs 60
      then \<lparr>iq_start = now, iq_total = 0, iq_sources = (\<lambda>_. None)\<rparr> else q)"

definition allow_at :: "ip_addr \<Rightarrow> instant \<Rightarrow> ingress_quota \<Rightarrow> bool \<times> ingress_quota" where
  "allow_at source now q =
     (let q = roll_window now q
      in if iq_total q \<ge> 5000 \<or> source_count q source \<ge> 120 then (False, q)
         else (True, q\<lparr>iq_total := iq_total q + 1,
                 iq_sources := (iq_sources q)(source \<mapsto> source_count q source + 1)\<rparr>))"

text \<open>The connections of a list of arrivals that the quota admits.\<close>

fun admitted :: "(ip_addr \<times> instant) list \<Rightarrow> ingress_quota \<Rightarrow> (ip_addr \<times> instant) list" where
  "admitted [] q = []"
| "admitted ((source, now) # rest) q =
     (case allow_at source now q of (ok, q') \<Rightarrow> (if ok then [(source, now)] else []) @ admitted rest q')"

section \<open>Reading the ClientHello\<close>

datatype gateway_error =
    HelloIncompleteOrTooLarge
  | IoFailed
  | MalformedHello
  | MissingSni
  | InvalidHost protocol_error
  | TimedOut
  | StreamClosed
  | StreamFailed

text \<open>
  The \<^verbatim>\<open>rustls\<close> acceptor: its state, feeding it bytes, and asking for the ClientHello,
  which is malformed, still incomplete, or there with its server name.
\<close>

record 'a acceptor =
  ac_default :: 'a
  ac_read_tls :: "'a \<Rightarrow> bytes \<Rightarrow> gateway_error + 'a"
  ac_accept :: "'a \<Rightarrow> (unit + string option option) \<times> 'a"

text \<open>
  \<^verbatim>\<open>read_sni\<close>: the answers of the socket are an argument; running out of them is the
  five-second timeout.
\<close>

fun read_sni_loop ::
  "'a acceptor \<Rightarrow> (gateway_error + bytes) list \<Rightarrow> 'a \<Rightarrow> bytes \<Rightarrow> gateway_error + string \<times> bytes" where
  "read_sni_loop A [] parser sofar = Inl TimedOut"
| "read_sni_loop A (Inl e # reads) parser sofar = Inl e"
| "read_sni_loop A (Inr chunk # reads) parser sofar =
     (if length chunk = 0 \<or> length sofar + length chunk > MAX_CLIENT_HELLO
      then Inl HelloIncompleteOrTooLarge
      else (case ac_read_tls A parser chunk of
              Inl e \<Rightarrow> Inl e
            | Inr parser \<Rightarrow>
                (case ac_accept A parser of
                   (Inl _, _) \<Rightarrow> Inl MalformedHello
                 | (Inr None, parser) \<Rightarrow> read_sni_loop A reads parser (sofar @ chunk)
                 | (Inr (Some None), _) \<Rightarrow> Inl MissingSni
                 | (Inr (Some (Some host)), _) \<Rightarrow>
                     (case validate_hostname host of
                        Inl e \<Rightarrow> Inl (InvalidHost e)
                      | Inr _ \<Rightarrow> Inr (host, sofar @ chunk)))))"

definition read_sni :: "'a acceptor \<Rightarrow> (gateway_error + bytes) list \<Rightarrow> gateway_error + string \<times> bytes" where
  "read_sni A reads = read_sni_loop A reads (ac_default A) []"

section \<open>Sending under flow control\<close>

text \<open>
  The answers of an HTTP/2 stream. \<open>Capacity n\<close>: after this poll \<^verbatim>\<open>capacity()\<close> reads \<open>n\<close>;
  \<open>NoStream\<close> and \<open>PollFailed\<close> are the two ways the poll ends the sending. Running out of
  answers is a stream that grants no more capacity.
\<close>

datatype capacity_poll = Capacity nat | NoStream | PollFailed

datatype send_outcome = Sent | SendError gateway_error | Blocked

definition FRAME_LIMIT :: nat where
  "FRAME_LIMIT = 16384"

text \<open>
  \<^verbatim>\<open>send_data\<close>: the outcome, the DATA frames handed to the stream and what remains of its
  answers. \<open>accepts n\<close> says whether the stream takes the \<open>n\<close>-th frame.
\<close>

function send_data ::
  "(nat \<Rightarrow> bool) \<Rightarrow> capacity_poll list \<Rightarrow> nat \<Rightarrow> bytes \<Rightarrow> bytes list \<Rightarrow> send_outcome \<times> bytes list" where
  "send_data accepts polls capacity bytes frames =
     (if bytes = [] then (Sent, frames)
      else if capacity = 0 then
        (case polls of
           [] \<Rightarrow> (Blocked, frames)
         | Capacity n # polls \<Rightarrow> send_data accepts polls n bytes frames
         | NoStream # polls \<Rightarrow> (SendError StreamClosed, frames)
         | PollFailed # polls \<Rightarrow> (SendError StreamFailed, frames))
      else
        let count = min (min capacity (length bytes)) FRAME_LIMIT
        in if accepts (length frames)
           then send_data accepts polls (capacity - count) (drop count bytes) (frames @ [take count bytes])
           else (SendError StreamFailed, frames))"
  by pat_completeness auto
termination
  by (relation "measure (\<lambda>(accepts, polls, capacity, bytes, frames). length polls + length bytes)")
    (auto simp: FRAME_LIMIT_def)

declare send_data.simps [simp del]

section \<open>The bridge\<close>

text \<open>
  What one round of the bridge's \<^verbatim>\<open>select!\<close> yields. \<open>BrowserRead\<close> carries whether the
  chunk could be sent on (\<open>send_data\<close> succeeded), \<open>TunnelData\<close> whether the browser took
  the bytes and the window could be released; \<open>Idle\<close> is the 120-second timeout.
\<close>

datatype bridge_event =
    BrowserRead bytes bool
  | BrowserEof bool
  | BrowserFailed
  | TunnelData bytes bool
  | TunnelEof bool
  | TunnelFailed
  | Idle

record bridge =
  bg_browser_done :: bool
  bg_tunnel_done :: bool
  bg_outbound :: bytes       \<comment> \<open>DATA sent to the broker\<close>
  bg_outbound_ended :: nat   \<comment> \<open>frames sent with the end-of-stream flag\<close>
  bg_written :: bytes        \<comment> \<open>bytes written to the browser\<close>
  bg_shutdown :: nat         \<comment> \<open>shutdowns of the browser's socket\<close>

fun bridge_round :: "bridge_event \<Rightarrow> bridge \<Rightarrow> (gateway_error + bridge) option" where
  "bridge_round (BrowserRead bs ok) b =
     (if bg_browser_done b \<or> bs = [] then None
      else Some (if ok then Inr (b\<lparr>bg_outbound := bg_outbound b @ bs\<rparr>) else Inl StreamFailed))"
| "bridge_round (BrowserEof ok) b =
     (if bg_browser_done b then None
      else Some (if ok then Inr (b\<lparr>bg_browser_done := True, bg_outbound_ended := bg_outbound_ended b + 1\<rparr>)
                 else Inl StreamFailed))"
| "bridge_round BrowserFailed b = (if bg_browser_done b then None else Some (Inl IoFailed))"
| "bridge_round (TunnelData bs ok) b =
     (if bg_tunnel_done b then None
      else Some (if ok then Inr (b\<lparr>bg_written := bg_written b @ bs\<rparr>) else Inl IoFailed))"
| "bridge_round (TunnelEof ok) b =
     (if bg_tunnel_done b then None
      else Some (if ok then Inr (b\<lparr>bg_tunnel_done := True, bg_shutdown := bg_shutdown b + 1\<rparr>)
                 else Inl IoFailed))"
| "bridge_round TunnelFailed b = (if bg_tunnel_done b then None else Some (Inl StreamFailed))"
| "bridge_round Idle b = Some (Inl TimedOut)"

text \<open>
  The loop, until both directions are done. An event of a direction that is done is not
  offered by the \<^verbatim>\<open>select!\<close>, so a list with one is not a history of the bridge: \<open>None\<close>.
  The result is the state, whether the loop returned, and with what.
\<close>

fun bridge_loop :: "bridge_event list \<Rightarrow> bridge \<Rightarrow> ((gateway_error + unit) option \<times> bridge) option" where
  "bridge_loop events b =
     (if bg_browser_done b \<and> bg_tunnel_done b then (if events = [] then Some (Some (Inr ()), b) else None)
      else case events of
        [] \<Rightarrow> Some (None, b)
      | e # rest \<Rightarrow>
          (case bridge_round e b of
             None \<Rightarrow> None
           | Some (Inl err) \<Rightarrow> (if rest = [] then Some (Some (Inl err), b) else None)
           | Some (Inr b') \<Rightarrow> bridge_loop rest b'))"

declare bridge_loop.simps [simp del]

definition bridge_start :: "bytes \<Rightarrow> bridge" where
  "bridge_start hello = \<lparr>bg_browser_done = False, bg_tunnel_done = False, bg_outbound = hello,
     bg_outbound_ended = 0, bg_written = [], bg_shutdown = 0\<rparr>"

definition bridge_run :: "bytes \<Rightarrow> bridge_event list \<Rightarrow> ((gateway_error + unit) option \<times> bridge) option" where
  "bridge_run hello events = bridge_loop events (bridge_start hello)"

text \<open>The bytes that arrived on either side.\<close>

fun browser_sent :: "bridge_event list \<Rightarrow> bytes" where
  "browser_sent (BrowserRead bs ok # es) = bs @ browser_sent es"
| "browser_sent (_ # es) = browser_sent es"
| "browser_sent [] = []"

fun broker_sent :: "bridge_event list \<Rightarrow> bytes" where
  "broker_sent (TunnelData bs ok # es) = bs @ broker_sent es"
| "broker_sent (_ # es) = broker_sent es"
| "broker_sent [] = []"

section \<open>The quota over time\<close>

definition within :: "instant \<Rightarrow> (ip_addr \<times> instant) list \<Rightarrow> (ip_addr \<times> instant) list" where
  "within T xs = filter (\<lambda>(_, t). T \<le> t \<and> t < T + secs 60) xs"

definition from_source :: "ip_addr \<Rightarrow> (ip_addr \<times> instant) list \<Rightarrow> (ip_addr \<times> instant) list" where
  "from_source a xs = filter (\<lambda>(b, _). b = a) xs"

lemma u32_incr: "unat (n :: u32) < 5000 \<Longrightarrow> unat (n + 1) = unat n + 1"
  by (simp add: unat_word_ariths)

lemma within_late:
  assumes "\<forall>r \<in> set rs. T + secs 60 \<le> snd r"
  shows "within T (admitted rs q) = []"
  using assms
proof (induction rs arbitrary: q)
  case (Cons r rs)
  then show ?case by (cases r) (auto simp: within_def split: prod.split)
qed (simp add: within_def)

text \<open>
  A counter that the quota keeps of the arrivals from some sources: a new window starts it
  at zero, an admission of such an arrival adds one, and stays within the limit.
\<close>

locale window_counter =
  fixes counted :: "ip_addr \<Rightarrow> bool" and load :: "ingress_quota \<Rightarrow> nat" and cap :: nat
  assumes load_new: "load (ingress_quota_new now) = 0"
    and load_admit: "\<lbrakk>allow_at source now q = (True, q'); roll_window now q = q\<rbrakk>
      \<Longrightarrow> load q' = load q + (if counted source then 1 else 0) \<and> (counted source \<longrightarrow> load q < cap)"
begin

definition taken :: "instant \<Rightarrow> (ip_addr \<times> instant) list \<Rightarrow> ingress_quota \<Rightarrow> nat" where
  "taken T rs q = length (filter (\<lambda>r. counted (fst r)) (within T (admitted rs q)))"

lemma taken_Cons:
  assumes "allow_at source now q = (ok, q')"
  shows "taken T ((source, now) # rs) q
    = (if ok \<and> T \<le> now \<and> now < T + secs 60 \<and> counted source then 1 else 0) + taken T rs q'"
  using assms by (simp add: taken_def within_def)

lemma allow_invariant:
  assumes "allow_at source now q = (ok, q')" and "load q \<le> cap"
  shows "load q' \<le> cap \<and> (iq_start q \<le> now \<longrightarrow> iq_start q' \<le> now)"
proof -
  define w where "w = roll_window now q"
  have idem: "roll_window now w = w" by (simp add: w_def roll_window_def secs_def)
  then have allow: "allow_at source now w = (ok, q')" using assms(1) by (simp add: allow_at_def w_def)
  have "load w \<le> cap" "iq_start q \<le> now \<Longrightarrow> iq_start w \<le> now"
    using assms(2) load_new [of now] by (auto simp: w_def roll_window_def ingress_quota_new_def)
  then show ?thesis
    using allow load_admit [OF _ idem, of source q'] by (cases ok) (auto simp: allow_at_def Let_def idem split: if_splits)
qed

lemma taken_after:
  assumes "sorted (iq_start q # map snd rs)" and "load q \<le> cap" and "\<forall>r \<in> set rs. T \<le> snd r"
  shows "taken T rs q \<le> (if T \<le> iq_start q then cap - load q else 2 * cap - load q)"
  using assms
proof (induction rs arbitrary: q)
  case Nil
  then show ?case by (simp add: taken_def within_def)
next
  case (Cons r rs)
  obtain source now where r: "r = (source, now)" by (cases r)
  define w where "w = roll_window now q"
  obtain ok q' where allow: "allow_at source now w = (ok, q')" by fastforce
  have idem: "roll_window now w = w" by (simp add: w_def roll_window_def secs_def)
  have start: "iq_start q' = iq_start w" using allow by (auto simp: allow_at_def Let_def idem split: if_splits)
  have same: "allow_at source now q = (ok, q')"
    using allow idem by (simp add: allow_at_def w_def)
  have sorted: "sorted (iq_start q' # map snd rs)" and late: "\<forall>r \<in> set rs. now \<le> snd r"
    using Cons.prems(1) r start by (auto simp: w_def roll_window_def)
  have rejected: "\<not> ok \<Longrightarrow> q' = w" using allow by (auto simp: allow_at_def Let_def idem split: if_splits)
  have load: "load q' = load w + (if ok \<and> counted source then 1 else 0)" "ok \<Longrightarrow> counted source \<Longrightarrow> load w < cap"
    using load_admit [OF _ idem] allow rejected by (cases ok; simp)+
  have new: "load w = 0" if "w \<noteq> q"
    using that load_new [of now] by (auto simp: w_def roll_window_def ingress_quota_new_def split: if_splits)
  then have "load w \<le> cap" using Cons.prems(2) by (cases "w = q") auto
  with load have "load q' \<le> cap" by auto
  with sorted Cons.prems(3) have IH: "taken T rs q' \<le> (if T \<le> iq_start q' then cap - load q' else 2 * cap - load q')"
    by (intro Cons.IH) auto
  have w: "w = q \<or> (w = ingress_quota_new now \<and> iq_start q + secs 60 \<le> now)"
    by (auto simp: w_def roll_window_def ingress_quota_new_def secs_def split: if_splits)
  have "taken T rs q' = 0" if "T + secs 60 \<le> now"
    using that late within_late [of rs T q'] by (fastforce simp: taken_def)
  moreover have "iq_start w \<le> now" using w Cons.prems(1) r by (auto simp: ingress_quota_new_def)
  moreover have "iq_start w = now" if "w \<noteq> q" using w that by (simp add: ingress_quota_new_def)
  ultimately show ?case
    using IH load start w new Cons.prems(2,3) unfolding r taken_Cons [OF same]
    by (cases "w = q") (auto split: if_splits)
qed

lemma taken_bound:
  assumes "sorted (iq_start q # map snd rs)" and "load q \<le> cap"
  shows "taken T rs q \<le> 2 * cap"
  using assms
proof (induction rs arbitrary: q)
  case (Cons r rs)
  obtain source now where r: "r = (source, now)" by (cases r)
  obtain ok q' where allow: "allow_at source now q = (ok, q')" by fastforce
  show ?case
  proof (cases "T \<le> now")
    case True
    with Cons.prems(1) r have "\<forall>r \<in> set ((source, now) # rs). T \<le> snd r" by auto
    with taken_after [OF Cons.prems(1,2), of T] r show ?thesis by (auto split: if_splits)
  next
    case False
    have "iq_start q' \<le> now" "load q' \<le> cap" using allow_invariant [OF allow] Cons.prems r by auto
    with Cons have "taken T rs q' \<le> 2 * cap" using r by (intro Cons.IH) auto
    with False show ?thesis unfolding r taken_Cons [OF allow] by simp
  qed
qed (simp add: taken_def within_def)

end

interpretation all_sources: window_counter "\<lambda>_. True" "\<lambda>q. unat (iq_total q)" 5000
  by unfold_locales
    (auto simp: ingress_quota_new_def allow_at_def Let_def not_le u32_incr word_le_nat_alt word_less_nat_alt split: if_splits)

interpretation one_source: window_counter "\<lambda>s. s = a" "\<lambda>q. unat (source_count q a)" 120 for a
  by unfold_locales
    (auto simp: ingress_quota_new_def allow_at_def Let_def not_le u32_incr word_le_nat_alt word_less_nat_alt source_count_def
      split: if_splits)

section \<open>Reading, sending and bridging\<close>

lemma read_sni_loop_Inr:
  assumes "read_sni_loop A reads parser sofar = Inr (host, bs)"
  shows "\<exists>chunks rest. reads = map Inr chunks @ rest \<and> bs = sofar @ concat chunks \<and> chunks \<noteq> []
    \<and> length bs \<le> MAX_CLIENT_HELLO \<and> validate_hostname host = Inr ()"
  using assms
proof (induction A reads parser sofar rule: read_sni_loop.induct)
  case (3 A chunk reads parser sofar)
  then obtain p1 where p1: "ac_read_tls A parser chunk = Inr p1"
    and len: "length sofar + length chunk \<le> MAX_CLIENT_HELLO" "chunk \<noteq> []"
    by (auto split: if_splits sum.splits)
  obtain x p2 where acc: "ac_accept A p1 = (x, p2)" by fastforce
  show ?case
  proof (cases "x = Inr None")
    case True
    with 3 p1 acc len have "\<exists>chunks rest. reads = map Inr chunks @ rest
        \<and> bs = (sofar @ chunk) @ concat chunks \<and> chunks \<noteq> []
        \<and> length bs \<le> MAX_CLIENT_HELLO \<and> validate_hostname host = Inr ()"
      by simp
    then obtain chunks rest where "reads = map Inr chunks @ rest" "bs = (sofar @ chunk) @ concat chunks"
      "length bs \<le> MAX_CLIENT_HELLO" "validate_hostname host = Inr ()" by blast
    then show ?thesis by (intro exI [of _ "chunk # chunks"]) auto
  next
    case False
    with 3 p1 acc len have "bs = sofar @ chunk" "validate_hostname host = Inr ()"
      by (auto split: sum.splits option.splits if_splits)
    then show ?thesis using len by (intro exI [of _ "[chunk]"]) auto
  qed
qed simp_all

lemma send_data_frames:
  assumes "send_data accepts polls capacity bytes frames = (outcome, frames')"
  shows "\<exists>new. frames' = frames @ new \<and> prefix (concat new) bytes
    \<and> (\<forall>f \<in> set new. f \<noteq> [] \<and> length f \<le> FRAME_LIMIT) \<and> (outcome = Sent \<longrightarrow> concat new = bytes)"
  using assms
proof (induction accepts polls capacity bytes frames rule: send_data.induct)
  case (1 accepts polls capacity bytes frames)
  define count where "count = min (min capacity (length bytes)) FRAME_LIMIT"
  consider "bytes = []" | "bytes \<noteq> []" "capacity = 0" | "bytes \<noteq> []" "0 < capacity" "\<not> accepts (length frames)"
    | "bytes \<noteq> []" "0 < capacity" "accepts (length frames)" by auto
  then show ?case
  proof cases
    case 2
    with 1 show ?thesis
      by (subst (asm) (3) send_data.simps) (auto split: list.splits capacity_poll.splits)
  next
    case 4
    then have "send_data accepts polls (capacity - count) (drop count bytes) (frames @ [take count bytes])
        = (outcome, frames')"
      using 1(3) by (subst (asm) send_data.simps) (simp add: count_def Let_def)
    from 1(2) [OF 4(1) _ refl 4(3), folded count_def, OF _ this] 4(2) obtain new where new:
      "frames' = frames @ take count bytes # new" "prefix (concat new) (drop count bytes)"
      "\<forall>f \<in> set new. f \<noteq> [] \<and> length f \<le> FRAME_LIMIT" "outcome = Sent \<longrightarrow> concat new = drop count bytes"
      by auto
    have "prefix (take count bytes @ concat new) (take count bytes @ drop count bytes)"
      using new(2) by (simp only: same_prefix_prefix)
    moreover have "0 < count" "count \<le> FRAME_LIMIT" using 4 by (simp_all add: count_def FRAME_LIMIT_def)
    ultimately show ?thesis
      using new 4(1) by (intro exI [of _ "take count bytes # new"]) auto
  qed (use 1(3) in \<open>auto simp: send_data.simps Let_def\<close>)
qed

lemma send_data_sends:
  assumes "\<And>n. accepts n" and "\<forall>p \<in> set polls. \<exists>n > 0. p = Capacity n" and "length bytes \<le> length polls"
  shows "fst (send_data accepts polls capacity bytes frames) = Sent"
  using assms(2,3)
proof (induction "length bytes" arbitrary: polls capacity bytes frames rule: less_induct)
  case less
  have granted: "fst (send_data accepts ps n bs fs) = Sent"
    if "0 < n" "bs = bytes" "bytes \<noteq> []" "\<forall>p \<in> set ps. \<exists>n > 0. p = Capacity n" "length bytes \<le> length ps + 1" for ps n bs fs
  proof -
    define count where "count = min (min n (length bytes)) FRAME_LIMIT"
    with that have "0 < count" by (simp add: FRAME_LIMIT_def)
    with that have "length (drop count bytes) < length bytes" "length (drop count bytes) \<le> length ps" by auto
    from less.hyps [OF this(1) that(4) this(2)] show ?thesis
      using that assms(1) by (subst send_data.simps) (simp add: count_def Let_def)
  qed
  show ?case
  proof (cases "bytes = [] \<or> 0 < capacity")
    case True
    then show ?thesis
      using less.prems granted [of capacity bytes polls frames] by (auto simp: send_data.simps)
  next
    case False
    then obtain n ps where "polls = Capacity n # ps" "0 < n"
      using less.prems by (cases polls) auto
    with False less.prems granted [of n bytes ps frames] show ?thesis
      by (subst send_data.simps) auto
  qed
qed

lemma bridge_loop_bytes:
  assumes "bridge_loop events b = Some (res, b')" and "res = None \<or> res = Some (Inr ())"
  shows "bg_outbound b' = bg_outbound b @ browser_sent events \<and> bg_written b' = bg_written b @ broker_sent events
    \<and> bg_outbound_ended b' = bg_outbound_ended b + of_bool (bg_browser_done b' \<and> \<not> bg_browser_done b)
    \<and> bg_shutdown b' = bg_shutdown b + of_bool (bg_tunnel_done b' \<and> \<not> bg_tunnel_done b)
    \<and> (bg_browser_done b \<longrightarrow> bg_browser_done b') \<and> (bg_tunnel_done b \<longrightarrow> bg_tunnel_done b')
    \<and> (res = Some (Inr ()) \<longleftrightarrow> bg_browser_done b' \<and> bg_tunnel_done b')"
  using assms
proof (induction events arbitrary: b)
  case Nil
  then show ?case by (auto simp: bridge_loop.simps split: if_splits)
next
  case (Cons e es)
  from Cons.prems obtain b1 where round: "bridge_round e b = Some (Inr b1)" and rest: "bridge_loop es b1 = Some (res, b')"
    by (subst (asm) bridge_loop.simps) (auto split: if_splits option.splits sum.splits)
  from Cons.IH [OF rest Cons.prems(2)] round show ?case
    by (cases e) (auto split: if_splits)
qed

text \<open>Bytes the browser sends go out at most as far as they were read when the bridge fails.\<close>

lemma bridge_loop_prefix:
  assumes "bridge_loop events b = Some (res, b')"
  shows "prefix (bg_outbound b') (bg_outbound b @ browser_sent events)
    \<and> prefix (bg_written b') (bg_written b @ broker_sent events)"
  using assms
proof (induction events arbitrary: b)
  case Nil
  then show ?case by (auto simp: bridge_loop.simps split: if_splits)
next
  case (Cons e es)
  from Cons.prems consider (go) b1 where "bridge_round e b = Some (Inr b1)" "bridge_loop es b1 = Some (res, b')"
    | (stop) "b' = b"
    by (subst (asm) bridge_loop.simps) (auto split: if_splits option.splits sum.splits)
  then show ?case
  proof cases
    case go
    from Cons.IH [OF go(2)] go(1) show ?thesis by (cases e) (auto split: if_splits)
  qed auto
qed

end
