(* ===== verification/Restore.thy ===== *)
theory Restore
  imports Relay_Prelude
begin

text \<open>
  The restore witness of \<^verbatim>\<open>crates/bloom-relay-store/src/restore.rs\<close> and its S3 storage
  (\<^verbatim>\<open>s3_witness.rs\<close>): a high-water mark of the database revision kept in a local file
  and, optionally, in a remote object with compare-and-swap writes.

  The file system, the S3 service and the database are the environment. A witness file is
  what \<^verbatim>\<open>symlink_metadata\<close> and \<^verbatim>\<open>read\<close> report of it; a remote witness is a pair of
  operations on a state of its own, so that writes of other hosts between a read and a
  write are part of the model; the database is read once per attempt and may have moved
  between attempts. The file lock excludes other processes of the host, so the file does
  not change between attempts. A poisoned \<^verbatim>\<open>remote_seen\<close> mutex (a panic while it is
  held) is not modelled.
\<close>

section \<open>Errors\<close>

datatype io_error = NotFound | PermissionDenied | InvalidData | InvalidInput | TimedOut | OtherIo

text \<open>
  \<^verbatim>\<open>StoreError\<close>. \<open>SUnavailable\<close> also stands for a statement PostgreSQL refuses (a
  violated constraint); \<open>SWitness\<close> carries the printed \<^verbatim>\<open>WitnessError\<close>.
\<close>

datatype store_error =
    SUnavailable
  | SMigration
  | SConflict
  | SInvalidRequest
  | SUnauthorized
  | SWitness string

datatype witness_error = Missing | StaleDatabase | RemoteContention | WIo io_error | WStore store_error

fun witness_error_string :: "witness_error \<Rightarrow> string" where
  "witness_error_string Missing = ''restore witness missing for established database''"
| "witness_error_string StaleDatabase = ''database revision below external restore witness''"
| "witness_error_string RemoteContention = ''remote restore witness kept changing during a write''"
| "witness_error_string (WIo _) = ''restore witness storage unavailable''"
| "witness_error_string (WStore _) = ''database unavailable''"

section \<open>The witness body and the local file\<close>

definition parse_revision :: "bytes \<Rightarrow> io_error + u64" where
  "parse_revision bs =
     (if length bs > 24 then Inl InvalidData
      else (case parse_u64 (trim_end_matches (\<lambda>b. b = 10) bs) of
        None \<Rightarrow> Inl InvalidData
      | Some r \<Rightarrow> Inr r))"

text \<open>The body \<^verbatim>\<open>writeln!\<close> and the S3 writer produce.\<close>

definition format_revision :: "u64 \<Rightarrow> bytes" where
  "format_revision r = dec_digits (unat r) @ [10]"

text \<open>
  What \<^verbatim>\<open>symlink_metadata\<close> returns for the path: an error, or the file type, the
  permission bits and what reading the contents returns.
\<close>

datatype witness_file =
    StatError io_error
  | Stat bool u32 "io_error + bytes"

definition read_revision :: "witness_file \<Rightarrow> io_error + u64 option" where
  "read_revision f =
     (case f of
        StatError e \<Rightarrow> if e = NotFound then Inr None else Inl e
      | Stat is_file mode contents \<Rightarrow>
          if \<not> is_file then Inl InvalidData
          else if and mode 7 \<noteq> 0 then Inl PermissionDenied
          else (case contents of
            Inl e \<Rightarrow> Inl e
          | Inr bs \<Rightarrow> (case parse_revision bs of Inl e \<Rightarrow> Inl e | Inr r \<Rightarrow> Inr (Some r))))"

text \<open>
  \<^verbatim>\<open>write_revision\<close> writes a temporary file of mode 0660 and renames it over the path.
  It can fail before the rename (the file is unchanged and the temporary removed), or after
  it, when syncing the directory fails (the file is new and the call still fails).
\<close>

datatype disk = DiskOk | FailBeforeRename io_error | FailAfterRename io_error

definition written_file :: "u64 \<Rightarrow> witness_file" where
  "written_file r = Stat True 432 (Inr (format_revision r))"

fun write_revision :: "disk \<Rightarrow> u64 \<Rightarrow> witness_file \<Rightarrow> (io_error + unit) \<times> witness_file" where
  "write_revision DiskOk r f = (Inr (), written_file r)"
| "write_revision (FailBeforeRename e) r f = (Inl e, f)"
| "write_revision (FailAfterRename e) r f = (Inl e, written_file r)"

section \<open>Remote witnesses\<close>

record remote_revision =
  rr_revision :: u64
  rr_tag :: string

datatype remote_write = Written remote_revision | WriteConflict

text \<open>The trait \<^verbatim>\<open>RemoteWitness\<close>, over a state \<open>'r\<close> of the remote storage.\<close>

record 'r remote_witness =
  rw_read :: "'r \<Rightarrow> (io_error + remote_revision option) \<times> 'r"
  rw_write :: "u64 \<Rightarrow> remote_revision option \<Rightarrow> 'r \<Rightarrow> (io_error + remote_write) \<times> 'r"

section \<open>The S3 witness\<close>

text \<open>
  \<^verbatim>\<open>S3Witness\<close> over the answers of the S3 client: \<^verbatim>\<open>get_object\<close> returns the ETag (if
  any) and the collected body, or a missing key, or another error; \<^verbatim>\<open>put_object\<close> takes
  the body and the condition (\<open>IfMatch tag\<close> or \<open>IfNoneMatchAny\<close>) and returns the ETag,
  a service error with its HTTP status, or another error.
\<close>

datatype s3_get = GetOk "string option" "bytes option" | NoSuchKey | GetFailed

datatype s3_condition = IfMatch string | IfNoneMatchAny

datatype s3_put = PutOk "string option" | PutServiceError nat | PutFailed

definition s3_read :: "('s \<Rightarrow> s3_get \<times> 's) \<Rightarrow> 's \<Rightarrow> (io_error + remote_revision option) \<times> 's" where
  "s3_read get_object st =
     (case get_object st of (answer, st') \<Rightarrow>
        ((case answer of
            NoSuchKey \<Rightarrow> Inr None
          | GetFailed \<Rightarrow> Inl OtherIo
          | GetOk etag body \<Rightarrow>
              (case etag of
                 None \<Rightarrow> Inl InvalidInput
               | Some version_tag \<Rightarrow>
                   (case body of
                      None \<Rightarrow> Inl OtherIo
                    | Some bs \<Rightarrow>
                        (case parse_revision bs of
                           Inl e \<Rightarrow> Inl e
                         | Inr revision \<Rightarrow>
                             Inr (Some \<lparr>rr_revision = revision, rr_tag = version_tag\<rparr>))))), st'))"

definition s3_write ::
  "(bytes \<Rightarrow> s3_condition \<Rightarrow> 's \<Rightarrow> s3_put \<times> 's) \<Rightarrow> u64 \<Rightarrow> remote_revision option \<Rightarrow> 's
     \<Rightarrow> (io_error + remote_write) \<times> 's" where
  "s3_write put_object revision replacing st =
     (case put_object (format_revision revision)
             (case replacing of Some current \<Rightarrow> IfMatch (rr_tag current) | None \<Rightarrow> IfNoneMatchAny) st of
        (answer, st') \<Rightarrow>
          ((case answer of
              PutOk etag \<Rightarrow>
                (case etag of
                   None \<Rightarrow> Inl InvalidInput
                 | Some tag \<Rightarrow> Inr (Written \<lparr>rr_revision = revision, rr_tag = tag\<rparr>))
            | PutServiceError status \<Rightarrow>
                if status = 409 \<or> status = 412 then Inr WriteConflict else Inl OtherIo
            | PutFailed \<Rightarrow> Inl OtherIo), st'))"

definition s3_witness ::
  "('s \<Rightarrow> s3_get \<times> 's) \<Rightarrow> (bytes \<Rightarrow> s3_condition \<Rightarrow> 's \<Rightarrow> s3_put \<times> 's) \<Rightarrow> 's remote_witness" where
  "s3_witness get_object put_object =
     \<lparr>rw_read = s3_read get_object, rw_write = s3_write put_object\<rparr>"

text \<open>\<^verbatim>\<open>S3Witness::from_env\<close>: the configuration of the three variables.\<close>

definition non_empty :: "string option \<Rightarrow> string option" where
  "non_empty v = (case v of Some s \<Rightarrow> if s = [] then None else Some s | None \<Rightarrow> None)"

definition s3_from_env ::
  "string option \<Rightarrow> string option \<Rightarrow> string option \<Rightarrow> io_error + (string \<times> string \<times> string) option" where
  "s3_from_env bucket_env key_env region_env =
     (case non_empty bucket_env of
        None \<Rightarrow>
          if non_empty key_env \<noteq> None \<or> non_empty region_env \<noteq> None
          then Inl InvalidInput else Inr None
      | Some bucket \<Rightarrow>
          (case non_empty key_env of
             None \<Rightarrow> Inl InvalidInput
           | Some key \<Rightarrow>
               (case non_empty region_env of
                  None \<Rightarrow> Inl InvalidInput
                | Some region \<Rightarrow> Inr (Some (bucket, key, region)))))"

section \<open>Verifying and advancing the witness\<close>

definition REMOTE_ATTEMPTS :: nat where
  "REMOTE_ATTEMPTS = 4"

text \<open>The mutable state of a \<^verbatim>\<open>RestoreWitness\<close> and of what it stores.\<close>

record 'r witness_state =
  ws_file :: witness_file
  ws_remote :: 'r
  ws_seen :: "remote_revision option"

text \<open>
  The answers of the environment: the lock, and for attempt \<open>i\<close> the database revision,
  whether the database is pristine, and the disk.
\<close>

record witness_env =
  we_lock :: "io_error + unit"
  we_revision :: "nat \<Rightarrow> store_error + u64"
  we_pristine :: "nat \<Rightarrow> store_error + bool"
  we_disk :: "nat \<Rightarrow> disk"

text \<open>\<^verbatim>\<open>Option::max\<close>: \<open>None\<close> is below every \<open>Some\<close>.\<close>

fun max_option :: "u64 option \<Rightarrow> u64 option \<Rightarrow> u64 option" where
  "max_option None b = b"
| "max_option a None = a"
| "max_option (Some a) (Some b) = Some (max a b)"

text \<open>
  The end of an attempt, after the remote witness agrees with the revision: write the local
  file unless it already holds the revision.
\<close>

definition settle_local ::
  "witness_env \<Rightarrow> nat \<Rightarrow> u64 \<Rightarrow> u64 option \<Rightarrow> 'r witness_state
     \<Rightarrow> (witness_error + unit) option \<times> 'r witness_state" where
  "settle_local E i revision local s =
     (if local \<noteq> Some revision
      then (case write_revision (we_disk E i) revision (ws_file s) of
              (Inl e, f) \<Rightarrow> (Some (Inl (WIo e)), s\<lparr>ws_file := f\<rparr>)
            | (Inr _, f) \<Rightarrow> (Some (Inr ()), s\<lparr>ws_file := f\<rparr>))
      else (Some (Inr ()), s))"

text \<open>
  From the readings on: refuse a missing or a stale database, bring the remote witness to
  the revision, settle the local file. The outcome \<open>None\<close> is the \<^verbatim>\<open>continue\<close> after a
  lost race.
\<close>

definition settle ::
  "witness_env \<Rightarrow> 'r remote_witness option \<Rightarrow> nat \<Rightarrow> u64 \<Rightarrow> u64 option \<Rightarrow> remote_revision option
     \<Rightarrow> 'r witness_state \<Rightarrow> (witness_error + unit) option \<times> 'r witness_state" where
  "settle E remote i revision local remote_revision s =
     (let prior = max_option local (map_option rr_revision remote_revision) in
      let missing = (if prior = None
                     then (if revision \<noteq> 1 then Inr True
                           else (case we_pristine E i of Inl e \<Rightarrow> Inl e | Inr b \<Rightarrow> Inr (\<not> b)))
                     else Inr False) in
      case missing of
        Inl e \<Rightarrow> (Some (Inl (WStore e)), s)
      | Inr True \<Rightarrow> (Some (Inl Missing), s)
      | Inr False \<Rightarrow>
          if (case prior of Some v \<Rightarrow> v > revision | None \<Rightarrow> False)
          then (Some (Inl StaleDatabase), s)
          else (case remote of
            None \<Rightarrow> settle_local E i revision local s
          | Some backend \<Rightarrow>
              if map_option rr_revision remote_revision = Some revision
              then settle_local E i revision local (s\<lparr>ws_seen := remote_revision\<rparr>)
              else (case rw_write backend revision remote_revision (ws_remote s) of
                (Inl e, r') \<Rightarrow> (Some (Inl (WIo e)), s\<lparr>ws_remote := r'\<rparr>)
              | (Inr (Written w), r') \<Rightarrow>
                  settle_local E i revision local (s\<lparr>ws_remote := r', ws_seen := Some w\<rparr>)
              | (Inr WriteConflict, r') \<Rightarrow> (None, s\<lparr>ws_remote := r', ws_seen := None\<rparr>))))"

definition attempt ::
  "witness_env \<Rightarrow> 'r remote_witness option \<Rightarrow> nat \<Rightarrow> 'r witness_state
     \<Rightarrow> (witness_error + unit) option \<times> 'r witness_state" where
  "attempt E remote i s =
     (case we_revision E i of
        Inl e \<Rightarrow> (Some (Inl (WStore e)), s)
      | Inr revision \<Rightarrow>
          (case read_revision (ws_file s) of
             Inl e \<Rightarrow> (Some (Inl (WIo e)), s)
           | Inr local \<Rightarrow>
               (case remote of
                  None \<Rightarrow> settle E remote i revision local None s
                | Some backend \<Rightarrow>
                    if (case ws_seen s of
                          Some seen \<Rightarrow> rr_revision seen = revision \<and> local = Some revision
                        | None \<Rightarrow> False)
                    then (Some (Inr ()), s)
                    else (case rw_read backend (ws_remote s) of
                      (Inl e, r') \<Rightarrow> (Some (Inl (WIo e)), s\<lparr>ws_remote := r'\<rparr>)
                    | (Inr found, r') \<Rightarrow>
                        settle E remote i revision local found (s\<lparr>ws_remote := r'\<rparr>)))))"

fun attempts ::
  "witness_env \<Rightarrow> 'r remote_witness option \<Rightarrow> nat \<Rightarrow> nat \<Rightarrow> 'r witness_state
     \<Rightarrow> (witness_error + unit) \<times> 'r witness_state" where
  "attempts E remote 0 i s = (Inl RemoteContention, s)"
| "attempts E remote (Suc n) i s =
     (case attempt E remote i s of
        (Some res, s') \<Rightarrow> (res, s')
      | (None, s') \<Rightarrow> attempts E remote n (Suc i) s')"

definition verify_and_advance ::
  "witness_env \<Rightarrow> 'r remote_witness option \<Rightarrow> 'r witness_state
     \<Rightarrow> (witness_error + unit) \<times> 'r witness_state" where
  "verify_and_advance E remote s =
     (case we_lock E of
        Inl e \<Rightarrow> (Inl (WIo e), s)
      | Inr _ \<Rightarrow> attempts E remote REMOTE_ATTEMPTS 0 s)"

section \<open>Facts\<close>

lemma trim_end_snoc:
  assumes "xs \<noteq> []" and "\<not> p (last xs)" and "p b"
  shows "trim_end_matches p (xs @ [b]) = xs"
  using assms by (cases xs rule: rev_cases) (auto simp: trim_end_matches_def)

lemma trim_format: "trim_end_matches (\<lambda>b. b = 10) (format_revision r) = dec_digits (unat r)"
proof -
  have "last (dec_digits (unat r)) \<in> set (dec_digits (unat r))" by simp
  then have "is_digit_byte (last (dec_digits (unat r)))"
    using dec_digits_digits [of "unat r"] by (simp only: list_all_iff)
  then show ?thesis
    unfolding format_revision_def
    by (intro trim_end_snoc) (auto dest: digit_byte_not_newline)
qed

lemma length_format: "length (format_revision r) \<le> 24"
proof -
  have "unat r < 2 ^ 64" using unsigned_less [of r] by simp
  then have "length (dec_digits (unat r)) \<le> 20"
    by (intro length_dec_digits) simp_all
  then show ?thesis by (simp add: format_revision_def)
qed

lemma parse_format [simp]: "parse_revision (format_revision r) = Inr r"
proof -
  have "unat r < 2 ^ 64" using unsigned_less [of r] by simp
  then show ?thesis
    using length_format [of r]
    by (simp add: parse_revision_def trim_format parse_u64_dec_digits)
qed

lemma read_written [simp]: "read_revision (written_file r) = Inr (Some r)"
  by (simp add: read_revision_def written_file_def)

fun le_option :: "u64 option \<Rightarrow> u64 option \<Rightarrow> bool" where
  "le_option None b = True"
| "le_option (Some a) None = False"
| "le_option (Some a) (Some b) = (a \<le> b)"

lemma le_option_refl [simp]: "le_option a a"
  by (cases a) auto

lemma le_option_trans: "le_option a b \<Longrightarrow> le_option b c \<Longrightarrow> le_option a c"
  by (cases a; cases b; cases c) auto

lemma max_option_le: "le_option (max_option a b) c \<longleftrightarrow> le_option a c \<and> le_option b c"
  by (cases a; cases b; cases c) auto

lemma not_stale: "\<not> (case m of Some v \<Rightarrow> v > r | None \<Rightarrow> False) \<longleftrightarrow> le_option m (Some r)"
  by (cases m) auto

text \<open>
  The readings under which an attempt may touch anything: both witnesses are at most the
  database revision, and without any witness the database is new.
\<close>

definition admissible :: "witness_env \<Rightarrow> nat \<Rightarrow> u64 \<Rightarrow> u64 option \<Rightarrow> u64 option \<Rightarrow> bool" where
  "admissible E i revision local remote \<longleftrightarrow>
     le_option local (Some revision) \<and> le_option remote (Some revision)
     \<and> (local = None \<and> remote = None \<longrightarrow> revision = 1 \<and> we_pristine E i = Inr True)"

lemma settle_local_cases:
  assumes "settle_local E i revision local s = (res, s')"
  shows "res \<noteq> None \<and> ws_remote s' = ws_remote s \<and> ws_seen s' = ws_seen s
    \<and> (ws_file s' = ws_file s \<and> (res = Some (Inr ()) \<longrightarrow> local = Some revision)
       \<or> ws_file s' = written_file revision)"
  using assms
  by (cases "we_disk E i") (auto simp: settle_local_def split: if_splits)

lemma settle_refused:
  assumes "\<not> admissible E i revision local (map_option rr_revision found)"
  shows "\<exists>e. settle E remote i revision local found s = (Some (Inl e), s)"
proof (cases "max_option local (map_option rr_revision found)")
  case None
  then have "local = None" "found = None"
    by (cases local; cases found; auto)+
  with assms show ?thesis
    by (auto simp: settle_def admissible_def Let_def split: sum.splits bool.splits)
next
  case (Some v)
  with assms have "\<not> le_option (Some v) (Some revision)"
    using max_option_le [of local "map_option rr_revision found" "Some revision"]
    by (auto simp: admissible_def)
  with Some show ?thesis
    by (auto simp: settle_def Let_def)
qed

lemma settle_admissible:
  assumes "admissible E i revision local (map_option rr_revision found)"
  shows "settle E remote i revision local found s =
    (case remote of
       None \<Rightarrow> settle_local E i revision local s
     | Some backend \<Rightarrow>
         if map_option rr_revision found = Some revision
         then settle_local E i revision local (s\<lparr>ws_seen := found\<rparr>)
         else (case rw_write backend revision found (ws_remote s) of
           (Inl e, r') \<Rightarrow> (Some (Inl (WIo e)), s\<lparr>ws_remote := r'\<rparr>)
         | (Inr (Written w), r') \<Rightarrow>
             settle_local E i revision local (s\<lparr>ws_remote := r', ws_seen := Some w\<rparr>)
         | (Inr WriteConflict, r') \<Rightarrow> (None, s\<lparr>ws_remote := r', ws_seen := None\<rparr>)))"
proof -
  let ?prior = "max_option local (map_option rr_revision found)"
  have "le_option ?prior (Some revision)"
    using assms by (simp add: admissible_def max_option_le)
  then have "\<not> (case ?prior of Some v \<Rightarrow> v > revision | None \<Rightarrow> False)"
    by (simp only: not_stale simp_thms)
  moreover have "?prior = None \<Longrightarrow> revision = 1 \<and> we_pristine E i = Inr True"
    using assms by (cases local; cases found) (auto simp: admissible_def)
  ultimately show ?thesis
    by (auto simp: settle_def Let_def)
qed

lemma settle_file:
  assumes "settle E remote i revision local found s = (res, s')"
  shows "ws_file s' = ws_file s \<and> res \<noteq> Some (Inr ())
    \<or> admissible E i revision local (map_option rr_revision found)
      \<and> (ws_file s' = ws_file s \<and> local = Some revision \<or> ws_file s' = written_file revision)"
proof (cases "admissible E i revision local (map_option rr_revision found)")
  case True
  note eq = assms [unfolded settle_admissible [OF True]]
  have local: ?thesis if "settle_local E i revision local t = (res, s')" "ws_file t = ws_file s" for t
    using settle_local_cases [OF that(1)] that(2) True by auto
  show ?thesis
    using eq local
    by (auto split: option.splits if_splits prod.splits sum.splits remote_write.splits)
next
  case False
  from settle_refused [OF this, of remote s] assms show ?thesis
    by auto
qed

lemma attempt_elim:
  assumes "attempt E remote i s = (res, s')"
  obtains (refused) e where "res = Some (Inl e)" "ws_file s' = ws_file s"
      "remote = None \<and> ws_remote s' = ws_remote s
       \<or> (\<exists>R x. remote = Some R \<and> (ws_remote s' = ws_remote s \<or> rw_read R (ws_remote s) = (x, ws_remote s')))"
  | (agreed) revision R seen where "we_revision E i = Inr revision"
      "read_revision (ws_file s) = Inr (Some revision)" "res = Some (Inr ())" "s' = s"
      "remote = Some R" "ws_seen s = Some seen" "rr_revision seen = revision"
  | (settled) revision local found r' where "we_revision E i = Inr revision"
      "read_revision (ws_file s) = Inr local"
      "settle E remote i revision local found (s\<lparr>ws_remote := r'\<rparr>) = (res, s')"
      "remote = None \<and> found = None \<and> r' = ws_remote s
       \<or> (\<exists>R. remote = Some R \<and> rw_read R (ws_remote s) = (Inr found, r'))"
proof (cases "we_revision E i")
  case (Inl e)
  with assms show thesis by (intro refused) (cases remote; auto simp: attempt_def)+
next
  case rev: (Inr revision)
  show thesis
  proof (cases "read_revision (ws_file s)")
    case (Inl e)
    with assms rev show thesis by (intro refused) (cases remote; auto simp: attempt_def)+
  next
    case stored: (Inr local)
    show thesis
    proof (cases remote)
      case None
      with assms rev stored show thesis
        by (intro settled [of revision local None "ws_remote s"]) (auto simp: attempt_def)
    next
      case (Some R)
      show thesis
      proof (cases "\<exists>seen. ws_seen s = Some seen \<and> rr_revision seen = revision \<and> local = Some revision")
        case True
        then obtain seen where "ws_seen s = Some seen" "rr_revision seen = revision" "local = Some revision"
          by blast
        with assms rev stored Some show thesis
          by (intro agreed [of revision R seen]) (simp_all add: attempt_def)
      next
        case False
        obtain x r' where read: "rw_read R (ws_remote s) = (x, r')" by fastforce
        from False have "\<not> (case ws_seen s of Some seen \<Rightarrow> rr_revision seen = revision \<and> local = Some revision
                | None \<Rightarrow> False)"
          by (auto split: option.splits)
        note eq = assms [unfolded attempt_def rev stored Some read sum.case option.case if_not_P [OF this]]
        show thesis
        proof (cases x)
          case (Inl e)
          with eq Some read show thesis by (intro refused [of "WIo e"]) auto
        next
          case (Inr found)
          with eq Some read rev stored show thesis
            by (intro settled [of revision local found r']) auto
        qed
      qed
    qed
  qed
qed

text \<open>
  The file after an attempt that passed its checks: it holds the revision read in attempt
  \<open>j\<close>, which is not below what the file held before.
\<close>

definition progressed :: "witness_env \<Rightarrow> 'r remote_witness option \<Rightarrow> nat \<Rightarrow> witness_file \<Rightarrow> witness_file \<Rightarrow> bool" where
  "progressed E remote j f f' \<longleftrightarrow>
     (\<exists>revision local. we_revision E j = Inr revision \<and> read_revision f = Inr local
        \<and> le_option local (Some revision)
        \<and> (remote = None \<and> local = None \<longrightarrow> revision = 1 \<and> we_pristine E j = Inr True)
        \<and> (f' = f \<and> local = Some revision \<or> f' = written_file revision))"

lemma attempt_file:
  assumes "attempt E remote i s = (res, s')"
  shows "ws_file s' = ws_file s \<and> res \<noteq> Some (Inr ()) \<or> progressed E remote i (ws_file s) (ws_file s')"
  using assms
proof (cases rule: attempt_elim)
  case (settled revision local found r')
  from settle_file [OF settled(3)] settled(1,2,4) show ?thesis
    by (auto simp: admissible_def progressed_def)
qed (auto simp: progressed_def)

lemma settle_local_finishes: "settle_local E i revision local s \<noteq> (None, s')"
  by (auto simp: settle_local_def split: prod.splits sum.splits)

lemma attempt_continue:
  assumes "attempt E remote i s = (None, s')"
  shows "ws_file s' = ws_file s \<and> ws_seen s' = None \<and> remote \<noteq> None"
  using assms
proof (cases rule: attempt_elim)
  case (settled revision local found r')
  show ?thesis
  proof (cases "admissible E i revision local (map_option rr_revision found)")
    case True
    with settled(3) show ?thesis
      by (auto simp: settle_admissible settle_local_finishes
          split: option.splits if_splits prod.splits sum.splits remote_write.splits)
  next
    case False
    from settle_refused [OF this, of remote "s\<lparr>ws_remote := r'\<rparr>"] settled(3) show ?thesis by auto
  qed
qed auto

text \<open>What any number of attempts leaves in the file.\<close>

lemma attempts_file:
  assumes "attempts E remote n i s = (res, s')"
  shows "ws_file s' = ws_file s \<and> res \<noteq> Inr ()
    \<or> (\<exists>j < i + n. progressed E remote j (ws_file s) (ws_file s'))"
  using assms
proof (induction n arbitrary: i s)
  case (Suc n)
  obtain r t where step: "attempt E remote i s = (r, t)" by fastforce
  show ?case
  proof (cases r)
    case None
    with Suc.prems step have "attempts E remote n (Suc i) t = (res, s')" by simp
    from Suc.IH [OF this] attempt_continue [of E remote i s t] step None show ?thesis
      by auto
  next
    case (Some r')
    with Suc.prems step have "r = Some res" "t = s'" by auto
    moreover have "i < i + Suc n" by simp
    ultimately show ?thesis using attempt_file [OF step] by blast
  qed
qed auto

lemma verify_and_advance_file:
  assumes "verify_and_advance E remote s = (res, s')"
  shows "ws_file s' = ws_file s \<and> res \<noteq> Inr ()
    \<or> (\<exists>j < REMOTE_ATTEMPTS. progressed E remote j (ws_file s) (ws_file s'))"
  using assms attempts_file [of E remote REMOTE_ATTEMPTS 0 s res s']
  by (auto simp: verify_and_advance_def split: sum.splits)

text \<open>
  The contract of a remote witness with compare-and-swap writes, relative to the revision
  \<open>held\<close> its storage holds: reading never lowers it (other hosts may raise it meanwhile),
  and a write either leaves it at least where it was or took effect, in which case the
  storage held what the write replaces. A write that reports an error may have done either.
\<close>

definition cas_remote :: "'r remote_witness \<Rightarrow> ('r \<Rightarrow> u64 option) \<Rightarrow> bool" where
  "cas_remote R held \<longleftrightarrow>
     (\<forall>st res st'. rw_read R st = (res, st') \<longrightarrow> le_option (held st) (held st'))
     \<and> (\<forall>r old st res st'. rw_write R r old st = (res, st') \<longrightarrow>
          le_option (held st) (held st')
          \<or> le_option (held st) (map_option rr_revision old) \<and> held st' = Some r)"

lemma cas_read: "cas_remote R held \<Longrightarrow> rw_read R st = (res, st') \<Longrightarrow> le_option (held st) (held st')"
  by (auto simp: cas_remote_def)

lemma cas_write:
  assumes "cas_remote R held" and "rw_write R r old st = (res, st')"
    and "le_option (map_option rr_revision old) (Some r)"
  shows "le_option (held st) (held st')"
  using assms le_option_trans unfolding cas_remote_def by metis

lemma settle_local_remote:
  "settle_local E i revision local s = (res, s') \<Longrightarrow> ws_remote s' = ws_remote s"
  using settle_local_cases [of E i revision local s res s'] by simp

lemma settle_remote:
  assumes "cas_remote R held" and "settle E (Some R) i revision local found s = (res, s')"
  shows "le_option (held (ws_remote s)) (held (ws_remote s'))"
proof (cases "admissible E i revision local (map_option rr_revision found)")
  case True
  then have le: "le_option (map_option rr_revision found) (Some revision)"
    by (simp add: admissible_def)
  obtain x r' where wr: "rw_write R revision found (ws_remote s) = (x, r')" by fastforce
  with assms(1) le have up: "le_option (held (ws_remote s)) (held r')"
    by (blast intro: cas_write)
  show ?thesis
    using assms(2) up
    by (auto simp: settle_admissible [OF True] wr dest!: settle_local_remote
        split: if_splits sum.splits remote_write.splits)
next
  case False
  from settle_refused [OF this, of "Some R" s] assms(2) show ?thesis by auto
qed

lemma attempt_remote:
  assumes "cas_remote R held" and "attempt E (Some R) i s = (res, s')"
  shows "le_option (held (ws_remote s)) (held (ws_remote s'))"
  using assms(2)
proof (cases rule: attempt_elim)
  case (settled revision local found r')
  from settled(4) have "le_option (held (ws_remote s)) (held r')"
    using cas_read [OF assms(1)] by auto
  moreover from settle_remote [OF assms(1) settled(3)]
  have "le_option (held r') (held (ws_remote s'))" by simp
  ultimately show ?thesis by (rule le_option_trans)
qed (use cas_read [OF assms(1)] in auto)

lemma attempts_remote:
  assumes "cas_remote R held" and "attempts E (Some R) n i s = (res, s')"
  shows "le_option (held (ws_remote s)) (held (ws_remote s'))"
  using assms(2)
proof (induction n arbitrary: i s)
  case (Suc n)
  then show ?case
    using attempt_remote [OF assms(1)] le_option_trans
    by (fastforce split: prod.splits option.splits)
qed simp

section \<open>Properties\<close>

text \<open>C19. The local witness is a high-water mark: whatever the outcome of an acknowledgement,
  a revision recorded in the file is never replaced by a lower one.\<close>

theorem restore_high_water:
  assumes "verify_and_advance E remote s = (res, s')"
    and "read_revision (ws_file s) = Inr (Some v)"
  shows "\<exists>v'. read_revision (ws_file s') = Inr (Some v') \<and> v \<le> v'"
  using verify_and_advance_file [OF assms(1)] assms(2)
  by (auto simp: progressed_def)

text \<open>C32. An acknowledgement that succeeds vouches for the database: the file then holds a
  revision read from the database during the call, no lower than the file held before; and
  on a host with no witness at all that database is pristine, at revision 1.\<close>

theorem restore_success:
  assumes "verify_and_advance E remote s = (Inr (), s')"
  shows "\<exists>i r. i < REMOTE_ATTEMPTS \<and> we_revision E i = Inr r
    \<and> read_revision (ws_file s') = Inr (Some r)
    \<and> (\<exists>l. read_revision (ws_file s) = Inr l \<and> le_option l (Some r)
          \<and> (l = None \<and> remote = None \<longrightarrow> r = 1 \<and> we_pristine E i = Inr True))"
  using verify_and_advance_file [OF assms] by (auto simp: progressed_def)

text \<open>C33. A database restored beneath the host is refused: if every revision the database
  reports is below the recorded one, the call fails and leaves the file alone.\<close>

theorem stale_database_refused:
  assumes "verify_and_advance E remote s = (res, s')"
    and "read_revision (ws_file s) = Inr (Some v)"
    and below: "\<And>i r. we_revision E i = Inr r \<Longrightarrow> r < v"
  shows "(\<exists>e. res = Inl e) \<and> ws_file s' = ws_file s"
proof -
  have "\<not> progressed E remote j (ws_file s) (ws_file s')" for j
    using assms(2) below by (force simp: progressed_def)
  with verify_and_advance_file [OF assms(1)] show ?thesis
    by (cases res) auto
qed


section \<open>Witnesses\<close>

definition example_env :: "u64 \<Rightarrow> witness_env" where
  "example_env r = \<lparr>we_lock = Inr (), we_revision = (\<lambda>_. Inr r), we_pristine = (\<lambda>_. Inr True),
     we_disk = (\<lambda>_. DiskOk)\<rparr>"

text \<open>A conditional store holding one revision.\<close>

definition example_remote :: "u64 option remote_witness" where
  "example_remote =
     \<lparr>rw_read = (\<lambda>st. (Inr (map_option (\<lambda>r. \<lparr>rr_revision = r, rr_tag = []\<rparr>) st), st)),
      rw_write = (\<lambda>r old st. if st = map_option rr_revision old
        then (Inr (Written \<lparr>rr_revision = r, rr_tag = []\<rparr>), Some r) else (Inr WriteConflict, st))\<rparr>"

definition example_state :: "u64 option witness_state" where
  "example_state = \<lparr>ws_file = written_file 3, ws_remote = Some 3, ws_seen = None\<rparr>"

lemmas example_defs = example_env_def example_remote_def example_state_def

lemma REMOTE_ATTEMPTS_Suc: "REMOTE_ATTEMPTS = Suc 3"
  by (simp add: REMOTE_ATTEMPTS_def)

lemma attempts_first:
  "attempts E remote REMOTE_ATTEMPTS i s =
     (case attempt E remote i s of
        (Some res, s') \<Rightarrow> (res, s')
      | (None, s') \<Rightarrow> attempts E remote 3 (Suc i) s')"
  by (simp only: REMOTE_ATTEMPTS_Suc attempts.simps)

lemma example_file [simp]: "read_revision (ws_file example_state) = Inr (Some 3)"
  by (simp add: example_state_def)

lemma example_run:
  "verify_and_advance (example_env 5) (Some example_remote) example_state =
     (Inr (), \<lparr>ws_file = written_file 5, ws_remote = Some 5,
        ws_seen = Some \<lparr>rr_revision = 5, rr_tag = []\<rparr>\<rparr>)"
  by (simp add: verify_and_advance_def attempts_first attempt_def settle_def
      settle_local_def example_defs Let_def)

lemma example_stale_run:
  "verify_and_advance (example_env 2) (Some example_remote) example_state =
     (Inl StaleDatabase, example_state)"
  by (simp add: verify_and_advance_def attempts_first attempt_def settle_def
      settle_local_def example_defs Let_def)

lemma example_cas: "cas_remote example_remote id"
  by (auto simp: cas_remote_def example_remote_def split: if_splits)

theorem restore_high_water_witness:
  "\<exists>v'. read_revision (ws_file (snd (verify_and_advance (example_env 5) (Some example_remote)
       example_state))) = Inr (Some v') \<and> 3 \<le> v'"
  using restore_high_water [OF example_run example_file] by (simp only: example_run snd_conv)

theorem restore_success_witness:
  "\<exists>i r. i < REMOTE_ATTEMPTS \<and> we_revision (example_env 5) i = Inr r
     \<and> read_revision (ws_file (snd (verify_and_advance (example_env 5) (Some example_remote)
         example_state))) = Inr (Some r)"
  using restore_success [OF example_run] by (auto simp: example_run)

theorem stale_database_refused_witness:
  "fst (verify_and_advance (example_env 2) (Some example_remote) example_state) = Inl StaleDatabase
     \<and> ws_file (snd (verify_and_advance (example_env 2) (Some example_remote) example_state))
         = ws_file example_state"
proof -
  have below: "\<And>i r. we_revision (example_env 2) i = Inr r \<Longrightarrow> r < 3"
    by (simp add: example_env_def)
  from stale_database_refused [OF example_stale_run example_file below] show ?thesis
    by (simp add: example_stale_run)
qed


end
