(* ===== verification/Sql_Table.thy ===== *)
theory Sql_Table
  imports Relay_Prelude
begin

text \<open>
  The statements the store sends to PostgreSQL, on tables as lists of rows in insertion
  order: \<^verbatim>\<open>SELECT\<close> of one row, counting, \<^verbatim>\<open>UPDATE\<close>, \<^verbatim>\<open>DELETE\<close>, \<^verbatim>\<open>INSERT\<close> under a
  uniqueness constraint, and \<^verbatim>\<open>ORDER BY ... LIMIT\<close>. The facts below are the algebra the
  component proofs rewrite with; the locale at the end lifts an invariant from the
  operations of a component to its runs.
\<close>

definition fetch_optional :: "('r \<Rightarrow> bool) \<Rightarrow> 'r list \<Rightarrow> 'r option" where
  "fetch_optional p t = List.find p t"

definition count_rows :: "('r \<Rightarrow> bool) \<Rightarrow> 'r list \<Rightarrow> nat" where
  "count_rows p t = length (filter p t)"

definition exists_row :: "('r \<Rightarrow> bool) \<Rightarrow> 'r list \<Rightarrow> bool" where
  "exists_row p t \<longleftrightarrow> list_ex p t"

definition update_rows :: "('r \<Rightarrow> bool) \<Rightarrow> ('r \<Rightarrow> 'r) \<Rightarrow> 'r list \<Rightarrow> 'r list" where
  "update_rows p f t = map (\<lambda>r. if p r then f r else r) t"

definition delete_rows :: "('r \<Rightarrow> bool) \<Rightarrow> 'r list \<Rightarrow> 'r list" where
  "delete_rows p t = filter (\<lambda>r. \<not> p r) t"

definition select_limit :: "('r \<Rightarrow> bool) \<Rightarrow> ('r \<Rightarrow> 'o::linorder) \<Rightarrow> nat \<Rightarrow> 'r list \<Rightarrow> 'r list" where
  "select_limit p ord n t = take n (sort_key ord (filter p t))"

text \<open>Rows agree on no key value (a primary key or a \<^verbatim>\<open>UNIQUE\<close> constraint).\<close>

definition unique_key :: "('r \<Rightarrow> 'k) \<Rightarrow> 'r list \<Rightarrow> bool" where
  "unique_key key t \<longleftrightarrow> distinct (map key t)"

text \<open>A row with its key already present violates the constraint.\<close>

definition key_free :: "('r \<Rightarrow> 'k) \<Rightarrow> 'r \<Rightarrow> 'r list \<Rightarrow> bool" where
  "key_free key r t \<longleftrightarrow> \<not> list_ex (\<lambda>x. key x = key r) t"

section \<open>Membership\<close>

lemma fetch_optional_Some: "fetch_optional p t = Some r \<Longrightarrow> r \<in> set t \<and> p r"
  by (auto simp: fetch_optional_def find_Some_iff)

lemma fetch_optional_None: "fetch_optional p t = None \<longleftrightarrow> (\<forall>r \<in> set t. \<not> p r)"
  by (auto simp: fetch_optional_def find_None_iff)

lemma exists_row_iff: "exists_row p t \<longleftrightarrow> (\<exists>r \<in> set t. p r)"
  by (simp add: exists_row_def list_ex_iff)

lemma set_update_rows: "set (update_rows p f t) = (\<lambda>r. if p r then f r else r) ` set t"
  by (simp add: update_rows_def)

lemma in_update_rows:
  "r \<in> set (update_rows p f t) \<longleftrightarrow> (\<exists>x \<in> set t. r = (if p x then f x else x))"
  by (auto simp: update_rows_def)

lemma ball_update_rows:
  "(\<forall>r \<in> set (update_rows p f t). Q r) \<longleftrightarrow> (\<forall>r \<in> set t. if p r then Q (f r) else Q r)"
  by (auto simp: update_rows_def)

lemma set_delete_rows [simp]: "set (delete_rows p t) = {r \<in> set t. \<not> p r}"
  by (auto simp: delete_rows_def)

lemma in_select_limit: "r \<in> set (select_limit p ord n t) \<Longrightarrow> r \<in> set t \<and> p r"
  by (auto simp: select_limit_def dest: in_set_takeD)

lemma length_select_limit: "length (select_limit p ord n t) \<le> n"
  by (simp add: select_limit_def)

lemma update_rows_none: "(\<And>r. r \<in> set t \<Longrightarrow> \<not> p r) \<Longrightarrow> update_rows p f t = t"
  by (induction t) (auto simp: update_rows_def)

lemma delete_rows_none: "(\<And>r. r \<in> set t \<Longrightarrow> \<not> p r) \<Longrightarrow> delete_rows p t = t"
  by (induction t) (auto simp: delete_rows_def)

lemma length_update_rows [simp]: "length (update_rows p f t) = length t"
  by (simp add: update_rows_def)

lemma key_free_iff: "key_free key r t \<longleftrightarrow> key r \<notin> key ` set t"
  unfolding key_free_def list_ex_iff image_iff by metis

section \<open>Uniqueness\<close>

lemma unique_key_Nil [simp]: "unique_key key []"
  by (simp add: unique_key_def)

lemma unique_key_snoc [simp]: "unique_key key (t @ [r]) \<longleftrightarrow> unique_key key t \<and> key_free key r t"
  by (auto simp: unique_key_def key_free_iff)

lemma unique_key_delete [simp, intro]: "unique_key key t \<Longrightarrow> unique_key key (delete_rows p t)"
  by (induction t) (auto simp: unique_key_def delete_rows_def)

lemma map_update_rows:
  "(\<And>r. r \<in> set t \<Longrightarrow> p r \<Longrightarrow> key (f r) = key r) \<Longrightarrow> map key (update_rows p f t) = map key t"
  by (induction t) (auto simp: update_rows_def)

lemma unique_key_update:
  assumes "\<And>r. r \<in> set t \<Longrightarrow> p r \<Longrightarrow> key (f r) = key r"
  shows "unique_key key (update_rows p f t) \<longleftrightarrow> unique_key key t"
  using map_update_rows [of t p key f] assms by (simp add: unique_key_def)

lemma unique_keyD:
  assumes "unique_key key t" and "r \<in> set t" and "r' \<in> set t" and "key r = key r'"
  shows "r = r'"
proof -
  from assms(1) have "inj_on key (set t)"
    by (simp add: unique_key_def distinct_map)
  with assms(2-4) show ?thesis by (auto dest: inj_onD)
qed

lemma fetch_by_key:
  assumes "unique_key key t"
  shows "fetch_optional (\<lambda>r. key r = k) t = Some r \<longleftrightarrow> r \<in> set t \<and> key r = k"
proof
  assume "r \<in> set t \<and> key r = k"
  then obtain x where "fetch_optional (\<lambda>r. key r = k) t = Some x"
    using fetch_optional_None [of "\<lambda>r. key r = k" t] by (cases "fetch_optional (\<lambda>r. key r = k) t") auto
  moreover from fetch_optional_Some [OF this] have "x \<in> set t" "key x = k" by auto
  with \<open>r \<in> set t \<and> key r = k\<close> have "x = r"
    by (intro unique_keyD [OF assms]) auto
  ultimately show "fetch_optional (\<lambda>r. key r = k) t = Some r" by simp
qed (auto dest: fetch_optional_Some)

text \<open>Counting the rows an update or a delete leaves.\<close>

lemma count_rows_delete: "count_rows q (delete_rows p t) = count_rows (\<lambda>r. q r \<and> \<not> p r) t"
  by (simp add: count_rows_def delete_rows_def conj_commute)

lemma count_rows_snoc: "count_rows p (t @ [r]) = count_rows p t + (if p r then 1 else 0)"
  by (simp add: count_rows_def)

lemma count_rows_update:
  assumes "\<And>r. r \<in> set t \<Longrightarrow> p r \<Longrightarrow> q (f r) = q r"
  shows "count_rows q (update_rows p f t) = count_rows q t"
  using assms by (induction t) (auto simp: count_rows_def update_rows_def)

lemma count_rows_mono:
  assumes "\<And>r. r \<in> set t \<Longrightarrow> p r \<Longrightarrow> q r"
  shows "count_rows p t \<le> count_rows q t"
  using assms by (induction t) (auto simp: count_rows_def)

lemma count_rows_cong:
  assumes "\<And>r. r \<in> set t \<Longrightarrow> p r \<longleftrightarrow> q r"
  shows "count_rows p t = count_rows q t"
  using assms by (simp add: count_rows_def cong: filter_cong)

lemma count_rows_0: "count_rows p t = 0 \<longleftrightarrow> (\<forall>r \<in> set t. \<not> p r)"
  by (auto simp: count_rows_def filter_empty_conv)

section \<open>Runs of operations\<close>

text \<open>A run of a step relation, as the list of its events.\<close>

inductive runs :: "('s \<Rightarrow> 'e \<Rightarrow> 's \<Rightarrow> bool) \<Rightarrow> 's \<Rightarrow> 'e list \<Rightarrow> 's \<Rightarrow> bool"
  for step :: "'s \<Rightarrow> 'e \<Rightarrow> 's \<Rightarrow> bool" where
  runs_nil: "runs step s [] s"
| runs_cons: "step s e t \<Longrightarrow> runs step t es u \<Longrightarrow> runs step s (e # es) u"

inductive_cases runs_nilE [elim!]: "runs step s [] u"
inductive_cases runs_consE [elim!]: "runs step s (e # es) u"

lemma runs_append: "runs step s es t \<Longrightarrow> runs step t fs u \<Longrightarrow> runs step s (es @ fs) u"
  by (induction rule: runs.induct) (auto intro: runs.intros)

text \<open>
  The interface between a component and the properties of its runs: an invariant every
  step keeps, and a relation between the states before and after that every step
  satisfies and that composes.
\<close>

locale stepwise =
  fixes step :: "'s \<Rightarrow> 'e \<Rightarrow> 's \<Rightarrow> bool"
    and invariant :: "'s \<Rightarrow> bool"
    and evolves :: "'s \<Rightarrow> 's \<Rightarrow> bool"
  assumes step_invariant: "step s e t \<Longrightarrow> invariant s \<Longrightarrow> invariant t"
    and step_evolves: "step s e t \<Longrightarrow> invariant s \<Longrightarrow> evolves s t"
    and evolves_refl: "evolves s s"
    and evolves_trans: "evolves s t \<Longrightarrow> evolves t u \<Longrightarrow> evolves s u"
begin

lemma runs_invariant: "runs step s es t \<Longrightarrow> invariant s \<Longrightarrow> invariant t"
  by (induction rule: runs.induct) (auto intro: step_invariant)

lemma runs_evolves: "runs step s es t \<Longrightarrow> invariant s \<Longrightarrow> evolves s t"
  by (induction rule: runs.induct)
    (auto intro: evolves_refl evolves_trans step_evolves step_invariant)

end

end
