(* ===== verification/Store_Schema.thy ===== *)
theory Store_Schema
  imports Protocol Restore Sql_Table
begin

text \<open>
  The state of the store (\<^verbatim>\<open>crates/bloom-relay-store/src/lib.rs\<close> and the schema of
  \<^verbatim>\<open>migrations/\<close>): one record per table, the database, the store's configuration, the
  restore fence, the rows every component inserts (operations, outbox jobs, audit records)
  and the way an operation commits and acknowledges.

  A transaction is a function from the database to an error (the transaction rolls back)
  or a result and the new database. Row locks and the advisory locks serialise the
  transactions that touch one installation, so each is one atomic step. Timestamps are
  those of \<^verbatim>\<open>now()\<close>, the start of the transaction. A statement that violates a
  constraint fails with \<open>SUnavailable\<close>, as a \<^verbatim>\<open>sqlx::Error\<close> does; a lost connection
  (which rolls back in the same way) is not modelled. Sequence values are not consumed by
  a rolled-back transaction here; only their order is used.
\<close>

section \<open>Rust's question mark\<close>

fun and_then :: "'e + 'a \<Rightarrow> ('a \<Rightarrow> 'e + 'b) \<Rightarrow> 'e + 'b" where
  "and_then (Inl e) f = Inl e"
| "and_then (Inr a) f = f a"

definition ok_or :: "'e \<Rightarrow> 'a option \<Rightarrow> 'e + 'a" where
  "ok_or e x = (case x of None \<Rightarrow> Inl e | Some a \<Rightarrow> Inr a)"

lemma and_then_Inr: "and_then x f = Inr b \<longleftrightarrow> (\<exists>a. x = Inr a \<and> f a = Inr b)"
  by (cases x) auto

lemma and_then_Inl: "and_then x f = Inl e \<longleftrightarrow> x = Inl e \<or> (\<exists>a. x = Inr a \<and> f a = Inl e)"
  by (cases x) auto

lemma ok_or_Inr: "ok_or e x = Inr a \<longleftrightarrow> x = Some a"
  by (auto simp: ok_or_def split: option.splits)

lemma ok_or_Inl: "ok_or e x = Inl e' \<longleftrightarrow> x = None \<and> e' = e"
  by (auto simp: ok_or_def split: option.splits)

lemma ok_or_simps [simp]: "ok_or e None = Inl e" "ok_or e (Some a) = Inr a"
  by (simp_all add: ok_or_def)

lemmas txn_Inr = and_then_Inr ok_or_Inr

section \<open>Time\<close>

definition seconds :: "int \<Rightarrow> timestamp" where
  "seconds n = n * 1000000"

definition minutes :: "int \<Rightarrow> timestamp" where
  "minutes n = seconds (60 * n)"

definition hours :: "int \<Rightarrow> timestamp" where
  "hours n = minutes (60 * n)"

definition days :: "int \<Rightarrow> timestamp" where
  "days n = hours (24 * n)"

lemmas time_defs = seconds_def minutes_def hours_def days_def

text \<open>\<^verbatim>\<open>(extract(epoch FROM t)*1000)::bigint\<close>, which rounds to the nearest millisecond.\<close>

definition epoch_ms :: "timestamp \<Rightarrow> int" where
  "epoch_ms t = (t + 500) div 1000"

definition BIGINT_MAX :: int where
  "BIGINT_MAX = 2 ^ 63 - 1"

section \<open>Tables\<close>

record installation =
  in_id :: uuid
  in_hostname :: string
  in_admin_key :: bytes
  in_placement :: string
  in_generation :: int
  in_state :: allocation_state
  in_acme :: "string option"
  in_created_at :: timestamp
  in_retired_at :: "timestamp option"

record reservation =
  rv_hostname :: string
  rv_installation :: uuid

text \<open>The JSON results stored with an operation.\<close>

datatype op_result = AllocationResult allocation | ReceiptResult int int | EmptyResult

record operation =
  op_id :: uuid
  op_installation :: uuid
  op_kind :: string
  op_digest :: bytes
  op_result :: op_result
  op_created_at :: timestamp

record used_nonce =
  un_installation :: uuid
  un_nonce :: string
  un_expires_at :: timestamp

record bootstrap_challenge =
  bc_nonce :: string
  bc_source :: ip_addr
  bc_expires_at :: timestamp
  bc_created_at :: timestamp
  bc_consumed_at :: "timestamp option"

record credential =
  cr_installation :: uuid
  cr_scope :: string
  cr_generation :: int
  cr_token_hash :: bytes
  cr_expires_at :: timestamp
  cr_revoked_at :: "timestamp option"

record tunnel_lease =
  tl_installation :: uuid
  tl_generation :: int
  tl_gateway :: string
  tl_expires_at :: timestamp

record challenge_value =
  cv_installation :: uuid
  cv_txt :: string
  cv_expires_at :: timestamp

record challenge_state =
  cs_installation :: uuid
  cs_revision :: int
  cs_ready :: "int option"

record certificate =
  ce_installation :: uuid
  ce_fingerprint :: string
  ce_lineage :: string
  ce_not_before_ms :: int
  ce_not_after_ms :: int

datatype payload = EmptyPayload | HostnamePayload string | PlacementPayload string | NamePayload string string

record outbox_job =
  ob_id :: nat
  ob_installation :: uuid
  ob_kind :: string
  ob_payload :: payload
  ob_attempts :: nat
  ob_next_attempt_at :: timestamp
  ob_completed_at :: "timestamp option"

record audit_record =
  au_installation :: uuid
  au_operation :: "uuid option"
  au_event :: string

record ct_checkpoint =
  cp_source :: string
  cp_position :: int
  cp_observed_at :: timestamp

record ct_observation =
  co_source :: string
  co_position :: int
  co_installation :: "uuid option"
  co_hostname :: string
  co_fingerprint :: string
  co_expected :: bool

record ct_alert =
  ca_id :: nat
  ca_source :: string
  ca_position :: int
  ca_installation :: "uuid option"
  ca_hostname :: string
  ca_fingerprint :: string
  ca_delivered_at :: "timestamp option"

record ct_health_alert =
  ch_id :: nat
  ch_source :: string
  ch_window :: int
  ch_lag_seconds :: int
  ch_delivered_at :: "timestamp option"

record db =
  installations :: "installation list"
  reservations :: "reservation list"
  operations :: "operation list"
  used_nonces :: "used_nonce list"
  bootstrap_challenges :: "bootstrap_challenge list"
  credentials :: "credential list"
  tunnel_leases :: "tunnel_lease list"
  challenge_values :: "challenge_value list"
  challenge_states :: "challenge_state list"
  certificates :: "certificate list"
  outbox :: "outbox_job list"
  audit :: "audit_record list"
  ct_checkpoints :: "ct_checkpoint list"
  ct_observations :: "ct_observation list"
  ct_alerts :: "ct_alert list"
  ct_health_alerts :: "ct_health_alert list"
  fence :: int
  next_job_id :: nat
  next_alert_id :: nat
  next_health_id :: nat

text \<open>The migrated, empty database: the fence starts at 1.\<close>

definition empty_db :: db where
  "empty_db = \<lparr>installations = [], reservations = [], operations = [], used_nonces = [],
     bootstrap_challenges = [], credentials = [], tunnel_leases = [], challenge_values = [],
     challenge_states = [], certificates = [], outbox = [], audit = [], ct_checkpoints = [],
     ct_observations = [], ct_alerts = [], ct_health_alerts = [], fence = 1, next_job_id = 1,
     next_alert_id = 1, next_health_id = 1\<rparr>"

type_synonym 'a txn = "db \<Rightarrow> store_error + 'a \<times> db"

section \<open>Shared statements\<close>

definition find_installation :: "db \<Rightarrow> uuid \<Rightarrow> installation option" where
  "find_installation d i = fetch_optional (\<lambda>r. in_id r = i) (installations d)"

definition find_operation :: "db \<Rightarrow> uuid \<Rightarrow> operation option" where
  "find_operation d i = fetch_optional (\<lambda>r. op_id r = i) (operations d)"

text \<open>Every audit record advances the restore fence (the deferred trigger).\<close>

definition insert_audit :: "uuid \<Rightarrow> uuid option \<Rightarrow> string \<Rightarrow> db \<Rightarrow> db" where
  "insert_audit i op event d =
     d\<lparr>audit := audit d @ [\<lparr>au_installation = i, au_operation = op, au_event = event\<rparr>],
       fence := fence d + 1\<rparr>"

definition insert_outbox :: "timestamp \<Rightarrow> uuid \<Rightarrow> string \<Rightarrow> payload \<Rightarrow> db \<Rightarrow> db" where
  "insert_outbox now i kind payload d =
     d\<lparr>outbox := outbox d @ [\<lparr>ob_id = next_job_id d, ob_installation = i, ob_kind = kind,
         ob_payload = payload, ob_attempts = 0, ob_next_attempt_at = now, ob_completed_at = None\<rparr>],
       next_job_id := Suc (next_job_id d)\<rparr>"

definition insert_operation :: "operation \<Rightarrow> db \<Rightarrow> store_error + db" where
  "insert_operation r d =
     (if key_free op_id r (operations d) then Inr (d\<lparr>operations := operations d @ [r]\<rparr>)
      else Inl SUnavailable)"

text \<open>
  \<^verbatim>\<open>UPDATE installations SET generation=generation+1, ... WHERE installation_id=$1 AND ...\<close>:
  the updated row, if one matched. A generation past the range of \<^verbatim>\<open>BIGINT\<close> is an error.
\<close>

definition advance_installation ::
  "uuid \<Rightarrow> (installation \<Rightarrow> bool) \<Rightarrow> (installation \<Rightarrow> installation) \<Rightarrow> installation option txn" where
  "advance_installation i cond f d =
     (case fetch_optional (\<lambda>r. in_id r = i \<and> cond r) (installations d) of
        None \<Rightarrow> Inr (None, d)
      | Some r \<Rightarrow>
          if in_generation r < BIGINT_MAX
          then Inr (Some ((f r)\<lparr>in_generation := in_generation r + 1\<rparr>),
                 d\<lparr>installations := update_rows (\<lambda>r. in_id r = i \<and> cond r)
                     (\<lambda>r. (f r)\<lparr>in_generation := in_generation r + 1\<rparr>) (installations d)\<rparr>)
          else Inl SUnavailable)"

definition delete_lease :: "uuid \<Rightarrow> db \<Rightarrow> db" where
  "delete_lease i d = d\<lparr>tunnel_leases := delete_rows (\<lambda>l. tl_installation l = i) (tunnel_leases d)\<rparr>"

fun result_u64 :: "op_result \<Rightarrow> (u64 \<times> u64) option" where
  "result_u64 (ReceiptResult g e) = (if 0 \<le> g \<and> 0 \<le> e then Some (as_u64 g, as_u64 e) else None)"
| "result_u64 _ = None"

section \<open>Configuration and scoped credential windows\<close>

text \<open>\<^verbatim>\<open>std::time::Duration\<close>, in nanoseconds; never negative.\<close>

type_synonym duration = int

definition from_secs :: "int \<Rightarrow> duration" where
  "from_secs n = n * 1000000000"

definition as_secs :: "duration \<Rightarrow> int" where
  "as_secs d = d div 1000000000"

definition subsec_nanos :: "duration \<Rightarrow> int" where
  "subsec_nanos d = d mod 1000000000"

record credential_windows =
  cw_validity :: duration
  cw_renewal_grace :: duration

definition MIN_VALIDITY :: duration where
  "MIN_VALIDITY = from_secs (12 * 60 * 60)"

definition MAX_VALIDITY :: duration where
  "MAX_VALIDITY = from_secs (24 * 60 * 60)"

definition MAX_RENEWAL_GRACE :: duration where
  "MAX_RENEWAL_GRACE = from_secs (90 * 24 * 60 * 60)"

definition windows_new :: "duration \<Rightarrow> duration \<Rightarrow> store_error + credential_windows" where
  "windows_new validity renewal_grace =
     (if \<not> (MIN_VALIDITY \<le> validity \<and> validity \<le> MAX_VALIDITY)
         \<or> renewal_grace > MAX_RENEWAL_GRACE
         \<or> subsec_nanos validity \<noteq> 0
         \<or> subsec_nanos renewal_grace \<noteq> 0
      then Inl SInvalidRequest
      else Inr \<lparr>cw_validity = validity, cw_renewal_grace = renewal_grace\<rparr>)"

definition windows_default :: credential_windows where
  "windows_default = \<lparr>cw_validity = MAX_VALIDITY, cw_renewal_grace = from_secs (30 * 24 * 60 * 60)\<rparr>"

record 'r store_cfg =
  sc_witness :: "'r remote_witness option option"
  sc_acme :: acme_environment
  sc_windows :: credential_windows

section \<open>Committing and acknowledging\<close>

text \<open>
  The world of a store: its database and its restore witness. \<open>faults\<close> are the answers of
  the file system during one acknowledgement, which runs between the commits of other
  processes (\<open>Restore\<close> treats a revision that moves meanwhile).
\<close>

record 'r world =
  w_db :: db
  w_witness :: "'r witness_state"

record faults =
  fl_lock :: "io_error + unit"
  fl_disk :: "nat \<Rightarrow> disk"

definition restore_revision :: "db \<Rightarrow> u64" where
  "restore_revision d = as_u64 (fence d)"

definition restore_pristine :: "db \<Rightarrow> bool" where
  "restore_pristine d \<longleftrightarrow> installations d = [] \<and> ct_checkpoints d = []"

definition ack_env :: "faults \<Rightarrow> db \<Rightarrow> witness_env" where
  "ack_env fl d = \<lparr>we_lock = fl_lock fl, we_revision = (\<lambda>_. Inr (restore_revision d)),
     we_pristine = (\<lambda>_. Inr (restore_pristine d)), we_disk = fl_disk fl\<rparr>"

definition acknowledge ::
  "'r store_cfg \<Rightarrow> faults \<Rightarrow> 'r world \<Rightarrow> (store_error + unit) \<times> 'r world" where
  "acknowledge cfg fl w =
     (case sc_witness cfg of
        None \<Rightarrow> (Inr (), w)
      | Some remote \<Rightarrow>
          (case verify_and_advance (ack_env fl (w_db w)) remote (w_witness w) of
             (Inl e, s) \<Rightarrow> (Inl (SWitness (witness_error_string e)), w\<lparr>w_witness := s\<rparr>)
           | (Inr _, s) \<Rightarrow> (Inr (), w\<lparr>w_witness := s\<rparr>)))"

text \<open>
  How the operations end: commit, acknowledge, then return. A transaction that fails leaves
  the world alone; a commit whose acknowledgement fails is an error with the change made.
\<close>

definition commit_ack ::
  "'r store_cfg \<Rightarrow> faults \<Rightarrow> 'a txn \<Rightarrow> 'r world \<Rightarrow> (store_error + 'a) \<times> 'r world" where
  "commit_ack cfg fl tx w =
     (case tx (w_db w) of
        Inl e \<Rightarrow> (Inl e, w)
      | Inr (a, d) \<Rightarrow>
          (case acknowledge cfg fl (w\<lparr>w_db := d\<rparr>) of
             (Inl e, w') \<Rightarrow> (Inl e, w')
           | (Inr _, w') \<Rightarrow> (Inr a, w')))"

section \<open>Facts\<close>

lemma acknowledge_db [simp]: "w_db (snd (acknowledge cfg fl w)) = w_db w"
  by (auto simp: acknowledge_def split: option.splits prod.splits sum.splits)

lemma commit_ack_db:
  "w_db (snd (commit_ack cfg fl tx w)) =
     (case tx (w_db w) of Inl _ \<Rightarrow> w_db w | Inr (_, d) \<Rightarrow> d)"
proof (cases "tx (w_db w)")
  case (Inr b)
  then obtain a d where tx: "tx (w_db w) = Inr (a, d)" by (cases b) auto
  obtain x w' where ack: "acknowledge cfg fl (w\<lparr>w_db := d\<rparr>) = (x, w')" by fastforce
  with acknowledge_db [of cfg fl "w\<lparr>w_db := d\<rparr>"] have "w_db w' = d" by simp
  with tx ack show ?thesis by (simp add: commit_ack_def split: sum.split)
qed (simp add: commit_ack_def)

lemma commit_ack_Inr:
  assumes "commit_ack cfg fl tx w = (Inr a, w')"
  shows "tx (w_db w) = Inr (a, w_db w')
    \<and> acknowledge cfg fl (w\<lparr>w_db := w_db w'\<rparr>) = (Inr (), w')"
proof -
  from assms obtain d where d: "tx (w_db w) = Inr (a, d)"
    and ack: "acknowledge cfg fl (w\<lparr>w_db := d\<rparr>) = (Inr (), w')"
    by (auto simp: commit_ack_def split: prod.splits sum.splits)
  from ack acknowledge_db [of cfg fl "w\<lparr>w_db := d\<rparr>"] have "w_db w' = d" by simp
  with d ack show ?thesis by simp
qed

lemma advance_installation_cases:
  assumes "advance_installation i cond f d = Inr (x, d')"
  obtains (none) "x = None" "d' = d" "\<forall>r \<in> set (installations d). \<not> (in_id r = i \<and> cond r)"
  | (some) r where "x = Some ((f r)\<lparr>in_generation := in_generation r + 1\<rparr>)"
      "r \<in> set (installations d)" "in_id r = i" "cond r" "in_generation r < BIGINT_MAX"
      "d' = d\<lparr>installations := update_rows (\<lambda>r. in_id r = i \<and> cond r)
         (\<lambda>r. (f r)\<lparr>in_generation := in_generation r + 1\<rparr>) (installations d)\<rparr>"
proof (cases "fetch_optional (\<lambda>r. in_id r = i \<and> cond r) (installations d)")
  case None
  with assms none show thesis
    by (auto simp: advance_installation_def fetch_optional_None)
next
  case (Some r)
  with assms some fetch_optional_Some [OF Some] show thesis
    by (auto simp: advance_installation_def split: if_splits)
qed

end
