(* ===== verification/Store_Credentials.thy ===== *)
theory Store_Credentials
  imports Store_Bootstrap
begin

text \<open>
  Scoped bearer credentials (\<^verbatim>\<open>crates/bloom-relay-store/src/lib.rs\<close>): authentication
  of a bearer for the tunnel or DNS-challenge scope, issue by the administrator and renewal
  by the holder. The lemmas describe exactly which bearer authenticates, what a successful
  issue or renewal changes, and how an operation id replays.
\<close>

section \<open>Operations\<close>

definition bearer_scope :: "string \<Rightarrow> bool" where
  "bearer_scope s \<longleftrightarrow> s = ''tunnel'' \<or> s = ''dns_challenge''"

definition bearer_length_ok :: "string \<Rightarrow> bool" where
  "bearer_length_ok b \<longleftrightarrow> \<not> (length b < 43 \<or> length b > 128)"

text \<open>The credential of a bearer that is neither revoked nor expired.\<close>

definition live_bearer :: "prims \<Rightarrow> timestamp \<Rightarrow> uuid \<Rightarrow> string \<Rightarrow> string \<Rightarrow> credential \<Rightarrow> bool" where
  "live_bearer P now i scope bearer c \<longleftrightarrow>
     cr_installation c = i \<and> cr_scope c = scope
     \<and> cr_token_hash c = p_sha256 P (as_bytes bearer)
     \<and> cr_revoked_at c = None \<and> cr_expires_at c > now"

text \<open>\<^verbatim>\<open>JOIN installations\<close>: the rows whose installation satisfies the condition.\<close>

definition joined :: "db \<Rightarrow> (installation \<Rightarrow> bool) \<Rightarrow> uuid \<Rightarrow> bool" where
  "joined d cond i \<longleftrightarrow> exists_row (\<lambda>r. in_id r = i \<and> cond r) (installations d)"

text \<open>\<^verbatim>\<open>ORDER BY c.generation DESC LIMIT 1\<close>.\<close>

definition newest :: "(credential \<Rightarrow> bool) \<Rightarrow> db \<Rightarrow> credential option" where
  "newest p d = (case select_limit p (\<lambda>c. - cr_generation c) 1 (credentials d) of [] \<Rightarrow> None | c # _ \<Rightarrow> Some c)"

definition authenticate_bearer ::
  "prims \<Rightarrow> timestamp \<Rightarrow> db \<Rightarrow> uuid \<Rightarrow> string \<Rightarrow> string \<Rightarrow> u64 option" where
  "authenticate_bearer P now d i scope bearer =
     (if \<not> bearer_length_ok bearer \<or> \<not> bearer_scope scope then None
      else map_option (\<lambda>c. as_u64 (cr_generation c))
        (newest (\<lambda>c. live_bearer P now i scope bearer c
           \<and> joined d (\<lambda>r. in_state r = DnsReady) (cr_installation c)) d))"

definition authenticate_bearer_with_state ::
  "prims \<Rightarrow> timestamp \<Rightarrow> db \<Rightarrow> uuid \<Rightarrow> string \<Rightarrow> string \<Rightarrow> (u64 \<times> allocation_state) option" where
  "authenticate_bearer_with_state P now d i scope bearer =
     (if \<not> bearer_length_ok bearer \<or> \<not> bearer_scope scope then None
      else Option.bind (newest (\<lambda>c. live_bearer P now i scope bearer c
             \<and> joined d (\<lambda>_. True) (cr_installation c)) d)
        (\<lambda>c. map_option (\<lambda>r. (as_u64 (cr_generation c), in_state r)) (find_installation d (cr_installation c))))"

definition hostname :: "db \<Rightarrow> uuid \<Rightarrow> string option" where
  "hostname d i =
     map_option in_hostname (fetch_optional (\<lambda>r. in_id r = i \<and> in_state r = DnsReady) (installations d))"

definition issue_digest :: "prims \<Rightarrow> string \<Rightarrow> int \<Rightarrow> bytes \<Rightarrow> bytes" where
  "issue_digest P scope validity token_hash =
     p_sha256 P (as_bytes ''bloom-relay/issue-bearer/v1'' @ [0] @ as_bytes scope
       @ be_bytes 4 (word_of_int validity :: u32) @ token_hash)"

definition renew_digest :: "prims \<Rightarrow> string \<Rightarrow> u64 \<Rightarrow> bytes \<Rightarrow> bytes \<Rightarrow> bytes" where
  "renew_digest P scope generation old_hash token_hash =
     p_sha256 P (as_bytes ''bloom-relay/renew-bearer/v1'' @ [0] @ as_bytes scope
       @ be_bytes 8 generation @ old_hash @ token_hash)"

text \<open>The receipt stored with an operation; a malformed one is refused.\<close>

definition stored_receipt :: "operation \<Rightarrow> store_error + (u64 \<times> u64)" where
  "stored_receipt r = ok_or SInvalidRequest (result_u64 (op_result r))"

definition revoke :: "timestamp \<Rightarrow> (credential \<Rightarrow> bool) \<Rightarrow> db \<Rightarrow> db" where
  "revoke now p d =
     d\<lparr>credentials := update_rows p (cr_revoked_at_update (\<lambda>_. Some now)) (credentials d)\<rparr>"

abbreviation credential_key :: "credential \<Rightarrow> uuid \<times> string \<times> int" where
  "credential_key c \<equiv> (cr_installation c, cr_scope c, cr_generation c)"

definition insert_credential :: "credential \<Rightarrow> db \<Rightarrow> store_error + db" where
  "insert_credential c d =
     (if key_free credential_key c (credentials d) then Inr (d\<lparr>credentials := credentials d @ [c]\<rparr>)
      else Inl SUnavailable)"

definition new_credential :: "timestamp \<Rightarrow> uuid \<Rightarrow> string \<Rightarrow> int \<Rightarrow> bytes \<Rightarrow> int \<Rightarrow> credential" where
  "new_credential now i scope generation token_hash lifetime =
     \<lparr>cr_installation = i, cr_scope = scope, cr_generation = generation,
      cr_token_hash = token_hash, cr_expires_at = now + seconds lifetime, cr_revoked_at = None\<rparr>"

text \<open>
  The end of \<^verbatim>\<open>issue_bearer\<close> and \<^verbatim>\<open>renew_bearer\<close>: the new credential, the lease of the old
  bearer, the operation with its receipt, and the audit record.
\<close>

definition place_credential ::
  "timestamp \<Rightarrow> uuid \<Rightarrow> uuid \<Rightarrow> string \<Rightarrow> string \<Rightarrow> bytes \<Rightarrow> bytes \<Rightarrow> int \<Rightarrow> int
     \<Rightarrow> uuid option \<Rightarrow> string \<Rightarrow> (u64 \<times> u64) txn" where
  "place_credential now i op scope kind digest token_hash generation lifetime audit_op event d =
     (let c = new_credential now i scope generation token_hash lifetime;
          expires_at_ms = epoch_ms (cr_expires_at c)
      in and_then (insert_credential c d) (\<lambda>d.
         let d = (if scope = ''tunnel'' then delete_lease i d else d)
         in and_then (insert_operation \<lparr>op_id = op, op_installation = i, op_kind = kind @ '':'' @ scope,
              op_digest = digest, op_result = ReceiptResult generation expires_at_ms,
              op_created_at = now\<rparr> d) (\<lambda>d.
            Inr ((as_u64 generation, as_u64 expires_at_ms), insert_audit i audit_op event d))))"

definition issue_bearer_tx ::
  "prims \<Rightarrow> credential_windows \<Rightarrow> timestamp \<Rightarrow> uuid \<Rightarrow> uuid \<Rightarrow> string \<Rightarrow> bytes \<Rightarrow> int
     \<Rightarrow> (u64 \<times> u64) txn" where
  "issue_bearer_tx P cw now i op scope token_hash validity d =
     (if \<not> bearer_scope scope \<or> \<not> (60 \<le> validity \<and> validity \<le> 86400) then Inl SInvalidRequest
      else let digest = issue_digest P scope validity token_hash in
      case find_operation d op of
        Some r \<Rightarrow>
          if op_installation r \<noteq> i \<or> op_kind r \<noteq> ''issue:'' @ scope \<or> op_digest r \<noteq> digest
          then Inl SConflict
          else and_then (stored_receipt r) (\<lambda>receipt. Inr (receipt, d))
      | None \<Rightarrow>
          and_then (advance_installation i (\<lambda>r. in_state r \<noteq> Retired) id d) (\<lambda>(row, d).
          and_then (ok_or SConflict row) (\<lambda>row.
            place_credential now i op scope ''issue'' digest token_hash (in_generation row)
              (min validity (as_secs (cw_validity cw))) None ''credential_rotated''
              (revoke now (\<lambda>c. cr_installation c = i \<and> cr_scope c = scope \<and> cr_revoked_at c = None) d))))"

definition issue_bearer ::
  "prims \<Rightarrow> 'r store_cfg \<Rightarrow> faults \<Rightarrow> timestamp \<Rightarrow> uuid \<Rightarrow> uuid \<Rightarrow> string \<Rightarrow> bytes \<Rightarrow> int \<Rightarrow> 'r world
     \<Rightarrow> (store_error + u64 \<times> u64) \<times> 'r world" where
  "issue_bearer P cfg fl now i op scope token_hash validity w =
     commit_ack cfg fl (issue_bearer_tx P (sc_windows cfg) now i op scope token_hash validity) w"

text \<open>The credential that may renew: unrevoked, within the grace, and newest for its scope.\<close>

definition renewable ::
  "credential_windows \<Rightarrow> timestamp \<Rightarrow> db \<Rightarrow> uuid \<Rightarrow> string \<Rightarrow> int \<Rightarrow> credential \<Rightarrow> bool" where
  "renewable cw now d i scope generation c \<longleftrightarrow>
     cr_installation c = i \<and> cr_scope c = scope \<and> cr_generation c = generation
     \<and> cr_revoked_at c = None
     \<and> cr_expires_at c > now - seconds (as_secs (cw_renewal_grace cw))
     \<and> joined d (\<lambda>r. in_state r = DnsReady) (cr_installation c)
     \<and> \<not> exists_row (\<lambda>n. cr_installation n = cr_installation c \<and> cr_scope n = cr_scope c
            \<and> cr_generation n > cr_generation c) (credentials d)"

definition renew_bearer_tx ::
  "prims \<Rightarrow> credential_windows \<Rightarrow> timestamp \<Rightarrow> uuid \<Rightarrow> uuid \<Rightarrow> string \<Rightarrow> u64 \<Rightarrow> string \<Rightarrow> bytes
     \<Rightarrow> (u64 \<times> u64) txn" where
  "renew_bearer_tx P cw now i op scope generation current_token new_token_hash d =
     (if \<not> bearer_scope scope \<or> \<not> bearer_length_ok current_token then Inl SInvalidRequest
      else let old_hash = p_sha256 P (as_bytes current_token);
               digest = renew_digest P scope generation old_hash new_token_hash in
      case find_operation d op of
        Some r \<Rightarrow>
          if op_installation r \<noteq> i \<or> op_kind r \<noteq> ''renew:'' @ scope \<or> op_digest r \<noteq> digest
             \<or> \<not> op_created_at r > now - minutes 5
          then Inl SConflict
          else and_then (stored_receipt r) (\<lambda>receipt. Inr (receipt, d))
      | None \<Rightarrow>
          and_then (ok_or SUnauthorized (fetch_optional (renewable cw now d i scope (as_i64 generation))
                      (credentials d))) (\<lambda>c.
          if cr_token_hash c \<noteq> old_hash then Inl SUnauthorized
          else and_then (advance_installation i (\<lambda>_. True) id d) (\<lambda>(row, d).
          and_then (ok_or SUnavailable row) (\<lambda>row.
            place_credential now i op scope ''renew'' digest new_token_hash (in_generation row)
              (as_secs (cw_validity cw)) (Some op)
              (if cr_expires_at c \<le> now then ''credential_renewed_after_expiry'' else ''credential_renewed'')
              (revoke now (\<lambda>c. cr_installation c = i \<and> cr_scope c = scope
                 \<and> cr_generation c = as_i64 generation) d)))))"

definition renew_bearer ::
  "prims \<Rightarrow> 'r store_cfg \<Rightarrow> faults \<Rightarrow> timestamp \<Rightarrow> uuid \<Rightarrow> uuid \<Rightarrow> string \<Rightarrow> u64 \<Rightarrow> string \<Rightarrow> bytes
     \<Rightarrow> 'r world \<Rightarrow> (store_error + u64 \<times> u64) \<times> 'r world" where
  "renew_bearer P cfg fl now i op scope generation current_token new_token_hash w =
     commit_ack cfg fl (renew_bearer_tx P (sc_windows cfg) now i op scope generation current_token
       new_token_hash) w"

section \<open>What the transactions change\<close>

lemma insert_operation_Inr:
  "insert_operation r d = Inr d' \<longleftrightarrow>
     key_free op_id r (operations d) \<and> d' = d\<lparr>operations := operations d @ [r]\<rparr>"
  by (auto simp: insert_operation_def)

lemma insert_credential_Inr:
  "insert_credential c d = Inr d' \<longleftrightarrow>
     key_free credential_key c (credentials d) \<and> d' = d\<lparr>credentials := credentials d @ [c]\<rparr>"
  by (auto simp: insert_credential_def)

text \<open>The operation row of a placed credential.\<close>

definition receipt_operation ::
  "timestamp \<Rightarrow> uuid \<Rightarrow> uuid \<Rightarrow> string \<Rightarrow> bytes \<Rightarrow> credential \<Rightarrow> operation" where
  "receipt_operation now i op kind digest c =
     \<lparr>op_id = op, op_installation = i, op_kind = kind @ '':'' @ cr_scope c, op_digest = digest,
      op_result = ReceiptResult (cr_generation c) (epoch_ms (cr_expires_at c)), op_created_at = now\<rparr>"

lemma place_credential_Inr:
  assumes "place_credential now i op scope kind digest th g life aop event d = Inr (x, d')"
  defines "c \<equiv> new_credential now i scope g th life"
  shows "key_free credential_key c (credentials d)"
    and "key_free op_id (receipt_operation now i op kind digest c) (operations d)"
    and "x = (as_u64 g, as_u64 (epoch_ms (cr_expires_at c)))"
    and "d' = d\<lparr>credentials := credentials d @ [c],
           tunnel_leases := (if scope = ''tunnel''
              then delete_rows (\<lambda>l. tl_installation l = i) (tunnel_leases d) else tunnel_leases d),
           operations := operations d @ [receipt_operation now i op kind digest c],
           audit := audit d @ [\<lparr>au_installation = i, au_operation = aop, au_event = event\<rparr>],
           fence := fence d + 1\<rparr>"
  using assms(1) unfolding c_def
  by (auto simp: place_credential_def Let_def txn_Inr insert_operation_Inr insert_credential_Inr
      receipt_operation_def new_credential_def delete_lease_def insert_audit_def key_free_def
      split: if_splits)

lemma issue_bearer_tx_Inr:
  assumes "issue_bearer_tx P cw now i op scope th validity d = Inr (x, d')"
  obtains (replay) r where "bearer_scope scope" "find_operation d op = Some r" "op_installation r = i"
      "op_kind r = ''issue:'' @ scope" "op_digest r = issue_digest P scope validity th"
      "stored_receipt r = Inr x" "d' = d"
  | (fresh) r d1 where "bearer_scope scope" "find_operation d op = None"
      "r \<in> set (installations d)" "in_id r = i" "in_state r \<noteq> Retired" "in_generation r < BIGINT_MAX"
      "d1 = revoke now (\<lambda>c. cr_installation c = i \<and> cr_scope c = scope \<and> cr_revoked_at c = None)
         (d\<lparr>installations := update_rows (\<lambda>r. in_id r = i \<and> in_state r \<noteq> Retired)
            (\<lambda>r. r\<lparr>in_generation := in_generation r + 1\<rparr>) (installations d)\<rparr>)"
      "place_credential now i op scope ''issue'' (issue_digest P scope validity th) th (in_generation r + 1)
         (min validity (as_secs (cw_validity cw))) None ''credential_rotated'' d1 = Inr (x, d')"
  using assms
  by (auto simp: issue_bearer_tx_def Let_def txn_Inr split: if_splits option.splits
      elim!: advance_installation_cases)

lemma renew_bearer_tx_Inr:
  assumes "renew_bearer_tx P cw now i op scope generation token th d = Inr (x, d')"
  obtains (replay) r where "bearer_scope scope" "find_operation d op = Some r" "op_installation r = i"
      "op_kind r = ''renew:'' @ scope"
      "op_digest r = renew_digest P scope generation (p_sha256 P (as_bytes token)) th"
      "op_created_at r > now - minutes 5" "stored_receipt r = Inr x" "d' = d"
  | (fresh) r c d1 where "bearer_scope scope" "find_operation d op = None"
      "r \<in> set (installations d)" "in_id r = i" "in_generation r < BIGINT_MAX"
      "c \<in> set (credentials d)" "renewable cw now d i scope (as_i64 generation) c"
      "cr_token_hash c = p_sha256 P (as_bytes token)"
      "d1 = revoke now (\<lambda>c. cr_installation c = i \<and> cr_scope c = scope
           \<and> cr_generation c = as_i64 generation)
         (d\<lparr>installations := update_rows (\<lambda>r. in_id r = i)
            (\<lambda>r. r\<lparr>in_generation := in_generation r + 1\<rparr>) (installations d)\<rparr>)"
      "place_credential now i op scope ''renew''
         (renew_digest P scope generation (p_sha256 P (as_bytes token)) th) th (in_generation r + 1)
         (as_secs (cw_validity cw)) (Some op)
         (if cr_expires_at c \<le> now then ''credential_renewed_after_expiry'' else ''credential_renewed'')
         d1 = Inr (x, d')"
  using assms
  by (auto simp: renew_bearer_tx_def Let_def txn_Inr split: if_splits option.splits
      dest!: fetch_optional_Some elim!: advance_installation_cases)

end
