(* ===== verification/Store_Installations.thy ===== *)
theory Store_Installations
  imports Store_Credentials
begin

text \<open>
  The life of an installation (\<^verbatim>\<open>crates/bloom-relay-store/src/lib.rs\<close>): allocation of a
  permanent hostname, binding of the ACME account, the move to \<open>DnsReady\<close>, relocation to
  another placement, retirement, and the sweep that retires allocations whose DNS never
  became ready.
\<close>

section \<open>Reading\<close>

definition allocation_from_row :: "installation \<Rightarrow> allocation" where
  "allocation_from_row r =
     \<lparr>al_version = WIRE_VERSION, al_installation_id = in_id r, al_hostname = in_hostname r,
      al_placement = in_placement r, al_state = in_state r\<rparr>"

definition allocation_status :: "db \<Rightarrow> uuid \<Rightarrow> allocation option" where
  "allocation_status d i = map_option allocation_from_row (find_installation d i)"

definition dns_identity :: "db \<Rightarrow> uuid \<Rightarrow> (string \<times> string \<times> string) option" where
  "dns_identity d i =
     map_option (\<lambda>r. (in_hostname r, the (in_acme r), in_placement r))
       (fetch_optional (\<lambda>r. in_id r = i \<and> in_state r \<noteq> Retired \<and> in_acme r \<noteq> None) (installations d))"

definition retired_hostname :: "db \<Rightarrow> uuid \<Rightarrow> string option" where
  "retired_hostname d i =
     map_option in_hostname (fetch_optional (\<lambda>r. in_id r = i \<and> in_state r = Retired) (installations d))"

section \<open>Allocation\<close>

definition placement_ok :: "string \<Rightarrow> bool" where
  "placement_ok p \<longleftrightarrow>
     \<not> (p = [] \<or> length p > 64 \<or> \<not> list_all (\<lambda>b. is_ascii_alphanumeric b \<or> b = CHR ''-'') p)"

text \<open>\<^verbatim>\<open>BASE32_NOPAD\<close> belongs to \<^verbatim>\<open>data_encoding\<close>: \<open>b32\<close> is its encoder.\<close>

definition to_ascii_lowercase :: "string \<Rightarrow> string" where
  "to_ascii_lowercase s = map (\<lambda>c. if is_ascii_uppercase c then char_of (byte_of c + 32) else c) s"

definition random_hostname :: "(bytes \<Rightarrow> string) \<Rightarrow> bytes \<Rightarrow> string" where
  "random_hostname b32 random = to_ascii_lowercase (b32 random) @ ''.relay.bloom.directory''"

text \<open>
  \<open>i\<close> is the fresh \<^verbatim>\<open>Uuid::new_v4()\<close> and \<open>random\<close> the sixteen bytes of \<^verbatim>\<open>OsRng\<close>. A replay
  is looked up by the operation id and answered from the installation's row.
\<close>

definition insert_installation :: "installation \<Rightarrow> db \<Rightarrow> store_error + db" where
  "insert_installation r d =
     (if key_free in_id r (installations d) \<and> key_free in_hostname r (installations d)
      then Inr (d\<lparr>installations := installations d @ [r]\<rparr>) else Inl SUnavailable)"

definition insert_reservation :: "reservation \<Rightarrow> db \<Rightarrow> store_error + db" where
  "insert_reservation r d =
     (if key_free rv_hostname r (reservations d)
      then Inr (d\<lparr>reservations := reservations d @ [r]\<rparr>) else Inl SUnavailable)"

definition operation_installation :: "db \<Rightarrow> uuid \<Rightarrow> installation option" where
  "operation_installation d op =
     Option.bind (find_operation d op) (\<lambda>r. find_installation d (op_installation r))"

definition allocate_tx ::
  "(bytes \<Rightarrow> string) \<Rightarrow> timestamp \<Rightarrow> uuid \<Rightarrow> bytes \<Rightarrow> uuid \<Rightarrow> bytes \<Rightarrow> string \<Rightarrow> allocation txn" where
  "allocate_tx b32 now i random op admin_key placement d =
     (if \<not> placement_ok placement then Inl SInvalidRequest
      else case operation_installation d op of
        Some r \<Rightarrow>
          if in_admin_key r \<noteq> admin_key \<or> in_placement r \<noteq> placement then Inl SConflict
          else Inr (allocation_from_row r, d)
      | None \<Rightarrow>
          let host = random_hostname b32 random;
              r = \<lparr>in_id = i, in_hostname = host, in_admin_key = admin_key, in_placement = placement,
                   in_generation = 1, in_state = PendingDns, in_acme = None, in_created_at = now,
                   in_retired_at = None\<rparr>;
              a = allocation_from_row r
          in and_then (insert_installation r d) (\<lambda>d.
             and_then (insert_reservation \<lparr>rv_hostname = host, rv_installation = i\<rparr> d) (\<lambda>d.
             and_then (insert_operation \<lparr>op_id = op, op_installation = i, op_kind = ''allocate'',
                 op_digest = replicate 32 0, op_result = AllocationResult a, op_created_at = now\<rparr> d) (\<lambda>d.
             Inr (a, insert_audit i (Some op) ''allocated''
               (insert_outbox now i ''publish_name'' (NamePayload host placement) d))))))"

definition allocate ::
  "(bytes \<Rightarrow> string) \<Rightarrow> 'r store_cfg \<Rightarrow> faults \<Rightarrow> timestamp \<Rightarrow> uuid \<Rightarrow> bytes \<Rightarrow> uuid \<Rightarrow> bytes \<Rightarrow> string
     \<Rightarrow> 'r world \<Rightarrow> (store_error + allocation) \<times> 'r world" where
  "allocate b32 cfg fl now i random op admin_key placement w =
     commit_ack cfg fl (allocate_tx b32 now i random op admin_key placement) w"

section \<open>ACME account and readiness\<close>

definition register_acme_tx :: "acme_environment \<Rightarrow> timestamp \<Rightarrow> uuid \<Rightarrow> string \<Rightarrow> unit txn" where
  "register_acme_tx env now i account_uri d =
     (case validate_account_uri env account_uri of
        Inl _ \<Rightarrow> Inl SInvalidRequest
      | Inr _ \<Rightarrow>
          let active = (\<lambda>r. in_id r = i \<and> in_state r \<noteq> Retired) in
          and_then (ok_or SConflict (fetch_optional active (installations d))) (\<lambda>r.
            Inr ((), insert_audit i None ''acme_account_bound''
              (insert_outbox now i ''publish_name'' (HostnamePayload (in_hostname r))
                (d\<lparr>installations := update_rows active (in_acme_update (\<lambda>_. Some account_uri))
                     (installations d)\<rparr>)))))"

definition register_acme_account ::
  "'r store_cfg \<Rightarrow> faults \<Rightarrow> timestamp \<Rightarrow> uuid \<Rightarrow> string \<Rightarrow> 'r world \<Rightarrow> (store_error + unit) \<times> 'r world" where
  "register_acme_account cfg fl now i account_uri w =
     commit_ack cfg fl (register_acme_tx (sc_acme cfg) now i account_uri) w"

definition awaiting_dns :: "uuid \<Rightarrow> installation \<Rightarrow> bool" where
  "awaiting_dns i r \<longleftrightarrow> in_id r = i \<and> in_state r = PendingDns \<and> in_acme r \<noteq> None"

definition mark_dns_ready_tx :: "uuid \<Rightarrow> unit txn" where
  "mark_dns_ready_tx i d =
     (let d' = d\<lparr>installations := update_rows (awaiting_dns i) (in_state_update (\<lambda>_. DnsReady)) (installations d)\<rparr>
      in Inr ((), if count_rows (awaiting_dns i) (installations d) > 0 then insert_audit i None ''dns_ready'' d' else d'))"

definition mark_dns_ready ::
  "'r store_cfg \<Rightarrow> faults \<Rightarrow> uuid \<Rightarrow> 'r world \<Rightarrow> (store_error + unit) \<times> 'r world" where
  "mark_dns_ready cfg fl i w = commit_ack cfg fl (mark_dns_ready_tx i) w"

section \<open>Retirement and relocation\<close>

definition retire_row :: "timestamp \<Rightarrow> installation \<Rightarrow> installation" where
  "retire_row now r = r\<lparr>in_state := Retired, in_retired_at := Some now\<rparr>"

definition remove_jobs :: "timestamp \<Rightarrow> uuid \<Rightarrow> db \<Rightarrow> db" where
  "remove_jobs now i d =
     insert_outbox now i ''remove_txt_all'' EmptyPayload
       (insert_outbox now i ''remove_records'' EmptyPayload d)"

definition retire_digest :: "prims \<Rightarrow> uuid \<Rightarrow> bytes" where
  "retire_digest P i = p_sha256 P (as_bytes ''bloom-relay/retire/v1'' @ [0] @ be_bytes 16 i)"

definition delete_challenges :: "uuid \<Rightarrow> db \<Rightarrow> db" where
  "delete_challenges i d =
     d\<lparr>challenge_values := delete_rows (\<lambda>v. cv_installation v = i) (challenge_values d)\<rparr>"

definition retire_tx :: "prims \<Rightarrow> timestamp \<Rightarrow> uuid \<Rightarrow> uuid \<Rightarrow> unit txn" where
  "retire_tx P now i op d =
     (case find_operation d op of
        Some r \<Rightarrow>
          if op_installation r \<noteq> i \<or> op_kind r \<noteq> ''retire'' then Inl SConflict else Inr ((), d)
      | None \<Rightarrow>
          and_then (ok_or SConflict (find_installation d i)) (\<lambda>_.
          and_then (advance_installation i (\<lambda>r. in_state r \<noteq> Retired) (retire_row now) d) (\<lambda>(row, d).
            let d' = (if row = None then d
                      else insert_audit i (Some op) ''retired''
                        (delete_challenges i (remove_jobs now i (delete_lease i d))))
            in and_then (insert_operation \<lparr>op_id = op, op_installation = i, op_kind = ''retire'',
                 op_digest = retire_digest P i, op_result = EmptyResult, op_created_at = now\<rparr> d')
               (\<lambda>d. Inr ((), d)))))"

definition retire ::
  "prims \<Rightarrow> 'r store_cfg \<Rightarrow> faults \<Rightarrow> timestamp \<Rightarrow> uuid \<Rightarrow> uuid \<Rightarrow> 'r world
     \<Rightarrow> (store_error + unit) \<times> 'r world" where
  "retire P cfg fl now i op w = commit_ack cfg fl (retire_tx P now i op) w"

definition relocation_digest :: "prims \<Rightarrow> uuid \<Rightarrow> string \<Rightarrow> bytes" where
  "relocation_digest P i placement =
     p_sha256 P (as_bytes ''bloom-relay/relocate/v1'' @ [0] @ be_bytes 16 i @ as_bytes placement)"

definition relocate_tx :: "prims \<Rightarrow> timestamp \<Rightarrow> uuid \<Rightarrow> uuid \<Rightarrow> string \<Rightarrow> unit txn" where
  "relocate_tx P now i op placement d =
     (if \<not> placement_ok placement then Inl SInvalidRequest
      else case find_operation d op of
        Some r \<Rightarrow>
          if op_installation r \<noteq> i \<or> op_kind r \<noteq> ''relocate''
             \<or> op_digest r \<noteq> relocation_digest P i placement
          then Inl SConflict else Inr ((), d)
      | None \<Rightarrow>
          and_then (ok_or SConflict
            (fetch_optional (\<lambda>r. in_id r = i \<and> in_state r = DnsReady) (installations d))) (\<lambda>r.
          if in_placement r = placement then Inl SConflict
          else and_then (advance_installation i (\<lambda>_. True) (in_placement_update (\<lambda>_. placement)) d) (\<lambda>(_, d).
            and_then (insert_operation \<lparr>op_id = op, op_installation = i, op_kind = ''relocate'',
                op_digest = relocation_digest P i placement, op_result = EmptyResult, op_created_at = now\<rparr>
              (insert_audit i (Some op) ''placement_moved''
                (insert_outbox now i ''publish_name'' (PlacementPayload placement) (delete_lease i d))))
              (\<lambda>d. Inr ((), d)))))"

definition relocate ::
  "prims \<Rightarrow> 'r store_cfg \<Rightarrow> faults \<Rightarrow> timestamp \<Rightarrow> uuid \<Rightarrow> uuid \<Rightarrow> string \<Rightarrow> 'r world
     \<Rightarrow> (store_error + unit) \<times> 'r world" where
  "relocate P cfg fl now i op placement w = commit_ack cfg fl (relocate_tx P now i op placement) w"

section \<open>The sweep of pending allocations\<close>

text \<open>
  One transaction per row, which checks the condition again; \<open>False\<close> is the \<^verbatim>\<open>continue\<close>
  that drops the transaction without an acknowledgement. Each turn of the loop has its own
  clock and file system, given by position.
\<close>

definition lapsed_allocation :: "timestamp \<Rightarrow> installation \<Rightarrow> bool" where
  "lapsed_allocation now r \<longleftrightarrow> in_state r = PendingDns \<and> in_created_at r < now - hours 24"

definition expire_pending_tx :: "timestamp \<Rightarrow> uuid \<Rightarrow> bool txn" where
  "expire_pending_tx now i d =
     and_then (advance_installation i (lapsed_allocation now) (retire_row now) d) (\<lambda>(row, d).
       if row = None then Inr (False, d)
       else Inr (True, insert_audit i None ''pending_allocation_expired'' (remove_jobs now i d)))"

definition expire_pending_one ::
  "'r store_cfg \<Rightarrow> faults \<Rightarrow> timestamp \<Rightarrow> uuid \<Rightarrow> 'r world \<Rightarrow> (store_error + bool) \<times> 'r world" where
  "expire_pending_one cfg fl now i w =
     (case expire_pending_tx now i (w_db w) of
        Inr (False, _) \<Rightarrow> (Inr False, w)
      | _ \<Rightarrow> commit_ack cfg fl (expire_pending_tx now i) w)"

fun expire_pending_loop ::
  "'r store_cfg \<Rightarrow> (nat \<Rightarrow> faults) \<Rightarrow> (nat \<Rightarrow> timestamp) \<Rightarrow> nat \<Rightarrow> uuid list \<Rightarrow> nat \<Rightarrow> 'r world
     \<Rightarrow> (store_error + nat) \<times> 'r world" where
  "expire_pending_loop cfg fl now k [] expired w = (Inr expired, w)"
| "expire_pending_loop cfg fl now k (i # ids) expired w =
     (case expire_pending_one cfg (fl k) (now k) i w of
        (Inl e, w') \<Rightarrow> (Inl e, w')
      | (Inr changed, w') \<Rightarrow>
          expire_pending_loop cfg fl now (Suc k) ids (if changed then Suc expired else expired) w')"

definition expire_pending_allocations ::
  "'r store_cfg \<Rightarrow> (nat \<Rightarrow> faults) \<Rightarrow> (nat \<Rightarrow> timestamp) \<Rightarrow> int \<Rightarrow> 'r world
     \<Rightarrow> (store_error + nat) \<times> 'r world" where
  "expire_pending_allocations cfg fl now limit w =
     (if 1 \<le> limit \<and> limit \<le> 100
      then expire_pending_loop cfg fl now 1
        (map in_id (select_limit (lapsed_allocation (now 0)) in_created_at (nat limit)
           (installations (w_db w)))) 0 w
      else (Inl SInvalidRequest, w))"

section \<open>What the transactions change\<close>

text \<open>The row \<^verbatim>\<open>allocate\<close> inserts.\<close>

definition new_installation ::
  "(bytes \<Rightarrow> string) \<Rightarrow> timestamp \<Rightarrow> uuid \<Rightarrow> bytes \<Rightarrow> bytes \<Rightarrow> string \<Rightarrow> installation" where
  "new_installation b32 now i random admin_key placement =
     \<lparr>in_id = i, in_hostname = random_hostname b32 random, in_admin_key = admin_key,
      in_placement = placement, in_generation = 1, in_state = PendingDns, in_acme = None,
      in_created_at = now, in_retired_at = None\<rparr>"

lemma new_installation_simps [simp]:
  "in_id (new_installation b32 now i random k p) = i"
  "in_hostname (new_installation b32 now i random k p) = random_hostname b32 random"
  "in_admin_key (new_installation b32 now i random k p) = k"
  "in_placement (new_installation b32 now i random k p) = p"
  "in_generation (new_installation b32 now i random k p) = 1"
  "in_state (new_installation b32 now i random k p) = PendingDns"
  "in_acme (new_installation b32 now i random k p) = None"
  "in_retired_at (new_installation b32 now i random k p) = None"
  by (simp_all add: new_installation_def)

text \<open>The row it stores under the operation id.\<close>

definition allocate_operation :: "timestamp \<Rightarrow> uuid \<Rightarrow> installation \<Rightarrow> operation" where
  "allocate_operation now op r =
     \<lparr>op_id = op, op_installation = in_id r, op_kind = ''allocate'', op_digest = replicate 32 0,
      op_result = AllocationResult (allocation_from_row r), op_created_at = now\<rparr>"

lemma allocate_fresh:
  assumes "operation_installation d op = None"
    and r: "r = new_installation b32 now i random admin_key placement"
  shows "allocate_tx b32 now i random op admin_key placement d = Inr (a, d') \<longleftrightarrow>
     placement_ok placement
     \<and> key_free in_id r (installations d) \<and> key_free in_hostname r (installations d)
     \<and> key_free rv_hostname \<lparr>rv_hostname = in_hostname r, rv_installation = i\<rparr> (reservations d)
     \<and> key_free op_id (allocate_operation now op r) (operations d)
     \<and> a = allocation_from_row r
     \<and> d' = insert_audit i (Some op) ''allocated'' (insert_outbox now i ''publish_name''
         (NamePayload (in_hostname r) placement)
         (d\<lparr>installations := installations d @ [r],
            reservations := reservations d @ [\<lparr>rv_hostname = in_hostname r, rv_installation = i\<rparr>],
            operations := operations d @ [allocate_operation now op r]\<rparr>))"
  unfolding r using assms(1)
  by (simp add: allocate_tx_def Let_def insert_installation_def insert_reservation_def
      insert_operation_def new_installation_def allocate_operation_def) blast

lemma allocate_replay:
  assumes "operation_installation d op = Some r"
  shows "allocate_tx b32 now i random op admin_key placement d = Inr (a, d') \<longleftrightarrow>
     placement_ok placement \<and> in_admin_key r = admin_key \<and> in_placement r = placement
     \<and> a = allocation_from_row r \<and> d' = d"
  using assms by (auto simp: allocate_tx_def)

lemma register_acme_tx_Inr:
  assumes "register_acme_tx env now i uri d = Inr (x, d')"
  obtains r where "validate_account_uri env uri = Inr ()"
    "r \<in> set (installations d)" "in_id r = i" "in_state r \<noteq> Retired"
    "d' = insert_audit i None ''acme_account_bound''
       (insert_outbox now i ''publish_name'' (HostnamePayload (in_hostname r))
         (d\<lparr>installations := update_rows (\<lambda>r. in_id r = i \<and> in_state r \<noteq> Retired)
              (in_acme_update (\<lambda>_. Some uri)) (installations d)\<rparr>))"
proof (cases "validate_account_uri env uri")
  case (Inr u)
  with assms obtain r where r: "fetch_optional (\<lambda>r. in_id r = i \<and> in_state r \<noteq> Retired) (installations d) = Some r"
    and d': "d' = insert_audit i None ''acme_account_bound''
       (insert_outbox now i ''publish_name'' (HostnamePayload (in_hostname r))
         (d\<lparr>installations := update_rows (\<lambda>r. in_id r = i \<and> in_state r \<noteq> Retired)
              (in_acme_update (\<lambda>_. Some uri)) (installations d)\<rparr>))"
    by (simp add: register_acme_tx_def Let_def txn_Inr) blast
  from fetch_optional_Some [OF r] have "r \<in> set (installations d)" "in_id r = i" "in_state r \<noteq> Retired"
    by simp_all
  with Inr show thesis by (intro that [OF _ _ _ _ d']) simp_all
qed (use assms in \<open>simp add: register_acme_tx_def\<close>)

lemma mark_dns_ready_tx_Inr:
  assumes "mark_dns_ready_tx i d = Inr (x, d')"
  obtains (unchanged) "d' = d"
  | (ready) "d' = insert_audit i None ''dns_ready''
      (d\<lparr>installations := update_rows (awaiting_dns i) (in_state_update (\<lambda>_. DnsReady)) (installations d)\<rparr>)"
proof (cases "count_rows (awaiting_dns i) (installations d) > 0")
  case False
  then have "update_rows (awaiting_dns i) (in_state_update (\<lambda>_. DnsReady)) (installations d) = installations d"
    by (intro update_rows_none) (simp add: count_rows_0)
  with False assms unchanged show thesis by (simp add: mark_dns_ready_tx_def Let_def)
qed (use assms ready in \<open>simp add: mark_dns_ready_tx_def Let_def\<close>)

lemma retire_tx_Inr:
  assumes "retire_tx P now i op d = Inr (x, d')"
  obtains (replay) r where "find_operation d op = Some r" "op_installation r = i" "op_kind r = ''retire''" "d' = d"
  | (again) op_row r where "find_operation d op = None" "r \<in> set (installations d)" "in_id r = i"
      "\<forall>r \<in> set (installations d). in_id r = i \<longrightarrow> in_state r = Retired"
      "key_free op_id op_row (operations d)" "op_id op_row = op" "op_installation op_row = i"
      "op_kind op_row = ''retire''"
      "d' = d\<lparr>operations := operations d @ [op_row]\<rparr>"
  | (fresh) r op_row where "find_operation d op = None" "r \<in> set (installations d)" "in_id r = i"
      "in_state r \<noteq> Retired" "in_generation r < BIGINT_MAX"
      "key_free op_id op_row (operations d)" "op_id op_row = op" "op_installation op_row = i"
      "op_kind op_row = ''retire''"
      "d' = (insert_audit i (Some op) ''retired'' (delete_challenges i (remove_jobs now i (delete_lease i
         (d\<lparr>installations := update_rows (\<lambda>r. in_id r = i \<and> in_state r \<noteq> Retired)
             (\<lambda>r. (retire_row now r)\<lparr>in_generation := in_generation r + 1\<rparr>) (installations d)\<rparr>)))))
         \<lparr>operations := operations d @ [op_row]\<rparr>"
proof (cases "find_operation d op")
  let ?row = "\<lparr>op_id = op, op_installation = i, op_kind = ''retire'',
        op_digest = retire_digest P i, op_result = EmptyResult, op_created_at = now\<rparr>"
  case None
  with assms obtain r row d1 where r: "r \<in> set (installations d)" "in_id r = i"
    and adv: "advance_installation i (\<lambda>r. in_state r \<noteq> Retired) (retire_row now) d = Inr (row, d1)"
    and ins: "insert_operation ?row
        (if row = None then d1 else insert_audit i (Some op) ''retired''
           (delete_challenges i (remove_jobs now i (delete_lease i d1)))) = Inr d'"
    by (auto simp: retire_tx_def Let_def txn_Inr find_installation_def dest!: fetch_optional_Some)
  from adv show thesis
  proof (cases rule: advance_installation_cases)
    case none
    with ins None r show thesis
      by (intro again [OF None r, of ?row]) (auto simp: insert_operation_Inr)
  next
    case (some r')
    with ins None show thesis
      by (intro fresh [OF None some(2-5), of ?row])
        (auto simp: insert_operation_Inr insert_audit_def delete_challenges_def remove_jobs_def
          insert_outbox_def delete_lease_def)
  qed
qed (use assms replay in \<open>auto simp: retire_tx_def split: if_splits\<close>)

lemma relocate_tx_Inr:
  assumes "relocate_tx P now i op placement d = Inr (x, d')"
  obtains (replay) r where "find_operation d op = Some r" "op_installation r = i"
      "op_kind r = ''relocate''" "op_digest r = relocation_digest P i placement" "d' = d"
  | (fresh) r op_row where "find_operation d op = None" "placement_ok placement"
      "r \<in> set (installations d)" "in_id r = i" "in_state r = DnsReady" "in_placement r \<noteq> placement"
      "key_free op_id op_row (operations d)" "op_id op_row = op" "op_installation op_row = i"
      "op_kind op_row = ''relocate''"
      "\<exists>r \<in> set (installations d). in_id r = i \<and> in_generation r < BIGINT_MAX"
      "d' = (insert_audit i (Some op) ''placement_moved''
         (insert_outbox now i ''publish_name'' (PlacementPayload placement) (delete_lease i
         (d\<lparr>installations := update_rows (\<lambda>r. in_id r = i)
             (\<lambda>r. r\<lparr>in_placement := placement, in_generation := in_generation r + 1\<rparr>)
             (installations d)\<rparr>))))\<lparr>operations := operations d @ [op_row]\<rparr>"
proof (cases "find_operation d op")
  let ?row = "\<lparr>op_id = op, op_installation = i, op_kind = ''relocate'',
        op_digest = relocation_digest P i placement, op_result = EmptyResult, op_created_at = now\<rparr>"
  case None
  with assms obtain r row d1 where ok: "placement_ok placement"
    and r: "r \<in> set (installations d)" "in_id r = i" "in_state r = DnsReady" "in_placement r \<noteq> placement"
    and adv: "advance_installation i (\<lambda>_. True) (in_placement_update (\<lambda>_. placement)) d = Inr (row, d1)"
    and ins: "insert_operation ?row
        (insert_audit i (Some op) ''placement_moved'' (insert_outbox now i ''publish_name''
          (PlacementPayload placement) (delete_lease i d1))) = Inr d'"
    by (auto simp: relocate_tx_def Let_def txn_Inr split: if_splits dest!: fetch_optional_Some)
  from adv show thesis
  proof (cases rule: advance_installation_cases)
    case (some r')
    with ins show thesis
      by (intro fresh [OF None ok r, of ?row])
        (auto simp: insert_operation_Inr insert_audit_def insert_outbox_def delete_lease_def)
  qed (use r in auto)
qed (use assms replay in \<open>auto simp: relocate_tx_def split: if_splits\<close>)

lemma expire_pending_tx_Inr:
  assumes "expire_pending_tx now i d = Inr (x, d')"
  obtains (unchanged) "x = False" "d' = d"
  | (expired) r where "x = True" "r \<in> set (installations d)" "in_id r = i" "lapsed_allocation now r"
      "in_generation r < BIGINT_MAX"
      "d' = insert_audit i None ''pending_allocation_expired'' (remove_jobs now i
         (d\<lparr>installations := update_rows (\<lambda>r. in_id r = i \<and> lapsed_allocation now r)
             (\<lambda>r. (retire_row now r)\<lparr>in_generation := in_generation r + 1\<rparr>) (installations d)\<rparr>))"
  using assms
  by (auto simp: expire_pending_tx_def txn_Inr split: if_splits elim!: advance_installation_cases)

end
