(* ===== verification/Store_Tunnel.thy ===== *)
theory Store_Tunnel
  imports Store_Installations
begin

text \<open>
  Tunnel leases (\<^verbatim>\<open>crates/bloom-relay-store/src/lib.rs\<close>): a gateway claims the tunnel of an
  installation placed on it, checks that its lease is still the current one, and extends it.
\<close>

text \<open>The upsert on \<^verbatim>\<open>tunnel_leases\<close>, whose primary key is the installation.\<close>

definition upsert_lease :: "tunnel_lease \<Rightarrow> db \<Rightarrow> db" where
  "upsert_lease l d =
     d\<lparr>tunnel_leases :=
         (if key_free tl_installation l (tunnel_leases d) then tunnel_leases d @ [l]
          else update_rows (\<lambda>x. tl_installation x = tl_installation l) (\<lambda>_. l) (tunnel_leases d))\<rparr>"

definition claim_tunnel_tx :: "timestamp \<Rightarrow> uuid \<Rightarrow> string \<Rightarrow> int \<Rightarrow> u64 txn" where
  "claim_tunnel_tx now i gateway ttl d =
     (if gateway = [] \<or> \<not> (5 \<le> ttl \<and> ttl \<le> 60) then Inl SInvalidRequest
      else
        and_then (advance_installation i (\<lambda>r. in_state r = DnsReady \<and> in_placement r = gateway) id d) (\<lambda>(row, d).
        and_then (ok_or SConflict row) (\<lambda>row.
          Inr (as_u64 (in_generation row),
            insert_audit i None ''tunnel_claimed''
              (upsert_lease \<lparr>tl_installation = i, tl_generation = in_generation row,
                 tl_gateway = gateway, tl_expires_at = now + seconds ttl\<rparr> d)))))"

definition claim_tunnel ::
  "'r store_cfg \<Rightarrow> faults \<Rightarrow> timestamp \<Rightarrow> uuid \<Rightarrow> string \<Rightarrow> int \<Rightarrow> 'r world
     \<Rightarrow> (store_error + u64) \<times> 'r world" where
  "claim_tunnel cfg fl now i gateway ttl w = commit_ack cfg fl (claim_tunnel_tx now i gateway ttl) w"

definition lease_is_current :: "timestamp \<Rightarrow> uuid \<Rightarrow> string \<Rightarrow> u64 \<Rightarrow> tunnel_lease \<Rightarrow> bool" where
  "lease_is_current now i gateway generation l \<longleftrightarrow>
     tl_installation l = i \<and> tl_gateway l = gateway \<and> tl_generation l = as_i64 generation
     \<and> tl_expires_at l > now"

definition tunnel_is_current ::
  "'r store_cfg \<Rightarrow> faults \<Rightarrow> timestamp \<Rightarrow> uuid \<Rightarrow> string \<Rightarrow> u64 \<Rightarrow> 'r world
     \<Rightarrow> (store_error + bool) \<times> 'r world" where
  "tunnel_is_current cfg fl now i gateway generation w =
     (case acknowledge cfg fl w of
        (Inl e, w') \<Rightarrow> (Inl e, w')
      | (Inr _, w') \<Rightarrow>
          (Inr (exists_row (lease_is_current now i gateway generation) (tunnel_leases (w_db w'))), w'))"

definition renew_lease :: "timestamp \<Rightarrow> uuid \<Rightarrow> string \<Rightarrow> u64 \<Rightarrow> bool txn" where
  "renew_lease now i gateway generation d =
     Inr (count_rows (lease_is_current now i gateway generation) (tunnel_leases d) = 1,
       d\<lparr>tunnel_leases := update_rows (lease_is_current now i gateway generation)
           (tl_expires_at_update (\<lambda>_. now + seconds 45)) (tunnel_leases d)\<rparr>)"

definition renew_tunnel ::
  "timestamp \<Rightarrow> uuid \<Rightarrow> string \<Rightarrow> u64 \<Rightarrow> 'r world \<Rightarrow> (store_error + bool) \<times> 'r world" where
  "renew_tunnel now i gateway generation w = autocommit (renew_lease now i gateway generation) w"

section \<open>What the transactions change\<close>

lemma claim_tunnel_tx_Inr:
  assumes "claim_tunnel_tx now i gateway ttl d = Inr (x, d')"
  obtains r where "gateway \<noteq> []" "5 \<le> ttl" "ttl \<le> 60"
    "r \<in> set (installations d)" "in_id r = i" "in_state r = DnsReady" "in_placement r = gateway"
    "in_generation r < BIGINT_MAX" "x = as_u64 (in_generation r + 1)"
    "d' = insert_audit i None ''tunnel_claimed''
       (upsert_lease \<lparr>tl_installation = i, tl_generation = in_generation r + 1, tl_gateway = gateway,
          tl_expires_at = now + seconds ttl\<rparr>
        (d\<lparr>installations := update_rows (\<lambda>r. in_id r = i \<and> in_state r = DnsReady \<and> in_placement r = gateway)
             (\<lambda>r. r\<lparr>in_generation := in_generation r + 1\<rparr>) (installations d)\<rparr>))"
  using assms
  by (auto simp: claim_tunnel_tx_def txn_Inr split: if_splits elim!: advance_installation_cases)

end
