(* ===== verification/Store_Challenge.thy ===== *)
theory Store_Challenge
  imports Store_Tunnel "HOL-Library.List_Lexorder" "HOL-Library.Char_ord"
begin

text \<open>
  The DNS-01 challenge set of an installation (\<^verbatim>\<open>crates/bloom-relay-store/src/lib.rs\<close>):
  at most two live TXT values, a revision that advances with every change of membership,
  and the revision the challenge worker last published and observed.
\<close>

abbreviation value_key :: "challenge_value \<Rightarrow> uuid \<times> string" where
  "value_key v \<equiv> (cv_installation v, cv_txt v)"

definition challenge_lifetime :: timestamp where
  "challenge_lifetime = CHALLENGE_VALUE_LIFETIME_MS * 1000"

text \<open>\<^verbatim>\<open>INSERT INTO challenge_state ... ON CONFLICT DO NOTHING\<close>.\<close>

definition ensure_state :: "uuid \<Rightarrow> db \<Rightarrow> db" where
  "ensure_state i d =
     (let s = \<lparr>cs_installation = i, cs_revision = 0, cs_ready = None\<rparr>
      in if key_free cs_installation s (challenge_states d)
         then d\<lparr>challenge_states := challenge_states d @ [s]\<rparr> else d)"

definition state_of :: "db \<Rightarrow> uuid \<Rightarrow> challenge_state option" where
  "state_of d i = fetch_optional (\<lambda>s. cs_installation s = i) (challenge_states d)"

definition challenge_set_changed :: "timestamp \<Rightarrow> uuid \<Rightarrow> string \<Rightarrow> db \<Rightarrow> store_error + db" where
  "challenge_set_changed now i event d =
     (if exists_row (\<lambda>s. cs_installation s = i \<and> cs_revision s \<ge> BIGINT_MAX) (challenge_states d)
      then Inl SUnavailable
      else Inr (insert_audit i None event
        (insert_outbox now i ''reconcile_txt'' EmptyPayload
          (d\<lparr>challenge_states := update_rows (\<lambda>s. cs_installation s = i)
               (\<lambda>s. s\<lparr>cs_revision := cs_revision s + 1\<rparr>) (challenge_states d)\<rparr>))))"

definition value_live :: "timestamp \<Rightarrow> uuid \<Rightarrow> challenge_value \<Rightarrow> bool" where
  "value_live now i v \<longleftrightarrow> cv_installation v = i \<and> cv_expires_at v > now"

definition value_lapsed :: "timestamp \<Rightarrow> uuid \<Rightarrow> challenge_value \<Rightarrow> bool" where
  "value_lapsed now i v \<longleftrightarrow> cv_installation v = i \<and> cv_expires_at v \<le> now"

text \<open>The branch for a value that is not live: the limit, the lapsed rows, the new row.\<close>

definition add_value :: "timestamp \<Rightarrow> uuid \<Rightarrow> string \<Rightarrow> db \<Rightarrow> store_error + db" where
  "add_value now i txt d =
     (if count_rows (value_live now i) (challenge_values d) \<ge> MAX_LIVE_CHALLENGE_VALUES
      then Inl SConflict
      else let kept = delete_rows (value_lapsed now i) (challenge_values d);
               v = \<lparr>cv_installation = i, cv_txt = txt, cv_expires_at = now + challenge_lifetime\<rparr>
           in if key_free value_key v kept
              then challenge_set_changed now i ''challenge_value_added''
                (d\<lparr>challenge_values := kept @ [v]\<rparr>)
              else Inl SUnavailable)"

definition refresh_value :: "timestamp \<Rightarrow> uuid \<Rightarrow> string \<Rightarrow> db \<Rightarrow> db" where
  "refresh_value now i txt d =
     d\<lparr>challenge_values := update_rows (\<lambda>v. value_live now i v \<and> cv_txt v = txt)
         (cv_expires_at_update (\<lambda>_. now + challenge_lifetime)) (challenge_values d)\<rparr>"

text \<open>The result is the revision and the expiry in milliseconds, \<^verbatim>\<open>ChallengeValueState\<close>.\<close>

definition ensure_challenge_tx :: "timestamp \<Rightarrow> uuid \<Rightarrow> u64 \<Rightarrow> string \<Rightarrow> (u64 \<times> u64) txn" where
  "ensure_challenge_tx now i generation txt d =
     (case validate_challenge_value txt of
        Inl _ \<Rightarrow> Inl SInvalidRequest
      | Inr _ \<Rightarrow>
          if \<not> exists_row (\<lambda>r. in_id r = i \<and> in_state r = DnsReady) (installations d) then Inl SConflict
          else if \<not> exists_row (\<lambda>c. cr_installation c = i \<and> cr_scope c = ''dns_challenge''
                 \<and> cr_generation c = as_i64 generation \<and> cr_revoked_at c = None
                 \<and> cr_expires_at c > now) (credentials d) then Inl SUnauthorized
          else
            let d1 = ensure_state i d;
                live = exists_row (\<lambda>v. value_live now i v \<and> cv_txt v = txt) (challenge_values d1)
            in and_then (if live then Inr (refresh_value now i txt d1) else add_value now i txt d1) (\<lambda>d2.
               and_then (ok_or SUnavailable (state_of d2 i)) (\<lambda>s.
                 Inr ((as_u64 (cs_revision s), as_u64 (epoch_ms (now + challenge_lifetime))), d2))))"

definition ensure_challenge_value ::
  "'r store_cfg \<Rightarrow> faults \<Rightarrow> timestamp \<Rightarrow> uuid \<Rightarrow> u64 \<Rightarrow> string \<Rightarrow> 'r world
     \<Rightarrow> (store_error + u64 \<times> u64) \<times> 'r world" where
  "ensure_challenge_value cfg fl now i generation txt w =
     commit_ack cfg fl (ensure_challenge_tx now i generation txt) w"

definition challenge_value_ready :: "timestamp \<Rightarrow> db \<Rightarrow> uuid \<Rightarrow> string \<Rightarrow> u64 \<Rightarrow> store_error + bool" where
  "challenge_value_ready now d i txt revision =
     (if uint revision \<ge> 2 ^ 63 then Inl SInvalidRequest
      else Inr (exists_row (\<lambda>s. cs_installation s = i \<and> cs_ready s = Some (cs_revision s)
                    \<and> cs_revision s \<ge> as_i64 revision) (challenge_states d)
                \<and> exists_row (\<lambda>v. value_live now i v \<and> cv_txt v = txt) (challenge_values d)))"

text \<open>
  One snapshot of the revision and the stored membership. The order is that of the bytes
  (the values are ASCII); no caller depends on it.
\<close>

definition challenge_target :: "db \<Rightarrow> uuid \<Rightarrow> u64 \<times> string list" where
  "challenge_target d i =
     (as_u64 (case state_of d i of None \<Rightarrow> 0 | Some s \<Rightarrow> cs_revision s),
      sort (map cv_txt (filter (\<lambda>v. cv_installation v = i) (challenge_values d))))"

definition reconciled_tx :: "uuid \<Rightarrow> u64 \<Rightarrow> bool txn" where
  "reconciled_tx i revision d =
     (let p = (\<lambda>s. cs_installation s = i \<and> cs_revision s = as_i64 revision)
      in Inr (count_rows p (challenge_states d) = 1,
           d\<lparr>challenge_states := update_rows p (cs_ready_update (\<lambda>_. Some (as_i64 revision)))
               (challenge_states d)\<rparr>))"

definition mark_challenge_reconciled ::
  "'r store_cfg \<Rightarrow> faults \<Rightarrow> uuid \<Rightarrow> u64 \<Rightarrow> 'r world \<Rightarrow> (store_error + bool) \<times> 'r world" where
  "mark_challenge_reconciled cfg fl i revision w = commit_ack cfg fl (reconciled_tx i revision) w"

section \<open>The sweep of lapsed values\<close>

definition expire_values_tx :: "timestamp \<Rightarrow> uuid \<Rightarrow> bool txn" where
  "expire_values_tx now i d =
     (if count_rows (value_lapsed now i) (challenge_values d) > 0
      then and_then (challenge_set_changed now i ''challenge_value_expired''
             (d\<lparr>challenge_values := delete_rows (value_lapsed now i) (challenge_values d)\<rparr>))
           (\<lambda>d. Inr (True, d))
      else Inr (False, d))"

fun expire_values_loop ::
  "'r store_cfg \<Rightarrow> (nat \<Rightarrow> faults) \<Rightarrow> (nat \<Rightarrow> timestamp) \<Rightarrow> nat \<Rightarrow> uuid list \<Rightarrow> nat \<Rightarrow> 'r world
     \<Rightarrow> (store_error + nat) \<times> 'r world" where
  "expire_values_loop cfg fl now k [] changed w = (Inr changed, w)"
| "expire_values_loop cfg fl now k (i # ids) changed w =
     (case commit_ack cfg (fl k) (expire_values_tx (now k) i) w of
        (Inl e, w') \<Rightarrow> (Inl e, w')
      | (Inr removed, w') \<Rightarrow>
          expire_values_loop cfg fl now (Suc k) ids (if removed then Suc changed else changed) w')"

text \<open>\<^verbatim>\<open>SELECT DISTINCT ... LIMIT\<close>: the installations in the order of their first lapsed row.\<close>

definition expire_challenge_values ::
  "'r store_cfg \<Rightarrow> (nat \<Rightarrow> faults) \<Rightarrow> (nat \<Rightarrow> timestamp) \<Rightarrow> int \<Rightarrow> 'r world
     \<Rightarrow> (store_error + nat) \<times> 'r world" where
  "expire_challenge_values cfg fl now limit w =
     (if 1 \<le> limit \<and> limit \<le> 100
      then expire_values_loop cfg fl now 1
        (take (nat limit) (remdups (map cv_installation
           (filter (\<lambda>v. cv_expires_at v \<le> now 0) (challenge_values (w_db w)))))) 0 w
      else (Inl SInvalidRequest, w))"

section \<open>What the transactions change\<close>

lemma challenge_set_changed_Inr:
  "challenge_set_changed now i event d = Inr d' \<longleftrightarrow>
     (\<forall>s \<in> set (challenge_states d). cs_installation s = i \<longrightarrow> cs_revision s < BIGINT_MAX)
     \<and> d' = insert_audit i None event (insert_outbox now i ''reconcile_txt'' EmptyPayload
        (d\<lparr>challenge_states := update_rows (\<lambda>s. cs_installation s = i)
             (\<lambda>s. s\<lparr>cs_revision := cs_revision s + 1\<rparr>) (challenge_states d)\<rparr>))"
  by (auto simp: challenge_set_changed_def exists_row_iff not_le)

lemma ensure_challenge_tx_Inr:
  assumes "ensure_challenge_tx now i generation txt d = Inr (x, d')"
  obtains (refreshed) r v where "validate_challenge_value txt = Inr ()"
      "r \<in> set (installations d)" "in_id r = i" "in_state r = DnsReady"
      "v \<in> set (challenge_values d)" "value_live now i v" "cv_txt v = txt"
      "d' = refresh_value now i txt (ensure_state i d)"
  | (added) r where "validate_challenge_value txt = Inr ()"
      "r \<in> set (installations d)" "in_id r = i" "in_state r = DnsReady"
      "\<forall>v \<in> set (challenge_values d). value_live now i v \<longrightarrow> cv_txt v \<noteq> txt"
      "add_value now i txt (ensure_state i d) = Inr d'"
  using assms
  by (auto simp: ensure_challenge_tx_def Let_def txn_Inr exists_row_iff ensure_state_def
      split: sum.splits if_splits)

lemma add_value_Inr:
  assumes "add_value now i txt d = Inr d'"
  obtains v where "v = \<lparr>cv_installation = i, cv_txt = txt, cv_expires_at = now + challenge_lifetime\<rparr>"
    "count_rows (value_live now i) (challenge_values d) < MAX_LIVE_CHALLENGE_VALUES"
    "key_free value_key v (delete_rows (value_lapsed now i) (challenge_values d))"
    "challenge_set_changed now i ''challenge_value_added''
       (d\<lparr>challenge_values := delete_rows (value_lapsed now i) (challenge_values d) @ [v]\<rparr>) = Inr d'"
  using assms by (auto simp: add_value_def Let_def split: if_splits)

lemma expire_values_tx_Inr:
  assumes "expire_values_tx now i d = Inr (x, d')"
  obtains (unchanged) "x = False" "d' = d"
  | (expired) v where "x = True" "v \<in> set (challenge_values d)" "value_lapsed now i v"
      "challenge_set_changed now i ''challenge_value_expired''
         (d\<lparr>challenge_values := delete_rows (value_lapsed now i) (challenge_values d)\<rparr>) = Inr d'"
proof (cases "count_rows (value_lapsed now i) (challenge_values d) > 0")
  case True
  then obtain v where "v \<in> set (challenge_values d)" "value_lapsed now i v"
    using count_rows_0 [of "value_lapsed now i" "challenge_values d"] by auto
  with True assms expired show thesis by (auto simp: expire_values_tx_def txn_Inr)
qed (use assms unchanged in \<open>simp add: expire_values_tx_def\<close>)

end
