(* ===== verification/Store_Outbox.thy ===== *)
theory Store_Outbox
  imports Store_Challenge
begin

text \<open>
  The outbox of DNS work (\<^verbatim>\<open>crates/bloom-relay-store/src/lib.rs\<close>): a worker claims the
  first due job of its placement and scope that no other worker holds, and records the
  attempt as complete or deferred with exponential backoff.
\<close>

datatype dns_job_scope = Serving | Challenge

fun job_in_scope :: "dns_job_scope \<Rightarrow> outbox_job \<Rightarrow> bool" where
  "job_in_scope Serving j \<longleftrightarrow> ob_kind j = ''publish_name'' \<or> ob_kind j = ''remove_records''"
| "job_in_scope Challenge j \<longleftrightarrow> ob_kind j = ''reconcile_txt'' \<or> ob_kind j = ''remove_txt_all''"

text \<open>\<open>locked\<close> are the rows other workers hold (\<^verbatim>\<open>SKIP LOCKED\<close>).\<close>

definition job_due :: "timestamp \<Rightarrow> nat list \<Rightarrow> string \<Rightarrow> dns_job_scope \<Rightarrow> db \<Rightarrow> outbox_job \<Rightarrow> bool" where
  "job_due now locked placement scope d j \<longleftrightarrow>
     joined d (\<lambda>r. in_placement r = placement) (ob_installation j)
     \<and> job_in_scope scope j \<and> ob_completed_at j = None \<and> ob_next_attempt_at j \<le> now
     \<and> ob_id j \<notin> set locked"

definition next_job :: "timestamp \<Rightarrow> nat list \<Rightarrow> string \<Rightarrow> dns_job_scope \<Rightarrow> db \<Rightarrow> outbox_job option" where
  "next_job now locked placement scope d =
     (case select_limit (job_due now locked placement scope d) ob_id 1 (outbox d) of
        [] \<Rightarrow> None | j # _ \<Rightarrow> Some j)"

definition claim_job ::
  "'r store_cfg \<Rightarrow> faults \<Rightarrow> timestamp \<Rightarrow> nat list \<Rightarrow> string \<Rightarrow> dns_job_scope \<Rightarrow> 'r world
     \<Rightarrow> (store_error + outbox_job option) \<times> 'r world" where
  "claim_job cfg fl now locked placement scope w =
     (case next_job now locked placement scope (w_db w) of
        None \<Rightarrow> (Inr None, w)
      | Some j \<Rightarrow>
          (case acknowledge cfg fl w of
             (Inl e, w') \<Rightarrow> (Inl e, w')
           | (Inr _, w') \<Rightarrow> (Inr (Some j), w')))"

text \<open>\<open>verify_integrity\<close> comes first: a failing witness rolls the claim back.\<close>

definition verified ::
  "'r store_cfg \<Rightarrow> faults \<Rightarrow> ('r world \<Rightarrow> (store_error + 'a) \<times> 'r world) \<Rightarrow> 'r world
     \<Rightarrow> (store_error + 'a) \<times> 'r world" where
  "verified cfg fl f w = (case acknowledge cfg fl w of (Inl e, w') \<Rightarrow> (Inl e, w') | (Inr _, w') \<Rightarrow> f w')"

definition complete_tx :: "timestamp \<Rightarrow> nat \<Rightarrow> unit txn" where
  "complete_tx now j d =
     Inr ((), d\<lparr>outbox := update_rows (\<lambda>r. ob_id r = j) (ob_completed_at_update (\<lambda>_. Some now)) (outbox d)\<rparr>)"

definition complete_job ::
  "'r store_cfg \<Rightarrow> faults \<Rightarrow> faults \<Rightarrow> timestamp \<Rightarrow> outbox_job \<Rightarrow> 'r world \<Rightarrow> (store_error + unit) \<times> 'r world" where
  "complete_job cfg fl fl' now j w = verified cfg fl (commit_ack cfg fl' (complete_tx now (ob_id j))) w"

definition backoff_seconds :: "nat \<Rightarrow> int" where
  "backoff_seconds n = min 300 (5 * 2 ^ min 6 n)"

definition INTEGER_MAX :: int where
  "INTEGER_MAX = 2 ^ 31 - 1"

definition defer_tx :: "timestamp \<Rightarrow> nat \<Rightarrow> unit txn" where
  "defer_tx now j d =
     (if exists_row (\<lambda>r. ob_id r = j \<and> int (ob_attempts r) \<ge> INTEGER_MAX) (outbox d) then Inl SUnavailable
      else Inr ((), d\<lparr>outbox := update_rows (\<lambda>r. ob_id r = j)
        (\<lambda>r. r\<lparr>ob_attempts := Suc (ob_attempts r),
               ob_next_attempt_at := now + seconds (backoff_seconds (ob_attempts r))\<rparr>) (outbox d)\<rparr>))"

definition defer_job ::
  "'r store_cfg \<Rightarrow> faults \<Rightarrow> faults \<Rightarrow> timestamp \<Rightarrow> outbox_job \<Rightarrow> 'r world \<Rightarrow> (store_error + unit) \<times> 'r world" where
  "defer_job cfg fl fl' now j w = verified cfg fl (commit_ack cfg fl' (defer_tx now (ob_id j))) w"

end
