(* ===== verification/Store_Ct.thy ===== *)
theory Store_Ct
  imports Store_Outbox
begin

text \<open>
  Certificate transparency (\<^verbatim>\<open>crates/bloom-relay-store/src/ct.rs\<close>): the inventory of the
  certificates an installation expects, the contiguous observations of a log, and the
  alerts for unexpected certificates and for a lagging feed. Every checkpoint, alert and
  health alert written advances the restore fence (\<^verbatim>\<open>migrations/\<close>).
\<close>

section \<open>Validation\<close>

definition validate_fingerprint :: "string \<Rightarrow> store_error + unit" where
  "validate_fingerprint value =
     (if length value \<noteq> 64 \<or> \<not> list_all is_ascii_hexdigit value then Inl SInvalidRequest else Inr ())"

definition validate_source :: "string \<Rightarrow> store_error + unit" where
  "validate_source source =
     (if source = [] \<or> length source > 64
         \<or> \<not> list_all (\<lambda>b. is_ascii_alphanumeric b \<or> b = CHR ''-'') source
      then Inl SInvalidRequest else Inr ())"

section \<open>Checkpoints\<close>

definition bump_fence :: "nat \<Rightarrow> db \<Rightarrow> db" where
  "bump_fence n d = d\<lparr>fence := fence d + int n\<rparr>"

text \<open>\<^verbatim>\<open>INSERT INTO ct_feed_checkpoints ... ON CONFLICT DO NOTHING\<close>.\<close>

definition insert_checkpoint :: "timestamp \<Rightarrow> string \<Rightarrow> db \<Rightarrow> db" where
  "insert_checkpoint now source d =
     (let c = \<lparr>cp_source = source, cp_position = 0, cp_observed_at = now\<rparr>
      in if key_free cp_source c (ct_checkpoints d)
         then bump_fence 1 (d\<lparr>ct_checkpoints := ct_checkpoints d @ [c]\<rparr>) else d)"

definition ensure_ct_source_tx :: "timestamp \<Rightarrow> string \<Rightarrow> unit txn" where
  "ensure_ct_source_tx now source d =
     and_then (validate_source source) (\<lambda>_. Inr ((), insert_checkpoint now source d))"

definition ensure_ct_source ::
  "'r store_cfg \<Rightarrow> faults \<Rightarrow> timestamp \<Rightarrow> string \<Rightarrow> 'r world \<Rightarrow> (store_error + unit) \<times> 'r world" where
  "ensure_ct_source cfg fl now source w = commit_ack cfg fl (ensure_ct_source_tx now source) w"

definition find_checkpoint :: "db \<Rightarrow> string \<Rightarrow> ct_checkpoint option" where
  "find_checkpoint d source = fetch_optional (\<lambda>c. cp_source c = source) (ct_checkpoints d)"

definition ct_checkpoint :: "db \<Rightarrow> string \<Rightarrow> store_error + u64 option" where
  "ct_checkpoint d source =
     and_then (validate_source source) (\<lambda>_.
       Inr (map_option (\<lambda>c. as_u64 (cp_position c)) (find_checkpoint d source)))"

definition mark_ct_feed_healthy_tx :: "timestamp \<Rightarrow> string \<Rightarrow> u64 \<Rightarrow> unit txn" where
  "mark_ct_feed_healthy_tx now source position d =
     and_then (validate_source source) (\<lambda>_.
       let p = (\<lambda>c. cp_source c = source \<and> cp_position c = as_i64 position)
       in if count_rows p (ct_checkpoints d) \<noteq> 1 then Inl SConflict
          else Inr ((), bump_fence 1 (d\<lparr>ct_checkpoints :=
             update_rows p (cp_observed_at_update (\<lambda>_. now)) (ct_checkpoints d)\<rparr>)))"

definition mark_ct_feed_healthy ::
  "'r store_cfg \<Rightarrow> faults \<Rightarrow> timestamp \<Rightarrow> string \<Rightarrow> u64 \<Rightarrow> 'r world \<Rightarrow> (store_error + unit) \<times> 'r world" where
  "mark_ct_feed_healthy cfg fl now source position w =
     commit_ack cfg fl (mark_ct_feed_healthy_tx now source position) w"

section \<open>Alerts\<close>

definition pending_ct_alerts :: "db \<Rightarrow> string \<Rightarrow> int \<Rightarrow> store_error + ct_alert list" where
  "pending_ct_alerts d source limit =
     and_then (validate_source source) (\<lambda>_.
       if 1 \<le> limit \<and> limit \<le> 100
       then Inr (select_limit (\<lambda>a. ca_source a = source \<and> ca_delivered_at a = None) ca_id (nat limit) (ct_alerts d))
       else Inl SInvalidRequest)"

definition mark_ct_alert_delivered_tx :: "timestamp \<Rightarrow> nat \<Rightarrow> unit txn" where
  "mark_ct_alert_delivered_tx now i d =
     (let p = (\<lambda>a. ca_id a = i \<and> ca_delivered_at a = None)
      in Inr ((), bump_fence (count_rows p (ct_alerts d))
           (d\<lparr>ct_alerts := update_rows p (ca_delivered_at_update (\<lambda>_. Some now)) (ct_alerts d)\<rparr>)))"

definition mark_ct_alert_delivered ::
  "'r store_cfg \<Rightarrow> faults \<Rightarrow> timestamp \<Rightarrow> nat \<Rightarrow> 'r world \<Rightarrow> (store_error + unit) \<times> 'r world" where
  "mark_ct_alert_delivered cfg fl now i w = commit_ack cfg fl (mark_ct_alert_delivered_tx now i) w"

text \<open>The casts to \<^verbatim>\<open>bigint\<close> round to the nearest integer.\<close>

definition lag_window :: "timestamp \<Rightarrow> int" where
  "lag_window now = (now + seconds 450) div seconds 900"

definition lag_seconds :: "timestamp \<Rightarrow> timestamp \<Rightarrow> int" where
  "lag_seconds now observed = (now - observed + 500000) div 1000000"

definition queue_ct_lag_alert_tx :: "timestamp \<Rightarrow> string \<Rightarrow> unit txn" where
  "queue_ct_lag_alert_tx now source d =
     and_then (validate_source source) (\<lambda>_.
       case fetch_optional (\<lambda>c. cp_source c = source \<and> cp_observed_at c < now - minutes 15) (ct_checkpoints d) of
         None \<Rightarrow> Inr ((), d)
       | Some c \<Rightarrow>
           let h = \<lparr>ch_id = next_health_id d, ch_source = source, ch_window = lag_window now,
                    ch_lag_seconds = lag_seconds now (cp_observed_at c), ch_delivered_at = None\<rparr>
           in if key_free (\<lambda>h. (ch_source h, ch_window h)) h (ct_health_alerts d)
              then Inr ((), bump_fence 1 (d\<lparr>ct_health_alerts := ct_health_alerts d @ [h],
                              next_health_id := Suc (next_health_id d)\<rparr>))
              else Inr ((), d))"

definition queue_ct_lag_alert ::
  "'r store_cfg \<Rightarrow> faults \<Rightarrow> timestamp \<Rightarrow> string \<Rightarrow> 'r world \<Rightarrow> (store_error + unit) \<times> 'r world" where
  "queue_ct_lag_alert cfg fl now source w = commit_ack cfg fl (queue_ct_lag_alert_tx now source) w"

definition pending_ct_lag_alerts :: "db \<Rightarrow> string \<Rightarrow> int \<Rightarrow> store_error + ct_health_alert list" where
  "pending_ct_lag_alerts d source limit =
     and_then (validate_source source) (\<lambda>_.
       if 1 \<le> limit \<and> limit \<le> 100
       then Inr (select_limit (\<lambda>h. ch_source h = source \<and> ch_delivered_at h = None) ch_id (nat limit)
              (ct_health_alerts d))
       else Inl SInvalidRequest)"

definition mark_ct_lag_alert_delivered_tx :: "timestamp \<Rightarrow> nat \<Rightarrow> unit txn" where
  "mark_ct_lag_alert_delivered_tx now i d =
     (let p = (\<lambda>h. ch_id h = i \<and> ch_delivered_at h = None)
      in Inr ((), bump_fence (count_rows p (ct_health_alerts d))
           (d\<lparr>ct_health_alerts := update_rows p (ch_delivered_at_update (\<lambda>_. Some now)) (ct_health_alerts d)\<rparr>)))"

definition mark_ct_lag_alert_delivered ::
  "'r store_cfg \<Rightarrow> faults \<Rightarrow> timestamp \<Rightarrow> nat \<Rightarrow> 'r world \<Rightarrow> (store_error + unit) \<times> 'r world" where
  "mark_ct_lag_alert_delivered cfg fl now i w = commit_ack cfg fl (mark_ct_lag_alert_delivered_tx now i) w"

definition ct_feed_lag_seconds :: "timestamp \<Rightarrow> db \<Rightarrow> string \<Rightarrow> int option" where
  "ct_feed_lag_seconds now d source =
     map_option (\<lambda>c. lag_seconds now (cp_observed_at c)) (find_checkpoint d source)"

section \<open>Expected certificates\<close>

record certificate_metadata =
  cm_hostname :: string
  cm_key_fingerprint :: string
  cm_acme_account_uri :: string
  cm_lineage :: string
  cm_not_before_ms :: u64
  cm_not_after_ms :: u64

text \<open>\<^verbatim>\<open>to_timestamp\<close> refuses instants outside the range of \<^verbatim>\<open>timestamptz\<close>.\<close>

definition timestamptz_range :: "int \<Rightarrow> bool" where
  "timestamptz_range ms \<longleftrightarrow> - 210866803200000 \<le> ms \<and> ms < 9224318016000000"

definition insert_certificate :: "certificate \<Rightarrow> db \<Rightarrow> store_error + db" where
  "insert_certificate c d =
     (if \<not> timestamptz_range (ce_not_before_ms c) \<or> \<not> timestamptz_range (ce_not_after_ms c)
      then Inl SUnavailable
      else if key_free (\<lambda>c. (ce_installation c, ce_fingerprint c)) c (certificates d)
      then Inr (d\<lparr>certificates := certificates d @ [c]\<rparr>) else Inr d)"

definition record_certificate_tx :: "uuid \<Rightarrow> certificate_metadata \<Rightarrow> unit txn" where
  "record_certificate_tx i m d =
     (case validate_hostname (cm_hostname m) of
        Inl _ \<Rightarrow> Inl SInvalidRequest
      | Inr _ \<Rightarrow>
          and_then (validate_fingerprint (cm_key_fingerprint m)) (\<lambda>_.
          if cm_lineage m = [] \<or> length (cm_lineage m) > 128 \<or> cm_not_after_ms m \<le> cm_not_before_ms m
          then Inl SInvalidRequest
          else and_then (ok_or SConflict
                 (fetch_optional (\<lambda>r. in_id r = i \<and> in_state r = DnsReady) (installations d))) (\<lambda>r.
          if in_hostname r \<noteq> cm_hostname m \<or> in_acme r \<noteq> Some (cm_acme_account_uri m) then Inl SConflict
          else and_then (insert_certificate \<lparr>ce_installation = i, ce_fingerprint = cm_key_fingerprint m,
                 ce_lineage = cm_lineage m, ce_not_before_ms = as_i64 (cm_not_before_ms m),
                 ce_not_after_ms = as_i64 (cm_not_after_ms m)\<rparr> d) (\<lambda>d.
               Inr ((), insert_audit i None ''certificate_expected'' d)))))"

definition record_expected_certificate ::
  "'r store_cfg \<Rightarrow> faults \<Rightarrow> uuid \<Rightarrow> certificate_metadata \<Rightarrow> 'r world \<Rightarrow> (store_error + unit) \<times> 'r world" where
  "record_expected_certificate cfg fl i m w = commit_ack cfg fl (record_certificate_tx i m) w"

section \<open>Observations\<close>

definition expected_certificate :: "db \<Rightarrow> uuid option \<Rightarrow> string \<Rightarrow> bool" where
  "expected_certificate d i fingerprint \<longleftrightarrow>
     (case i of None \<Rightarrow> False
      | Some i \<Rightarrow> exists_row (\<lambda>c. ce_installation c = i \<and> ce_fingerprint c = fingerprint) (certificates d))"

definition insert_observation :: "ct_observation \<Rightarrow> db \<Rightarrow> store_error + db" where
  "insert_observation ob d =
     (if key_free (\<lambda>ob. (co_source ob, co_position ob)) ob (ct_observations d)
      then Inr (d\<lparr>ct_observations := ct_observations d @ [ob]\<rparr>) else Inl SUnavailable)"

definition insert_alert :: "ct_observation \<Rightarrow> db \<Rightarrow> store_error + db" where
  "insert_alert ob d =
     (let a = \<lparr>ca_id = next_alert_id d, ca_source = co_source ob, ca_position = co_position ob,
               ca_installation = co_installation ob, ca_hostname = co_hostname ob,
               ca_fingerprint = co_fingerprint ob, ca_delivered_at = None\<rparr>
      in if key_free (\<lambda>a. (ca_source a, ca_position a)) a (ct_alerts d)
         then Inr (bump_fence 1 (d\<lparr>ct_alerts := ct_alerts d @ [a], next_alert_id := Suc (next_alert_id d)\<rparr>))
         else Inl SUnavailable)"

text \<open>The alert and audit record of an unexpected certificate.\<close>

definition alert_unexpected :: "ct_observation \<Rightarrow> db \<Rightarrow> store_error + db" where
  "alert_unexpected ob d =
     (if co_expected ob then Inr d
      else and_then (insert_alert ob d) (\<lambda>d.
        Inr (case co_installation ob of None \<Rightarrow> d | Some i \<Rightarrow> insert_audit i None ''unexpected_ct'' d)))"

definition move_checkpoint :: "timestamp \<Rightarrow> string \<Rightarrow> int \<Rightarrow> db \<Rightarrow> db" where
  "move_checkpoint now source position d =
     bump_fence (count_rows (\<lambda>c. cp_source c = source) (ct_checkpoints d))
       (d\<lparr>ct_checkpoints := update_rows (\<lambda>c. cp_source c = source)
           (\<lambda>c. c\<lparr>cp_position := position, cp_observed_at := now\<rparr>) (ct_checkpoints d)\<rparr>)"

text \<open>A position at or below the checkpoint replays; the transaction is then dropped.\<close>

definition replay_ct :: "db \<Rightarrow> string \<Rightarrow> int \<Rightarrow> string \<Rightarrow> string \<Rightarrow> store_error + bool" where
  "replay_ct d source position host fingerprint =
     and_then (ok_or SConflict (fetch_optional (\<lambda>ob. co_source ob = source \<and> co_position ob = position)
       (ct_observations d))) (\<lambda>ob.
     if co_hostname ob \<noteq> host \<or> co_fingerprint ob \<noteq> fingerprint then Inl SConflict
     else Inr (co_expected ob))"

definition observe_ct_tx :: "timestamp \<Rightarrow> string \<Rightarrow> u64 \<Rightarrow> string \<Rightarrow> string \<Rightarrow> bool txn" where
  "observe_ct_tx now source position host fingerprint d =
     (case validate_hostname host of
        Inl _ \<Rightarrow> Inl SInvalidRequest
      | Inr _ \<Rightarrow>
          and_then (validate_fingerprint fingerprint) (\<lambda>_.
          if validate_source source \<noteq> Inr () \<or> position = 0 \<or> uint position \<ge> 2 ^ 63
          then Inl SInvalidRequest
          else
            let d1 = insert_checkpoint now source d in
            and_then (ok_or SUnavailable (find_checkpoint d1 source)) (\<lambda>c.
            if position \<le> as_u64 (cp_position c)
            then and_then (replay_ct d1 source (as_i64 position) host fingerprint) (\<lambda>x. Inr (x, d))
            else if position \<noteq> as_u64 (cp_position c) + 1 then Inl SConflict
            else
              let i = map_option in_id (fetch_optional (\<lambda>r. in_hostname r = host) (installations d1));
                  ob = \<lparr>co_source = source, co_position = as_i64 position, co_installation = i,
                        co_hostname = host, co_fingerprint = fingerprint,
                        co_expected = expected_certificate d1 i fingerprint\<rparr>
              in and_then (insert_observation ob d1) (\<lambda>d2.
                 and_then (alert_unexpected ob d2) (\<lambda>d3.
                   Inr (co_expected ob, move_checkpoint now source (as_i64 position) d3))))))"

definition observe_ct ::
  "'r store_cfg \<Rightarrow> faults \<Rightarrow> timestamp \<Rightarrow> string \<Rightarrow> u64 \<Rightarrow> string \<Rightarrow> string \<Rightarrow> 'r world
     \<Rightarrow> (store_error + bool) \<times> 'r world" where
  "observe_ct cfg fl now source position host fingerprint w =
     commit_ack cfg fl (observe_ct_tx now source position host fingerprint) w"

end
