(* ===== verification/Store_Steps.thy ===== *)
theory Store_Steps
  imports Store_Ct
begin

text \<open>
  The store as a state machine: every transaction of the store's operations is one step of
  the database at its own time, in any order and from any process. A step carries the
  result the caller saw, so a run is a history of the requests. The lemmas relate the
  public operations to the steps they take; the two sweeps are runs of several steps.
\<close>

record store_params =
  k_prims :: prims
  k_b32 :: "bytes \<Rightarrow> string"
  k_acme :: acme_environment
  k_windows :: credential_windows

datatype store_op =
    CreateChallenge string ip_addr
  | ConsumeChallenge string ip_addr
  | Prune timestamp int
  | ConsumeNonce uuid string
  | IssueBearer uuid uuid string bytes int
  | RenewBearer uuid uuid string u64 string bytes
  | RegisterAcme uuid string
  | MarkDnsReady uuid
  | EnsureChallenge uuid u64 string
  | MarkReconciled uuid u64
  | Allocate uuid bytes uuid bytes string
  | ClaimTunnel uuid string int
  | RenewTunnel uuid string u64
  | ExpirePending uuid
  | ExpireValues uuid
  | Retire uuid uuid
  | Relocate uuid uuid string
  | CompleteJob nat
  | DeferJob nat
  | EnsureCtSource string
  | MarkFeedHealthy string u64
  | AlertDelivered nat
  | QueueLagAlert string
  | LagAlertDelivered nat
  | RecordCertificate uuid certificate_metadata
  | ObserveCt string u64 string string

datatype op_value = VUnit | VBool bool | VCount u64 | VReceipt u64 u64 | VAllocation allocation

text \<open>A transaction with its result as an \<open>op_value\<close>.\<close>

definition tx_value :: "('a \<Rightarrow> op_value) \<Rightarrow> 'a txn \<Rightarrow> op_value txn" where
  "tx_value f tx d = (case tx d of Inl e \<Rightarrow> Inl e | Inr (a, d') \<Rightarrow> Inr (f a, d'))"

fun perform :: "store_params \<Rightarrow> timestamp \<Rightarrow> store_op \<Rightarrow> op_value txn" where
  "perform K now (CreateChallenge nonce source) =
     (\<lambda>d. if over_quota now source d then Inr (VBool False, d)
          else tx_value VBool (insert_challenge now nonce source) d)"
| "perform K now (ConsumeChallenge nonce source) = tx_value VBool (consume_challenge now nonce source)"
| "perform K now (Prune now' limit) = tx_value VCount (prune_rows now now' limit)"
| "perform K now (ConsumeNonce i nonce) = tx_value VBool (insert_nonce now i nonce)"
| "perform K now (IssueBearer i op scope th validity) =
     tx_value (\<lambda>(g, e). VReceipt g e) (issue_bearer_tx (k_prims K) (k_windows K) now i op scope th validity)"
| "perform K now (RenewBearer i op scope g token th) =
     tx_value (\<lambda>(g, e). VReceipt g e) (renew_bearer_tx (k_prims K) (k_windows K) now i op scope g token th)"
| "perform K now (RegisterAcme i uri) = tx_value (\<lambda>_. VUnit) (register_acme_tx (k_acme K) now i uri)"
| "perform K now (MarkDnsReady i) = tx_value (\<lambda>_. VUnit) (mark_dns_ready_tx i)"
| "perform K now (EnsureChallenge i g txt) =
     tx_value (\<lambda>(r, e). VReceipt r e) (ensure_challenge_tx now i g txt)"
| "perform K now (MarkReconciled i r) = tx_value VBool (reconciled_tx i r)"
| "perform K now (Allocate i random op key placement) =
     tx_value VAllocation (allocate_tx (k_b32 K) now i random op key placement)"
| "perform K now (ClaimTunnel i gateway ttl) = tx_value VCount (claim_tunnel_tx now i gateway ttl)"
| "perform K now (RenewTunnel i gateway g) = tx_value VBool (renew_lease now i gateway g)"
| "perform K now (ExpirePending i) = tx_value VBool (expire_pending_tx now i)"
| "perform K now (ExpireValues i) = tx_value VBool (expire_values_tx now i)"
| "perform K now (Retire i op) = tx_value (\<lambda>_. VUnit) (retire_tx (k_prims K) now i op)"
| "perform K now (Relocate i op placement) =
     tx_value (\<lambda>_. VUnit) (relocate_tx (k_prims K) now i op placement)"
| "perform K now (CompleteJob j) = tx_value (\<lambda>_. VUnit) (complete_tx now j)"
| "perform K now (DeferJob j) = tx_value (\<lambda>_. VUnit) (defer_tx now j)"
| "perform K now (EnsureCtSource source) = tx_value (\<lambda>_. VUnit) (ensure_ct_source_tx now source)"
| "perform K now (MarkFeedHealthy source position) =
     tx_value (\<lambda>_. VUnit) (mark_ct_feed_healthy_tx now source position)"
| "perform K now (AlertDelivered i) = tx_value (\<lambda>_. VUnit) (mark_ct_alert_delivered_tx now i)"
| "perform K now (QueueLagAlert source) = tx_value (\<lambda>_. VUnit) (queue_ct_lag_alert_tx now source)"
| "perform K now (LagAlertDelivered i) = tx_value (\<lambda>_. VUnit) (mark_ct_lag_alert_delivered_tx now i)"
| "perform K now (RecordCertificate i m) = tx_value (\<lambda>_. VUnit) (record_certificate_tx i m)"
| "perform K now (ObserveCt source position host fingerprint) =
     tx_value VBool (observe_ct_tx now source position host fingerprint)"

lemma tx_value_Inr: "tx_value f tx d = Inr (v, d') \<longleftrightarrow> (\<exists>a. tx d = Inr (a, d') \<and> v = f a)"
  by (auto simp: tx_value_def split: sum.splits)

text \<open>
  The clock and the database. Time does not run backwards from one transaction to the next;
  a failed transaction leaves the database alone.
\<close>

type_synonym store_state = "timestamp \<times> db"
type_synonym store_event = "timestamp \<times> store_op \<times> (store_error + op_value)"

inductive store_step :: "store_params \<Rightarrow> store_state \<Rightarrow> store_event \<Rightarrow> store_state \<Rightarrow> bool"
  for K :: store_params where
  committed: "perform K t op d = Inr (v, d') \<Longrightarrow> now \<le> t \<Longrightarrow>
    store_step K (now, d) (t, op, Inr v) (t, d')"
| failed: "perform K t op d = Inl e \<Longrightarrow> now \<le> t \<Longrightarrow>
    store_step K (now, d) (t, op, Inl e) (t, d)"

inductive_cases store_stepE: "store_step K s e s'"

lemma store_step_committed:
  assumes "store_step K (now, d) (t, op, Inr v) (t', d')"
  shows "perform K t op d = Inr (v, d') \<and> now \<le> t \<and> t' = t"
  using assms by (auto elim: store_stepE)

lemma store_step_time: "store_step K (now, d) (t, op, res) (t', d') \<Longrightarrow> now \<le> t \<and> t' = t"
  by (auto elim: store_stepE)

text \<open>Every request of the store has a step at any later time: the machine never blocks.\<close>

lemma store_step_total:
  assumes "now \<le> t"
  shows "\<exists>res d'. store_step K (now, d) (t, op, res) (t, d')"
proof (cases "perform K t op d")
  case (Inl e)
  then show ?thesis using assms by (blast intro: store_step.failed)
next
  case (Inr b)
  then show ?thesis using assms by (cases b) (blast intro: store_step.committed)
qed

section \<open>The public operations\<close>

text \<open>The database after a transaction, whether or not it committed.\<close>

definition effect :: "'a txn \<Rightarrow> db \<Rightarrow> db" where
  "effect tx d = (case tx d of Inl _ \<Rightarrow> d | Inr (_, d') \<Rightarrow> d')"

lemma effect_tx_value [simp]: "effect (tx_value f tx) d = effect tx d"
  by (auto simp: effect_def tx_value_def split: sum.splits)

lemma effect_step: "\<exists>res. store_step K (now, d) (now, op, res) (now, effect (perform K now op) d)"
proof (cases "perform K now op d")
  case (Inl e)
  then show ?thesis
    using store_step.failed [of K now op d e now] by (auto simp: effect_def)
next
  case (Inr b)
  then show ?thesis
    using store_step.committed [of K now op d "fst b" "snd b" now] by (cases b) (auto simp: effect_def)
qed

definition params_of :: "prims \<Rightarrow> (bytes \<Rightarrow> string) \<Rightarrow> 'r store_cfg \<Rightarrow> store_params" where
  "params_of P b32 cfg = \<lparr>k_prims = P, k_b32 = b32, k_acme = sc_acme cfg, k_windows = sc_windows cfg\<rparr>"

lemma commit_ack_effect: "w_db (snd (commit_ack cfg fl tx w)) = effect tx (w_db w)"
  by (simp add: commit_ack_db effect_def)

lemma autocommit_effect: "w_db (snd (autocommit tx w)) = effect tx (w_db w)"
  by (simp add: autocommit_db effect_def)

lemma acknowledge_cases:
  obtains e w' where "acknowledge cfg fl w = (Inl e, w')" "w_db w' = w_db w"
  | w' where "acknowledge cfg fl w = (Inr (), w')" "w_db w' = w_db w"
proof -
  obtain x w' where ack: "acknowledge cfg fl w = (x, w')" by fastforce
  with acknowledge_db [of cfg fl w] have "w_db w' = w_db w" by simp
  with ack that show thesis by (cases x) simp_all
qed

lemma verified_effect:
  "w_db (snd (verified cfg fl (commit_ack cfg fl' tx) w)) \<in> {w_db w, effect tx (w_db w)}"
  by (rule acknowledge_cases [of cfg fl w]) (auto simp: verified_def commit_ack_effect)

lemma expire_pending_one_effect:
  "w_db (snd (expire_pending_one cfg fl now i w)) = effect (expire_pending_tx now i) (w_db w)"
proof (cases "expire_pending_tx now i (w_db w)")
  case (Inr b)
  then obtain x d' where b: "expire_pending_tx now i (w_db w) = Inr (x, d')" by (cases b) auto
  then have "x \<or> d' = w_db w" by (cases rule: expire_pending_tx_Inr) auto
  with b show ?thesis by (cases x) (auto simp: expire_pending_one_def effect_def commit_ack_db)
qed (simp add: expire_pending_one_def effect_def commit_ack_db)

text \<open>What each public operation does to the database is one step of the machine.\<close>

lemma public_effects:
  fixes cfg :: "'r store_cfg" and w :: "'r world"
  assumes K: "K = params_of P b32 cfg"
  shows "w_db (snd (create_bootstrap_challenge cfg fl now nonce source w))
      = effect (perform K now (CreateChallenge nonce source)) (w_db w)"
    and "w_db (snd (consume_bootstrap_challenge now nonce source w))
      = effect (perform K now (ConsumeChallenge nonce source)) (w_db w)"
    and "w_db (snd (prune_bootstrap_and_nonces cfg fl now now' limit w))
      = effect (perform K now (Prune now' limit)) (w_db w)"
    and "w_db (snd (consume_nonce now i nonce w)) = effect (perform K now (ConsumeNonce i nonce)) (w_db w)"
    and "w_db (snd (issue_bearer P cfg fl now i op scope th validity w))
      = effect (perform K now (IssueBearer i op scope th validity)) (w_db w)"
    and "w_db (snd (renew_bearer P cfg fl now i op scope g token th w))
      = effect (perform K now (RenewBearer i op scope g token th)) (w_db w)"
    and "w_db (snd (register_acme_account cfg fl now i uri w))
      = effect (perform K now (RegisterAcme i uri)) (w_db w)"
    and "w_db (snd (mark_dns_ready cfg fl i w)) = effect (perform K now (MarkDnsReady i)) (w_db w)"
    and "w_db (snd (ensure_challenge_value cfg fl now i g txt w))
      = effect (perform K now (EnsureChallenge i g txt)) (w_db w)"
    and "w_db (snd (mark_challenge_reconciled cfg fl i g w))
      = effect (perform K now (MarkReconciled i g)) (w_db w)"
    and "w_db (snd (allocate b32 cfg fl now i random op key placement w))
      = effect (perform K now (Allocate i random op key placement)) (w_db w)"
    and "w_db (snd (claim_tunnel cfg fl now i gateway ttl w))
      = effect (perform K now (ClaimTunnel i gateway ttl)) (w_db w)"
    and "w_db (snd (renew_tunnel now i gateway g w))
      = effect (perform K now (RenewTunnel i gateway g)) (w_db w)"
    and "w_db (snd (retire P cfg fl now i op w)) = effect (perform K now (Retire i op)) (w_db w)"
    and "w_db (snd (relocate P cfg fl now i op placement w))
      = effect (perform K now (Relocate i op placement)) (w_db w)"
    and "w_db (snd (expire_pending_one cfg fl now i w))
      = effect (perform K now (ExpirePending i)) (w_db w)"
  unfolding K
  by (simp_all add: params_of_def create_bootstrap_challenge_def consume_bootstrap_challenge_def
      prune_bootstrap_and_nonces_def consume_nonce_def issue_bearer_def renew_bearer_def
      register_acme_account_def mark_dns_ready_def ensure_challenge_value_def
      mark_challenge_reconciled_def allocate_def claim_tunnel_def renew_tunnel_def retire_def
      relocate_def commit_ack_effect autocommit_effect expire_pending_one_effect)
    (simp add: effect_def tx_value_def split: sum.split)

lemma ct_effects:
  fixes cfg :: "'r store_cfg" and w :: "'r world"
  shows "w_db (snd (ensure_ct_source cfg fl now source w))
      = effect (perform K now (EnsureCtSource source)) (w_db w)"
    and "w_db (snd (mark_ct_feed_healthy cfg fl now source position w))
      = effect (perform K now (MarkFeedHealthy source position)) (w_db w)"
    and "w_db (snd (mark_ct_alert_delivered cfg fl now j w))
      = effect (perform K now (AlertDelivered j)) (w_db w)"
    and "w_db (snd (queue_ct_lag_alert cfg fl now source w))
      = effect (perform K now (QueueLagAlert source)) (w_db w)"
    and "w_db (snd (mark_ct_lag_alert_delivered cfg fl now j w))
      = effect (perform K now (LagAlertDelivered j)) (w_db w)"
    and "w_db (snd (record_expected_certificate cfg fl i m w))
      = effect (perform K now (RecordCertificate i m)) (w_db w)"
    and "w_db (snd (observe_ct cfg fl now source position host fingerprint w))
      = effect (perform K now (ObserveCt source position host fingerprint)) (w_db w)"
  by (simp_all add: ensure_ct_source_def mark_ct_feed_healthy_def mark_ct_alert_delivered_def
      queue_ct_lag_alert_def mark_ct_lag_alert_delivered_def record_expected_certificate_def
      observe_ct_def commit_ack_effect)

end
