(* ===== verification/Store_Invariant.thy ===== *)
theory Store_Invariant
  imports Store_Steps
begin

text \<open>
  The invariant of the store and the order its histories follow. The invariant says what
  every reachable database satisfies: permanent and unique hostnames, references between
  tables, generations that dominate every credential and lease, one usable credential per
  scope, leases and challenge values only of ready installations, and bounded challenge
  sets. The order says what never happens: an installation never changes its hostname or
  key, leaves retirement or loses a generation, and the restore fence never falls.
\<close>

section \<open>The invariant\<close>

definition row_with :: "installation list \<Rightarrow> uuid \<Rightarrow> (installation \<Rightarrow> bool) \<Rightarrow> bool" where
  "row_with t i q \<longleftrightarrow> (\<exists>r \<in> set t. in_id r = i \<and> q r)"

lemma joined_row_with: "joined d q i \<longleftrightarrow> row_with (installations d) i q"
  by (simp add: joined_def row_with_def exists_row_iff)

text \<open>Identifiers and hostnames are unique, and the reservations are the hostnames ever given.\<close>

definition ident_ok :: "db \<Rightarrow> bool" where
  "ident_ok d \<longleftrightarrow>
     unique_key in_id (installations d) \<and> unique_key in_hostname (installations d)
     \<and> map (\<lambda>v. (rv_hostname v, rv_installation v)) (reservations d)
       = map (\<lambda>r. (in_hostname r, in_id r)) (installations d)"

definition row_ok :: "installation \<Rightarrow> bool" where
  "row_ok r \<longleftrightarrow> 1 \<le> in_generation r \<and> in_generation r \<le> BIGINT_MAX
     \<and> (in_state r = Retired \<longleftrightarrow> in_retired_at r \<noteq> None)
     \<and> (in_state r = DnsReady \<longrightarrow> in_acme r \<noteq> None)
     \<and> placement_ok (in_placement r)"

definition operations_ok :: "db \<Rightarrow> bool" where
  "operations_ok d \<longleftrightarrow> unique_key op_id (operations d)
     \<and> (\<forall>x \<in> set (operations d). row_with (installations d) (op_installation x) (\<lambda>_. True))"

definition credentials_ok :: "db \<Rightarrow> bool" where
  "credentials_ok d \<longleftrightarrow> unique_key credential_key (credentials d)
     \<and> (\<forall>c \<in> set (credentials d). bearer_scope (cr_scope c) \<and> 1 \<le> cr_generation c
          \<and> row_with (installations d) (cr_installation c) (\<lambda>r. cr_generation c \<le> in_generation r))
     \<and> (\<forall>c \<in> set (credentials d). \<forall>c' \<in> set (credentials d). cr_revoked_at c = None
          \<longrightarrow> cr_installation c' = cr_installation c \<longrightarrow> cr_scope c' = cr_scope c
          \<longrightarrow> cr_generation c' \<le> cr_generation c)"

definition lease_ok :: "installation list \<Rightarrow> tunnel_lease \<Rightarrow> bool" where
  "lease_ok t l \<longleftrightarrow> row_with t (tl_installation l) (\<lambda>r. in_state r = DnsReady
     \<and> in_placement r = tl_gateway l \<and> 1 \<le> tl_generation l \<and> tl_generation l \<le> in_generation r)"

definition leases_ok :: "db \<Rightarrow> bool" where
  "leases_ok d \<longleftrightarrow> unique_key tl_installation (tunnel_leases d)
     \<and> (\<forall>l \<in> set (tunnel_leases d). lease_ok (installations d) l)"

definition state_ok :: "challenge_state \<Rightarrow> bool" where
  "state_ok s \<longleftrightarrow> 0 \<le> cs_revision s \<and> cs_revision s \<le> BIGINT_MAX
     \<and> (case cs_ready s of None \<Rightarrow> True | Some q \<Rightarrow> q \<le> cs_revision s)"

definition challenges_ok :: "db \<Rightarrow> bool" where
  "challenges_ok d \<longleftrightarrow> unique_key value_key (challenge_values d)
     \<and> unique_key cs_installation (challenge_states d)
     \<and> (\<forall>s \<in> set (challenge_states d). state_ok s)
     \<and> (\<forall>v \<in> set (challenge_values d).
          row_with (installations d) (cv_installation v) (\<lambda>r. in_state r = DnsReady)
          \<and> cv_installation v \<in> cs_installation ` set (challenge_states d)
          \<and> validate_challenge_value (cv_txt v) = Inr ())
     \<and> (\<forall>i. count_rows (\<lambda>v. cv_installation v = i) (challenge_values d) \<le> MAX_LIVE_CHALLENGE_VALUES)"

definition store_ok :: "db \<Rightarrow> bool" where
  "store_ok d \<longleftrightarrow> ident_ok d \<and> (\<forall>r \<in> set (installations d). row_ok r) \<and> operations_ok d
     \<and> credentials_ok d \<and> leases_ok d \<and> challenges_ok d"

lemma store_okI:
  "ident_ok d \<Longrightarrow> \<forall>r \<in> set (installations d). row_ok r \<Longrightarrow> operations_ok d \<Longrightarrow> credentials_ok d
    \<Longrightarrow> leases_ok d \<Longrightarrow> challenges_ok d \<Longrightarrow> store_ok d"
  by (simp add: store_ok_def)

lemma store_okD:
  assumes "store_ok d"
  shows "ident_ok d" and "\<And>r. r \<in> set (installations d) \<Longrightarrow> row_ok r" and "operations_ok d"
    and "credentials_ok d" and "leases_ok d" and "challenges_ok d"
  using assms by (simp_all add: store_ok_def)

lemma empty_db_ok: "store_ok empty_db"
  by (simp add: store_ok_def empty_db_def ident_ok_def operations_ok_def credentials_ok_def
      leases_ok_def challenges_ok_def count_rows_def)

section \<open>Changes to the table of installations\<close>

lemma row_with_update:
  assumes "\<And>r. p r \<Longrightarrow> in_id (f r) = in_id r"
  shows "row_with (update_rows p f t) i q \<longleftrightarrow> row_with t i (\<lambda>r. if p r then q (f r) else q r)"
  unfolding row_with_def set_update_rows bex_simps(7) by (intro bex_cong) (auto simp: assms)

lemma row_with_append [simp]: "row_with (t @ [r]) i q \<longleftrightarrow> row_with t i q \<or> in_id r = i \<and> q r"
  by (auto simp: row_with_def)

lemma row_with_mono:
  assumes "row_with t i q" and "\<And>r. r \<in> set t \<Longrightarrow> in_id r = i \<Longrightarrow> q r \<Longrightarrow> q' r"
  shows "row_with t i q'"
  using assms by (auto simp: row_with_def)

text \<open>
  An update that keeps the identity of a row and does not lower its generation. What the
  other tables say of rows outside the update, or of what the update keeps, stays true.
\<close>

definition keeps_identity :: "(installation \<Rightarrow> bool) \<Rightarrow> (installation \<Rightarrow> installation) \<Rightarrow> bool" where
  "keeps_identity p f \<longleftrightarrow> (\<forall>r. p r \<longrightarrow> in_id (f r) = in_id r \<and> in_hostname (f r) = in_hostname r
     \<and> in_admin_key (f r) = in_admin_key r \<and> in_generation r \<le> in_generation (f r))"

lemma row_with_keeps:
  assumes "keeps_identity p f" and "row_with t i q"
    and "\<And>r. r \<in> set t \<Longrightarrow> in_id r = i \<Longrightarrow> q r \<Longrightarrow> if p r then q' (f r) else q' r"
  shows "row_with (update_rows p f t) i q'"
  using assms by (subst row_with_update) (auto simp: keeps_identity_def intro: row_with_mono)

lemma ident_ok_update:
  assumes "ident_ok d" and "keeps_identity p f"
    and "installations d' = update_rows p f (installations d)" and "reservations d' = reservations d"
  shows "ident_ok d'"
proof -
  have "map (\<lambda>r. (in_hostname r, in_id r)) (update_rows p f (installations d))
      = map (\<lambda>r. (in_hostname r, in_id r)) (installations d)"
    using assms(2) by (intro map_update_rows) (auto simp: keeps_identity_def)
  with assms show ?thesis by (auto simp: ident_ok_def keeps_identity_def unique_key_update)
qed

lemma operations_ok_update:
  assumes "operations_ok d" and "keeps_identity p f"
    and "installations d' = update_rows p f (installations d)" and "operations d' = operations d"
  shows "operations_ok d'"
  using assms by (auto simp: operations_ok_def intro: row_with_keeps)

lemma operations_ok_snoc:
  assumes "operations_ok d" and "row_with (installations d) (op_installation x) (\<lambda>_. True)"
    and "key_free op_id x (operations d)"
    and "installations d' = installations d" and "operations d' = operations d @ [x]"
  shows "operations_ok d'"
  using assms by (auto simp: operations_ok_def)

lemma credentials_ok_update:
  assumes "credentials_ok d" and "keeps_identity p f"
    and "installations d' = update_rows p f (installations d)" and "credentials d' = credentials d"
  shows "credentials_ok d'"
proof -
  have "row_with (update_rows p f (installations d)) i (\<lambda>r. n \<le> in_generation r)"
    if "row_with (installations d) i (\<lambda>r. n \<le> in_generation r)" for i n
    using assms(2) by (intro row_with_keeps [OF assms(2) that]) (auto simp: keeps_identity_def dest: order_trans)
  with assms show ?thesis by (auto simp: credentials_ok_def)
qed

lemma delete_rows_False [simp]: "delete_rows (\<lambda>_. False) t = t"
  by (simp add: delete_rows_none)

lemma leases_ok_change:
  assumes ok: "leases_ok d" and keeps: "keeps_identity p f"
    and t: "installations d' = update_rows p f (installations d)"
    and leases: "tunnel_leases d' = delete_rows q (tunnel_leases d)"
    and served: "\<And>l r. \<not> q l \<Longrightarrow> p r \<Longrightarrow> in_id r = tl_installation l \<Longrightarrow> in_state r = DnsReady
      \<Longrightarrow> in_state (f r) = DnsReady \<and> in_placement (f r) = in_placement r"
  shows "leases_ok d'"
proof -
  have "lease_ok (installations d') l" if "l \<in> set (tunnel_leases d)" "\<not> q l" for l
  proof -
    from ok that have "lease_ok (installations d) l" by (simp add: leases_ok_def)
    then show ?thesis
      unfolding lease_ok_def t
      by (rule row_with_keeps [OF keeps]) (use keeps served [OF that(2)] in \<open>fastforce simp: keeps_identity_def\<close>)
  qed
  with ok leases show ?thesis by (simp add: leases_ok_def)
qed

lemma challenges_ok_change:
  assumes ok: "challenges_ok d" and keeps: "keeps_identity p f"
    and t: "installations d' = update_rows p f (installations d)"
    and vals: "challenge_values d' = delete_rows q (challenge_values d)"
    and states: "challenge_states d' = challenge_states d"
    and ready: "\<And>v r. \<not> q v \<Longrightarrow> p r \<Longrightarrow> in_id r = cv_installation v \<Longrightarrow> in_state r = DnsReady
      \<Longrightarrow> in_state (f r) = DnsReady"
  shows "challenges_ok d'"
proof -
  have "row_with (installations d') (cv_installation v) (\<lambda>r. in_state r = DnsReady)"
    if "v \<in> set (challenge_values d)" "\<not> q v" for v
  proof -
    from ok that have "row_with (installations d) (cv_installation v) (\<lambda>r. in_state r = DnsReady)"
      by (simp add: challenges_ok_def)
    then show ?thesis
      unfolding t by (rule row_with_keeps [OF keeps]) (use ready [OF that(2)] in auto)
  qed
  moreover have "count_rows (\<lambda>v. cv_installation v = i) (challenge_values d') \<le> MAX_LIVE_CHALLENGE_VALUES" for i
  proof -
    have "count_rows (\<lambda>v. cv_installation v = i \<and> \<not> q v) (challenge_values d)
        \<le> count_rows (\<lambda>v. cv_installation v = i) (challenge_values d)"
      by (rule count_rows_mono) simp
    also have "\<dots> \<le> MAX_LIVE_CHALLENGE_VALUES" using ok by (simp add: challenges_ok_def)
    finally show ?thesis by (simp add: vals count_rows_delete)
  qed
  ultimately show ?thesis
    using ok vals states by (auto simp: challenges_ok_def)
qed

text \<open>Steps that touch none of these tables keep the invariant.\<close>

definition same_core :: "db \<Rightarrow> db \<Rightarrow> bool" where
  "same_core d d' \<longleftrightarrow> installations d' = installations d \<and> reservations d' = reservations d
     \<and> operations d' = operations d \<and> credentials d' = credentials d
     \<and> tunnel_leases d' = tunnel_leases d \<and> challenge_values d' = challenge_values d
     \<and> challenge_states d' = challenge_states d"

lemma same_core_ok: "same_core d d' \<Longrightarrow> store_ok d \<Longrightarrow> store_ok d'"
  by (simp add: same_core_def store_ok_def ident_ok_def operations_ok_def credentials_ok_def
      leases_ok_def challenges_ok_def)

section \<open>The operations on installations\<close>

lemma row_ok_update:
  assumes "\<forall>r \<in> set t. row_ok r" and "\<And>r. r \<in> set t \<Longrightarrow> p r \<Longrightarrow> row_ok (f r)"
  shows "\<forall>r \<in> set (update_rows p f t). row_ok r"
  using assms by (auto simp: ball_update_rows)

lemma allocate_ok:
  assumes "store_ok d" and "allocate_tx b32 now i random op key placement d = Inr (a, d')"
  shows "store_ok d'"
proof (cases "operation_installation d op")
  case None
  define r where "r = new_installation b32 now i random key placement"
  from assms(2) have d': "placement_ok placement" "key_free in_id r (installations d)"
    "key_free in_hostname r (installations d)"
    "key_free op_id (allocate_operation now op r) (operations d)"
    "installations d' = installations d @ [r]"
    "reservations d' = reservations d @ [\<lparr>rv_hostname = in_hostname r, rv_installation = i\<rparr>]"
    "operations d' = operations d @ [allocate_operation now op r]"
    "credentials d' = credentials d" "tunnel_leases d' = tunnel_leases d"
    "challenge_values d' = challenge_values d" "challenge_states d' = challenge_states d"
    unfolding allocate_fresh [OF None r_def] by (simp_all add: insert_audit_def insert_outbox_def)
  have r: "in_id r = i" "row_ok r" "op_installation (allocate_operation now op r) = i"
    using d'(1) by (simp_all add: r_def row_ok_def BIGINT_MAX_def allocate_operation_def)
  note ok = store_okD [OF assms(1)]
  show ?thesis
  proof (rule store_okI)
    show "ident_ok d'" using ok(1) r d'(2,3,5,6) by (simp add: ident_ok_def)
    show "\<forall>r \<in> set (installations d'). row_ok r" using ok(2) r d'(5) by auto
    show "operations_ok d'" using ok(3) r d'(4,5,7) by (auto simp: operations_ok_def)
    show "credentials_ok d'" using ok(4) d'(5,8) by (auto simp: credentials_ok_def)
    show "leases_ok d'" using ok(5) d'(5,9) by (auto simp: leases_ok_def lease_ok_def)
    show "challenges_ok d'" using ok(6) d'(5,10,11) by (auto simp: challenges_ok_def)
  qed
qed (use assms in \<open>simp add: allocate_replay\<close>)

text \<open>
  An update of rows that serves nothing less: the tables other than the installations are
  untouched and no ready row leaves the ready state or its placement.
\<close>

lemma store_ok_update:
  assumes "store_ok d" and keeps: "keeps_identity p f"
    and rows: "\<And>r. r \<in> set (installations d) \<Longrightarrow> p r \<Longrightarrow> row_ok (f r)"
    and served: "\<And>r. p r \<Longrightarrow> in_state r = DnsReady \<Longrightarrow> in_state (f r) = DnsReady \<and> in_placement (f r) = in_placement r"
  shows "store_ok (d\<lparr>installations := update_rows p f (installations d)\<rparr>)"
proof -
  note ok = store_okD [OF assms(1)]
  let ?d = "d\<lparr>installations := update_rows p f (installations d)\<rparr>"
  show ?thesis
  proof (rule store_okI)
    show "ident_ok ?d" by (rule ident_ok_update [OF ok(1) keeps]) simp_all
    show "\<forall>r \<in> set (installations ?d). row_ok r" using row_ok_update [of "installations d" p f] ok(2) rows by simp
    show "operations_ok ?d" by (rule operations_ok_update [OF ok(3) keeps]) simp_all
    show "credentials_ok ?d" by (rule credentials_ok_update [OF ok(4) keeps]) simp_all
    show "leases_ok ?d" by (rule leases_ok_change [OF ok(5) keeps, where q = "\<lambda>_. False"]) (use served in auto)
    show "challenges_ok ?d" by (rule challenges_ok_change [OF ok(6) keeps, where q = "\<lambda>_. False"]) (use served in auto)
  qed
qed

lemma core_insert_audit [simp]: "same_core d (insert_audit i op event d)"
  by (simp add: same_core_def insert_audit_def)

lemma core_insert_outbox [simp]: "same_core d (insert_outbox now i kind payload d)"
  by (simp add: same_core_def insert_outbox_def)

lemma core_remove_jobs [simp]: "same_core d (remove_jobs now i d)"
  by (simp add: same_core_def insert_outbox_def remove_jobs_def)

lemma store_ok_inserts [simp]:
  "store_ok d \<Longrightarrow> store_ok (insert_audit i op event d)"
  "store_ok d \<Longrightarrow> store_ok (insert_outbox now i kind payload d)"
  "store_ok d \<Longrightarrow> store_ok (remove_jobs now i d)"
  by (rule same_core_ok; simp)+

lemma register_acme_ok:
  assumes "store_ok d" and "register_acme_tx env now i uri d = Inr (x, d')"
  shows "store_ok d'"
  using assms(2)
proof (cases rule: register_acme_tx_Inr)
  case (1 r)
  have "store_ok (d\<lparr>installations := update_rows (\<lambda>r. in_id r = i \<and> in_state r \<noteq> Retired)
      (in_acme_update (\<lambda>_. Some uri)) (installations d)\<rparr>)"
    by (rule store_ok_update [OF assms(1)])
      (auto simp: keeps_identity_def row_ok_def dest: store_okD(2) [OF assms(1)])
  with 1 show ?thesis by simp
qed

lemma mark_dns_ready_ok:
  assumes "store_ok d" and "mark_dns_ready_tx i d = Inr (x, d')"
  shows "store_ok d'"
  using assms(2)
proof (cases rule: mark_dns_ready_tx_Inr)
  case ready
  have "store_ok (d\<lparr>installations := update_rows (awaiting_dns i) (in_state_update (\<lambda>_. DnsReady)) (installations d)\<rparr>)"
    by (rule store_ok_update [OF assms(1)])
      (auto simp: keeps_identity_def awaiting_dns_def row_ok_def dest!: store_okD(2) [OF assms(1)])
  with ready show ?thesis by simp
qed (use assms(1) in simp)

text \<open>Operations recorded for an installation that exists.\<close>

lemma store_ok_operation:
  assumes "store_ok d" and "r \<in> set (installations d)" and "in_id r = op_installation x"
    and "key_free op_id x (operations d)"
  shows "store_ok (d\<lparr>operations := operations d @ [x]\<rparr>)"
proof -
  note ok = store_okD [OF assms(1)]
  have "operations_ok (d\<lparr>operations := operations d @ [x]\<rparr>)"
    by (rule operations_ok_snoc [OF ok(3) _ assms(4)]) (use assms(2,3) in \<open>auto simp: row_with_def\<close>)
  with assms(1) show ?thesis
    by (simp add: store_ok_def ident_ok_def credentials_ok_def leases_ok_def challenges_ok_def)
qed

text \<open>Retirement clears the lease and the challenge values together with the ready state.\<close>

lemma store_ok_retire_row:
  assumes "store_ok d" and keeps: "keeps_identity p f"
    and only: "\<And>r. p r \<Longrightarrow> in_id r = i"
    and rows: "\<And>r. r \<in> set (installations d) \<Longrightarrow> p r \<Longrightarrow> row_ok (f r)"
  shows "store_ok (d\<lparr>installations := update_rows p f (installations d),
    tunnel_leases := delete_rows (\<lambda>l. tl_installation l = i) (tunnel_leases d),
    challenge_values := delete_rows (\<lambda>v. cv_installation v = i) (challenge_values d)\<rparr>)" (is "store_ok ?d")
proof -
  note ok = store_okD [OF assms(1)]
  show ?thesis
  proof (rule store_okI)
    show "ident_ok ?d" by (rule ident_ok_update [OF ok(1) keeps]) simp_all
    show "\<forall>r \<in> set (installations ?d). row_ok r" using row_ok_update [of "installations d" p f] ok(2) rows by simp
    show "operations_ok ?d" by (rule operations_ok_update [OF ok(3) keeps]) simp_all
    show "credentials_ok ?d" by (rule credentials_ok_update [OF ok(4) keeps]) simp_all
    show "leases_ok ?d"
      by (rule leases_ok_change [OF ok(5) keeps, where q = "\<lambda>l. tl_installation l = i"]) (use only in auto)
    show "challenges_ok ?d"
      by (rule challenges_ok_change [OF ok(6) keeps, where q = "\<lambda>v. cv_installation v = i"]) (use only in auto)
  qed
qed

lemma in_update_rows_same:
  assumes "r \<in> set t" and "\<And>r. in_id (f r) = in_id r"
  shows "\<exists>r' \<in> set (update_rows p f t). in_id r' = in_id r"
  using assms by (intro bexI [of _ "if p r then f r else r"]) (auto simp: set_update_rows)

lemma row_ok_generation: "row_ok r \<Longrightarrow> in_generation r < BIGINT_MAX \<Longrightarrow> row_ok (r\<lparr>in_generation := in_generation r + 1\<rparr>)"
  by (auto simp: row_ok_def)

lemma row_ok_retire: "row_ok r \<Longrightarrow> in_generation r < BIGINT_MAX
  \<Longrightarrow> row_ok ((retire_row now r)\<lparr>in_generation := in_generation r + 1\<rparr>)"
  by (auto simp: row_ok_def retire_row_def)

text \<open>The row a statement finds by its primary key is the only one it updates.\<close>

lemma same_row:
  assumes "store_ok d" and "r \<in> set (installations d)" and "s \<in> set (installations d)" and "in_id s = in_id r"
  shows "s = r"
  using assms unique_keyD [of in_id "installations d" s r] by (simp add: store_ok_def ident_ok_def)

lemma retire_ok:
  assumes "store_ok d" and "retire_tx P now i op d = Inr (x, d')"
  shows "store_ok d'"
  using assms(2)
proof (cases rule: retire_tx_Inr)
  case (again op_row r)
  then show ?thesis using store_ok_operation [OF assms(1), of r op_row] by simp
next
  case (fresh r op_row)
  let ?p = "\<lambda>r. in_id r = i \<and> in_state r \<noteq> Retired"
  let ?f = "\<lambda>r. (retire_row now r)\<lparr>in_generation := in_generation r + 1\<rparr>"
  let ?d = "d\<lparr>installations := update_rows ?p ?f (installations d),
    tunnel_leases := delete_rows (\<lambda>l. tl_installation l = i) (tunnel_leases d),
    challenge_values := delete_rows (\<lambda>v. cv_installation v = i) (challenge_values d)\<rparr>"
  have "row_ok (?f s)" if "s \<in> set (installations d)" "?p s" for s
    using store_okD(2) [OF assms(1) that(1)] same_row [OF assms(1) fresh(2) that(1)] that(2) fresh(3,5)
    by (auto intro: row_ok_retire)
  then have "store_ok ?d"
    by (intro store_ok_retire_row [OF assms(1)]) (auto simp: keeps_identity_def retire_row_def)
  moreover obtain s where "s \<in> set (installations ?d)" "in_id s = op_installation op_row"
    using in_update_rows_same [OF fresh(2), of ?f ?p] fresh(3,8) by (auto simp: retire_row_def)
  ultimately have "store_ok (?d\<lparr>operations := operations d @ [op_row]\<rparr>)"
    using store_ok_operation [of ?d s op_row] fresh(6) by simp
  moreover have "same_core (?d\<lparr>operations := operations d @ [op_row]\<rparr>) d'"
    using fresh(10) by (simp add: same_core_def insert_audit_def delete_challenges_def remove_jobs_def
        insert_outbox_def delete_lease_def)
  ultimately show ?thesis by (rule same_core_ok [rotated])
qed (use assms(1) in simp)

lemma relocate_ok:
  assumes "store_ok d" and "relocate_tx P now i op placement d = Inr (x, d')"
  shows "store_ok d'"
  using assms(2)
proof (cases rule: relocate_tx_Inr)
  case (fresh r op_row)
  let ?p = "\<lambda>r. in_id r = i"
  let ?f = "\<lambda>r. r\<lparr>in_placement := placement, in_generation := in_generation r + 1\<rparr>"
  let ?d = "d\<lparr>installations := update_rows ?p ?f (installations d),
    tunnel_leases := delete_rows (\<lambda>l. tl_installation l = i) (tunnel_leases d)\<rparr>"
  have keeps: "keeps_identity ?p ?f" by (simp add: keeps_identity_def)
  from fresh(11) obtain r0 where r0: "r0 \<in> set (installations d)" "in_id r0 = i" "in_generation r0 < BIGINT_MAX"
    by blast
  have rows: "row_ok (?f s)" if "s \<in> set (installations d)" "?p s" for s
    using store_okD(2) [OF assms(1) that(1)] same_row [OF assms(1) r0(1) that(1)] that(2) r0 fresh(2)
    by (auto simp: row_ok_def)
  note ok = store_okD [OF assms(1)]
  have "store_ok ?d"
  proof (rule store_okI)
    show "ident_ok ?d" by (rule ident_ok_update [OF ok(1) keeps]) simp_all
    show "\<forall>r \<in> set (installations ?d). row_ok r" using row_ok_update [of "installations d" ?p ?f] ok(2) rows by simp
    show "operations_ok ?d" by (rule operations_ok_update [OF ok(3) keeps]) simp_all
    show "credentials_ok ?d" by (rule credentials_ok_update [OF ok(4) keeps]) simp_all
    show "leases_ok ?d"
      by (rule leases_ok_change [OF ok(5) keeps, where q = "\<lambda>l. tl_installation l = i"]) auto
    show "challenges_ok ?d"
      by (rule challenges_ok_change [OF ok(6) keeps, where q = "\<lambda>_. False"]) auto
  qed
  moreover obtain s where "s \<in> set (installations ?d)" "in_id s = op_installation op_row"
    using in_update_rows_same [OF fresh(3), of ?f ?p] fresh(4,9) by auto
  ultimately have "store_ok (?d\<lparr>operations := operations d @ [op_row]\<rparr>)"
    using store_ok_operation [of ?d s op_row] fresh(7) by simp
  moreover have "same_core (?d\<lparr>operations := operations d @ [op_row]\<rparr>) d'"
    using fresh(12) by (simp add: same_core_def insert_audit_def insert_outbox_def delete_lease_def)
  ultimately show ?thesis by (rule same_core_ok [rotated])
qed (use assms(1) in simp)

lemma expire_pending_ok:
  assumes "store_ok d" and "expire_pending_tx now i d = Inr (x, d')"
  shows "store_ok d'"
  using assms(2)
proof (cases rule: expire_pending_tx_Inr)
  case (expired r)
  let ?p = "\<lambda>r. in_id r = i \<and> lapsed_allocation now r"
  let ?f = "\<lambda>r. (retire_row now r)\<lparr>in_generation := in_generation r + 1\<rparr>"
  have "row_ok (?f s)" if "s \<in> set (installations d)" "?p s" for s
    using store_okD(2) [OF assms(1) that(1)] same_row [OF assms(1) expired(2) that(1)] that(2) expired(3,5)
    by (auto intro: row_ok_retire)
  then have "store_ok (d\<lparr>installations := update_rows ?p ?f (installations d)\<rparr>)"
    by (intro store_ok_update [OF assms(1)]) (auto simp: keeps_identity_def retire_row_def lapsed_allocation_def)
  with expired(6) show ?thesis by simp
qed (use assms(1) in simp)

section \<open>Credentials\<close>

text \<open>No credential of an installation is newer than the installation's own row.\<close>

lemma credential_generation:
  assumes "store_ok d" and "c \<in> set (credentials d)" and "r \<in> set (installations d)"
    and "in_id r = cr_installation c"
  shows "cr_generation c \<le> in_generation r"
proof -
  from assms(1,2) obtain s where "s \<in> set (installations d)" "in_id s = cr_installation c"
    "cr_generation c \<le> in_generation s"
    by (auto simp: store_ok_def credentials_ok_def row_with_def)
  with same_row [OF assms(1,3)] assms(4) show ?thesis by auto
qed

lemma bump_keeps: "keeps_identity p (\<lambda>r. r\<lparr>in_generation := in_generation r + 1\<rparr>)"
  by (simp add: keeps_identity_def)

lemma store_ok_bump:
  assumes "store_ok d" and "r \<in> set (installations d)" and "in_id r = i" and "in_generation r < BIGINT_MAX"
    and "\<And>s. p s \<Longrightarrow> in_id s = i"
  shows "store_ok (d\<lparr>installations := update_rows p (\<lambda>r. r\<lparr>in_generation := in_generation r + 1\<rparr>) (installations d)\<rparr>)"
proof (rule store_ok_update [OF assms(1) bump_keeps])
  fix s assume s: "s \<in> set (installations d)" "p s"
  then have "s = r" using same_row [OF assms(1,2) s(1)] assms(3,5) by simp
  then show "row_ok (s\<lparr>in_generation := in_generation s + 1\<rparr>)"
    using store_okD(2) [OF assms(1,2)] assms(4) by (simp add: row_ok_generation)
qed simp_all

lemma credentials_ok_place:
  assumes ok: "store_ok d" and r: "r \<in> set (installations d)" "in_id r = i" and "bearer_scope scope"
    and p: "p r" "\<And>s. p s \<Longrightarrow> in_id s = i"
    and q: "\<And>c. c \<in> set (credentials d) \<Longrightarrow> cr_installation c = i \<Longrightarrow> cr_scope c = scope
      \<Longrightarrow> cr_revoked_at c = None \<Longrightarrow> q c"
    and c: "c = new_credential now i scope (in_generation r + 1) th life"
    and t: "installations d' = update_rows p (\<lambda>r. r\<lparr>in_generation := in_generation r + 1\<rparr>) (installations d)"
    and creds: "credentials d' = update_rows q (cr_revoked_at_update (\<lambda>_. Some now)) (credentials d) @ [c]"
    and free: "key_free credential_key c (update_rows q (cr_revoked_at_update (\<lambda>_. Some now)) (credentials d))"
  shows "credentials_ok d'"
proof -
  let ?old = "update_rows q (cr_revoked_at_update (\<lambda>_. Some now)) (credentials d)"
  note okc = store_okD(4) [OF ok, unfolded credentials_ok_def]
  have gens: "row_with (installations d') j (\<lambda>r. n \<le> in_generation r)"
    if "row_with (installations d) j (\<lambda>r. n \<le> in_generation r)" for j n
    unfolding t by (rule row_with_keeps [OF bump_keeps that]) auto
  have old: "\<exists>y \<in> set (credentials d). credential_key x = credential_key y
      \<and> (cr_revoked_at x = None \<longrightarrow> \<not> q y \<and> cr_revoked_at y = None)" if "x \<in> set ?old" for x
  proof -
    from that obtain y where "y \<in> set (credentials d)" "x = (if q y then y\<lparr>cr_revoked_at := Some now\<rparr> else y)"
      by (auto simp: in_update_rows)
    then show ?thesis by (intro bexI [of _ y]) auto
  qed
  have below: "cr_generation x \<le> in_generation r" if "x \<in> set ?old" "cr_installation x = i" for x
    using old [OF that(1)] credential_generation [OF ok _ r(1)] r(2) that(2) by auto
  have cred: "cr_installation c = i" "cr_scope c = scope" "cr_generation c = in_generation r + 1" "cr_revoked_at c = None"
    by (simp_all add: c new_credential_def)
  have "unique_key credential_key (credentials d')"
    using okc free by (simp add: creds unique_key_update)
  moreover have "bearer_scope (cr_scope x) \<and> 1 \<le> cr_generation x
      \<and> row_with (installations d') (cr_installation x) (\<lambda>r. cr_generation x \<le> in_generation r)"
    if "x \<in> set (credentials d')" for x
  proof (cases "x = c")
    case True
    have "row_with (installations d') i (\<lambda>s. in_generation r + 1 \<le> in_generation s)"
      unfolding t by (subst row_with_update) (use r p(1) in \<open>auto simp: row_with_def\<close>)
    with True cred assms(4) store_okD(2) [OF ok r(1)] show ?thesis by (simp add: row_ok_def)
  next
    case False
    with that have "x \<in> set ?old" by (simp add: creds)
    from old [OF this] obtain y where "y \<in> set (credentials d)" "credential_key x = credential_key y" by blast
    with okc gens show ?thesis by auto
  qed
  moreover have "cr_generation y \<le> cr_generation x"
    if "x \<in> set (credentials d')" "y \<in> set (credentials d')" "cr_revoked_at x = None"
      "cr_installation y = cr_installation x" "cr_scope y = cr_scope x" for x y
  proof (cases "x = c")
    case True
    with that below [of y] cred show ?thesis by (auto simp: creds)
  next
    case False
    with that(1) have "x \<in> set ?old" by (simp add: creds)
    from old [OF this] that(3) obtain x' where x': "x' \<in> set (credentials d)"
      "credential_key x = credential_key x'" "\<not> q x'" "cr_revoked_at x' = None" by blast
    with q have "\<not> (cr_installation x = i \<and> cr_scope x = scope)" by auto
    with that(2,4,5) cred have "y \<in> set ?old" by (auto simp: creds)
    from old [OF this] obtain y' where "y' \<in> set (credentials d)" "credential_key y = credential_key y'" by blast
    with x' that(4,5) okc show ?thesis by auto
  qed
  ultimately show ?thesis by (auto simp: credentials_ok_def)
qed

lemma place_ok:
  assumes ok: "store_ok d" and r: "r \<in> set (installations d)" "in_id r = i" "in_generation r < BIGINT_MAX"
    and scope: "bearer_scope scope" and p: "p r" "\<And>s. p s \<Longrightarrow> in_id s = i"
    and q: "\<And>c. c \<in> set (credentials d) \<Longrightarrow> cr_installation c = i \<Longrightarrow> cr_scope c = scope
      \<Longrightarrow> cr_revoked_at c = None \<Longrightarrow> q c"
    and d1: "d1 = revoke now q (d\<lparr>installations :=
       update_rows p (\<lambda>r. r\<lparr>in_generation := in_generation r + 1\<rparr>) (installations d)\<rparr>)"
    and place: "place_credential now i op scope kind digest th (in_generation r + 1) life aop event d1 = Inr (x, d')"
  shows "store_ok d'"
proof -
  let ?t = "update_rows p (\<lambda>r. r\<lparr>in_generation := in_generation r + 1\<rparr>) (installations d)"
  let ?c = "new_credential now i scope (in_generation r + 1) th life"
  let ?op = "receipt_operation now i op kind digest ?c"
  note placed = place_credential_Inr [OF place]
  have bumped: "store_ok (d\<lparr>installations := ?t\<rparr>)" by (rule store_ok_bump [OF ok r p(2)])
  note okb = store_okD [OF bumped]
  have tables: "installations d' = ?t" "reservations d' = reservations d" "operations d' = operations d @ [?op]"
    "credentials d' = update_rows q (cr_revoked_at_update (\<lambda>_. Some now)) (credentials d) @ [?c]"
    "challenge_values d' = challenge_values d" "challenge_states d' = challenge_states d"
    "tunnel_leases d' = delete_rows (\<lambda>l. scope = ''tunnel'' \<and> tl_installation l = i) (tunnel_leases d)"
    using placed(4) by (auto simp: d1 revoke_def)
  show ?thesis
  proof (rule store_okI)
    show "ident_ok d'" using okb(1) tables by (simp add: ident_ok_def)
    show "\<forall>r \<in> set (installations d'). row_ok r" using okb(2) tables by simp
    have "row_with ?t i (\<lambda>_. True)"
      using in_update_rows_same [OF r(1), of "\<lambda>r. r\<lparr>in_generation := in_generation r + 1\<rparr>" p] r(2)
      by (auto simp: row_with_def)
    then show "operations_ok d'"
      by (intro operations_ok_snoc [OF okb(3), where x = ?op]) (use placed(2) tables in
        \<open>simp_all add: receipt_operation_def d1 revoke_def key_free_def\<close>)
    show "credentials_ok d'"
      by (rule credentials_ok_place [OF ok r(1,2) scope p q refl tables(1,4)])
        (use placed(1) in \<open>simp_all add: d1 revoke_def\<close>)
    show "leases_ok d'" using okb(5) tables by (auto simp: leases_ok_def)
    show "challenges_ok d'" using okb(6) tables by (simp add: challenges_ok_def)
  qed
qed

lemma issue_bearer_ok:
  assumes "store_ok d" and "issue_bearer_tx P cw now i op scope th validity d = Inr (x, d')"
  shows "store_ok d'"
  using assms(2)
proof (cases rule: issue_bearer_tx_Inr)
  case (fresh r d1)
  show ?thesis by (rule place_ok [OF assms(1) fresh(3,4,6,1) _ _ _ fresh(7,8)]) (use fresh(4,5) in auto)
qed (use assms(1) in simp)

text \<open>The credential that renews is the only unrevoked one of its scope.\<close>

lemma only_unrevoked:
  assumes "store_ok d" and "c \<in> set (credentials d)" and "c' \<in> set (credentials d)"
    and "cr_revoked_at c = None" and "cr_revoked_at c' = None"
    and "cr_installation c' = cr_installation c" and "cr_scope c' = cr_scope c"
  shows "c' = c"
proof -
  note okc = store_okD(4) [OF assms(1), unfolded credentials_ok_def]
  from okc assms(2-7) have "cr_generation c' \<le> cr_generation c" by simp
  moreover from okc assms(2-7) have "cr_generation c \<le> cr_generation c'" by simp
  ultimately have "cr_generation c' = cr_generation c" by simp
  with unique_keyD [of credential_key "credentials d" c' c] okc assms(2,3,6,7) show ?thesis by simp
qed

lemma renew_bearer_ok:
  assumes "store_ok d" and "renew_bearer_tx P cw now i op scope g token th d = Inr (x, d')"
  shows "store_ok d'"
  using assms(2)
proof (cases rule: renew_bearer_tx_Inr)
  case (fresh r c d1)
  from fresh(7) have c: "cr_installation c = i" "cr_scope c = scope" "cr_generation c = as_i64 g" "cr_revoked_at c = None"
    by (simp_all add: renewable_def)
  show ?thesis
    by (rule place_ok [OF assms(1) fresh(3,4,5,1) _ _ _ fresh(9,10)])
      (use fresh(4) c only_unrevoked [OF assms(1) fresh(6)] in auto)
qed (use assms(1) in simp)

section \<open>Tunnel leases\<close>

lemma store_ok_leases:
  assumes "store_ok d" and "leases_ok (d\<lparr>tunnel_leases := ls\<rparr>)"
  shows "store_ok (d\<lparr>tunnel_leases := ls\<rparr>)"
  using assms by (simp add: store_ok_def ident_ok_def operations_ok_def credentials_ok_def challenges_ok_def)

lemma leases_ok_upsert:
  assumes "leases_ok d" and "lease_ok (installations d) l"
  shows "leases_ok (upsert_lease l d)"
  using assms
  by (auto simp: leases_ok_def upsert_lease_def in_update_rows unique_key_update split: if_splits)

lemma claim_tunnel_ok:
  assumes "store_ok d" and "claim_tunnel_tx now i gateway ttl d = Inr (x, d')"
  shows "store_ok d'"
  using assms(2)
proof (cases rule: claim_tunnel_tx_Inr)
  case (1 r)
  let ?p = "\<lambda>r. in_id r = i \<and> in_state r = DnsReady \<and> in_placement r = gateway"
  let ?d = "d\<lparr>installations := update_rows ?p (\<lambda>r. r\<lparr>in_generation := in_generation r + 1\<rparr>) (installations d)\<rparr>"
  let ?l = "\<lparr>tl_installation = i, tl_generation = in_generation r + 1, tl_gateway = gateway,
    tl_expires_at = now + seconds ttl\<rparr>"
  have bumped: "store_ok ?d" by (rule store_ok_bump [OF assms(1) 1(4,5,8)]) simp
  have "lease_ok (installations ?d) ?l"
    using 1(4-7) store_okD(2) [OF assms(1) 1(4)]
    by (auto simp: lease_ok_def row_with_update row_ok_def) (auto simp: row_with_def)
  with bumped have "store_ok (upsert_lease ?l ?d)"
    using leases_ok_upsert [of ?d ?l] store_ok_leases [OF bumped] by (simp add: upsert_lease_def store_ok_def)
  with 1(10) show ?thesis by simp
qed

lemma renew_lease_ok:
  assumes "store_ok d" and "renew_lease now i gateway g d = Inr (x, d')"
  shows "store_ok d'"
proof -
  let ?ls = "update_rows (lease_is_current now i gateway g) (tl_expires_at_update (\<lambda>_. now + seconds 45)) (tunnel_leases d)"
  have "leases_ok (d\<lparr>tunnel_leases := ?ls\<rparr>)"
    using store_okD(5) [OF assms(1)]
    by (auto simp: leases_ok_def unique_key_update ball_update_rows lease_ok_def)
  with assms store_ok_leases show ?thesis by (auto simp: renew_lease_def)
qed

section \<open>Challenge values\<close>

lemma keys_update_rows:
  assumes "\<And>r. r \<in> set t \<Longrightarrow> p r \<Longrightarrow> key (f r) = key r"
  shows "key ` set (update_rows p f t) = key ` set t"
proof -
  have "map key (update_rows p f t) = map key t" by (rule map_update_rows) (rule assms)
  then show ?thesis by (metis list.set_map)
qed

lemma store_ok_challenges:
  assumes "store_ok d" and "challenges_ok d'"
    and "installations d' = installations d" and "reservations d' = reservations d"
    and "operations d' = operations d" and "credentials d' = credentials d"
    and "tunnel_leases d' = tunnel_leases d"
  shows "store_ok d'"
  using assms by (simp add: store_ok_def ident_ok_def operations_ok_def credentials_ok_def leases_ok_def)

lemma ensure_state_ok:
  assumes "store_ok d"
  shows "store_ok (ensure_state i d)" and "i \<in> cs_installation ` set (challenge_states (ensure_state i d))"
proof -
  let ?s = "\<lparr>cs_installation = i, cs_revision = 0, cs_ready = None\<rparr>"
  have "challenges_ok (d\<lparr>challenge_states := challenge_states d @ [?s]\<rparr>)" if "key_free cs_installation ?s (challenge_states d)"
    using store_okD(6) [OF assms] that
    by (auto simp: challenges_ok_def state_ok_def BIGINT_MAX_def)
  then show "store_ok (ensure_state i d)"
    using assms by (auto simp: ensure_state_def Let_def intro: store_ok_challenges)
  show "i \<in> cs_installation ` set (challenge_states (ensure_state i d))"
    by (auto simp: ensure_state_def Let_def key_free_iff)
qed

text \<open>A change of membership advances the revision of the installation's state.\<close>

lemma challenge_set_changed_ok:
  assumes ok: "store_ok d"
    and changed: "challenge_set_changed now i event (d\<lparr>challenge_values := vs\<rparr>) = Inr d'"
    and keys: "unique_key value_key vs"
    and vals: "\<And>v. v \<in> set vs \<Longrightarrow> v \<in> set (challenge_values d)
      \<or> (row_with (installations d) (cv_installation v) (\<lambda>r. in_state r = DnsReady)
         \<and> cv_installation v \<in> cs_installation ` set (challenge_states d)
         \<and> validate_challenge_value (cv_txt v) = Inr ())"
    and count: "\<And>j. count_rows (\<lambda>v. cv_installation v = j) vs \<le> MAX_LIVE_CHALLENGE_VALUES"
  shows "store_ok d'"
proof -
  let ?ss = "update_rows (\<lambda>s. cs_installation s = i) (\<lambda>s. s\<lparr>cs_revision := cs_revision s + 1\<rparr>) (challenge_states d)"
  note okc = store_okD(6) [OF ok, unfolded challenges_ok_def]
  from changed have room: "\<forall>s \<in> set (challenge_states d). cs_installation s = i \<longrightarrow> cs_revision s < BIGINT_MAX"
    and d': "d' = insert_audit i None event (insert_outbox now i ''reconcile_txt'' EmptyPayload
        (d\<lparr>challenge_values := vs, challenge_states := ?ss\<rparr>))"
    by (auto simp: challenge_set_changed_Inr)
  have keys': "cs_installation ` set ?ss = cs_installation ` set (challenge_states d)"
    by (rule keys_update_rows) simp
  have "\<forall>s \<in> set ?ss. state_ok s"
    using okc room by (auto simp: ball_update_rows state_ok_def split: option.splits)
  with okc keys vals count have "challenges_ok (d\<lparr>challenge_values := vs, challenge_states := ?ss\<rparr>)"
    by (fastforce simp: challenges_ok_def unique_key_update keys')
  then have "store_ok (d\<lparr>challenge_values := vs, challenge_states := ?ss\<rparr>)"
    by (rule store_ok_challenges [OF ok]) simp_all
  with d' show ?thesis by simp
qed

lemma count_live_lapsed:
  "count_rows (\<lambda>v. cv_installation v = i) (delete_rows (value_lapsed now i) vs) = count_rows (value_live now i) vs"
  by (simp add: count_rows_delete value_lapsed_def) (auto intro!: count_rows_cong simp: value_live_def not_le)

lemma ensure_challenge_ok:
  assumes "store_ok d" and "ensure_challenge_tx now i g txt d = Inr (x, d')"
  shows "store_ok d'"
  using assms(2)
proof (cases rule: ensure_challenge_tx_Inr)
  case (refreshed r v)
  let ?d = "ensure_state i d"
  have "challenges_ok (refresh_value now i txt ?d)"
    using store_okD(6) [OF ensure_state_ok(1) [OF assms(1), of i]]
    by (auto simp: challenges_ok_def refresh_value_def unique_key_update ball_update_rows count_rows_update)
  then have "store_ok (refresh_value now i txt ?d)"
    by (rule store_ok_challenges [OF ensure_state_ok(1) [OF assms(1)]]) (simp_all add: refresh_value_def)
  with refreshed(8) show ?thesis by simp
next
  case (added r)
  let ?d = "ensure_state i d"
  note ok = ensure_state_ok [OF assms(1), of i]
  note okc = store_okD(6) [OF ok(1), unfolded challenges_ok_def]
  have t: "installations ?d = installations d" by (simp add: ensure_state_def Let_def)
  from added(6) show ?thesis
  proof (cases rule: add_value_Inr)
    case (1 v)
    show ?thesis
    proof (rule challenge_set_changed_ok [OF ok(1) 1(4)])
      show "unique_key value_key (delete_rows (value_lapsed now i) (challenge_values ?d) @ [v])"
        using okc 1(3) by simp
      fix j
      show "count_rows (\<lambda>v. cv_installation v = j) (delete_rows (value_lapsed now i) (challenge_values ?d) @ [v])
          \<le> MAX_LIVE_CHALLENGE_VALUES"
      proof (cases "j = i")
        case True
        with 1(1,2) show ?thesis by (simp add: count_rows_snoc count_live_lapsed)
      next
        case False
        then have "count_rows (\<lambda>v. cv_installation v = j \<and> \<not> value_lapsed now i v) (challenge_values ?d)
            \<le> count_rows (\<lambda>v. cv_installation v = j) (challenge_values ?d)"
          by (intro count_rows_mono) simp
        with False 1(1) okc show ?thesis
          by (simp add: count_rows_snoc count_rows_delete) (meson order_trans)
      qed
    qed (use 1(1) added(1-4) ok(2) t in \<open>auto simp: row_with_def\<close>)
  qed
qed

lemma reconciled_ok:
  assumes "store_ok d" and "reconciled_tx i revision d = Inr (x, d')"
  shows "store_ok d'"
proof -
  let ?p = "\<lambda>s. cs_installation s = i \<and> cs_revision s = as_i64 revision"
  let ?ss = "update_rows ?p (cs_ready_update (\<lambda>_. Some (as_i64 revision))) (challenge_states d)"
  have "cs_installation ` set ?ss = cs_installation ` set (challenge_states d)"
    by (rule keys_update_rows) simp
  with store_okD(6) [OF assms(1)] have "challenges_ok (d\<lparr>challenge_states := ?ss\<rparr>)"
    by (auto simp: challenges_ok_def unique_key_update ball_update_rows state_ok_def)
  then have "store_ok (d\<lparr>challenge_states := ?ss\<rparr>)"
    by (rule store_ok_challenges [OF assms(1)]) simp_all
  with assms(2) show ?thesis by (simp add: reconciled_tx_def Let_def)
qed

lemma expire_values_ok:
  assumes "store_ok d" and "expire_values_tx now i d = Inr (x, d')"
  shows "store_ok d'"
  using assms(2)
proof (cases rule: expire_values_tx_Inr)
  case (expired v)
  note okc = store_okD(6) [OF assms(1), unfolded challenges_ok_def]
  show ?thesis
  proof (rule challenge_set_changed_ok [OF assms(1) expired(4)])
    fix j
    have "count_rows (\<lambda>v. cv_installation v = j \<and> \<not> value_lapsed now i v) (challenge_values d)
        \<le> count_rows (\<lambda>v. cv_installation v = j) (challenge_values d)"
      by (intro count_rows_mono) simp
    with okc show "count_rows (\<lambda>v. cv_installation v = j) (delete_rows (value_lapsed now i) (challenge_values d))
        \<le> MAX_LIVE_CHALLENGE_VALUES"
      by (simp add: count_rows_delete) (meson order_trans)
  qed (use okc in auto)
qed (use assms(1) in simp)

end
