(* ===== verification/Store_History.thy ===== *)
theory Store_History
  imports Store_Invariant "HOL-Library.Sublist"
begin

text \<open>
  Histories of the store: every step keeps the invariant and moves the database forward in
  the order below. The locale of step-wise systems lifts both to runs of any length, from
  any number of processes.
\<close>

section \<open>The order of databases\<close>

text \<open>An installation goes from pending to ready to retired.\<close>

fun state_rank :: "allocation_state \<Rightarrow> nat" where
  "state_rank PendingDns = 0"
| "state_rank DnsReady = 1"
| "state_rank Retired = 2"

instantiation allocation_state :: linorder
begin

definition less_eq_allocation_state :: "allocation_state \<Rightarrow> allocation_state \<Rightarrow> bool" where
  "less_eq_allocation_state a b \<longleftrightarrow> state_rank a \<le> state_rank b"

definition less_allocation_state :: "allocation_state \<Rightarrow> allocation_state \<Rightarrow> bool" where
  "less_allocation_state a b \<longleftrightarrow> state_rank a < state_rank b"

instance
proof
  fix a b :: allocation_state
  show "a \<le> b \<Longrightarrow> b \<le> a \<Longrightarrow> a = b"
    by (cases a; cases b) (simp_all add: less_eq_allocation_state_def)
qed (auto simp: less_eq_allocation_state_def less_allocation_state_def)

end

lemma state_le_simps [simp]:
  "PendingDns \<le> s" "s \<le> Retired" "(s :: allocation_state) \<le> PendingDns \<longleftrightarrow> s = PendingDns"
  "Retired \<le> s \<longleftrightarrow> s = Retired"
  by (cases s; simp add: less_eq_allocation_state_def)+

definition row_evolves :: "installation \<Rightarrow> installation \<Rightarrow> bool" where
  "row_evolves r r' \<longleftrightarrow> in_id r' = in_id r \<and> in_hostname r' = in_hostname r
     \<and> in_admin_key r' = in_admin_key r \<and> in_created_at r' = in_created_at r
     \<and> in_generation r \<le> in_generation r' \<and> in_state r \<le> in_state r'"

definition rows_evolve :: "installation list \<Rightarrow> installation list \<Rightarrow> bool" where
  "rows_evolve t t' \<longleftrightarrow> (\<forall>r \<in> set t. \<exists>r' \<in> set t'. row_evolves r r')"

text \<open>The tables whose loss a restored backup would hide.\<close>

definition security_view ::
  "db \<Rightarrow> installation list \<times> reservation list \<times> credential list \<times> certificate list
     \<times> audit_record list \<times> ct_checkpoint list \<times> ct_alert list \<times> ct_health_alert list" where
  "security_view d = (installations d, reservations d, credentials d, certificates d, audit d,
     ct_checkpoints d, ct_alerts d, ct_health_alerts d)"

definition evolves :: "db \<Rightarrow> db \<Rightarrow> bool" where
  "evolves d d' \<longleftrightarrow> rows_evolve (installations d) (installations d')
     \<and> prefix (reservations d) (reservations d') \<and> prefix (operations d) (operations d')
     \<and> prefix (audit d) (audit d') \<and> fence d \<le> fence d'
     \<and> (security_view d' \<noteq> security_view d \<longrightarrow> fence d < fence d')"

lemma row_evolves_refl [simp]: "row_evolves r r"
  by (simp add: row_evolves_def)

lemma row_evolves_trans: "row_evolves r s \<Longrightarrow> row_evolves s u \<Longrightarrow> row_evolves r u"
  by (auto simp: row_evolves_def)

lemma rows_evolve_refl [simp]: "rows_evolve t t"
  unfolding rows_evolve_def by (meson row_evolves_refl)

lemma rows_evolve_trans: "rows_evolve t u \<Longrightarrow> rows_evolve u v \<Longrightarrow> rows_evolve t v"
  unfolding rows_evolve_def by (meson row_evolves_trans)

lemma rows_evolve_snoc [simp]: "rows_evolve t (t @ [r])"
  unfolding rows_evolve_def set_append by (meson UnI1 row_evolves_refl)

lemma rows_evolve_update:
  assumes "\<And>r. r \<in> set t \<Longrightarrow> p r \<Longrightarrow> row_evolves r (f r)"
  shows "rows_evolve t (update_rows p f t)"
  unfolding rows_evolve_def
proof
  fix r assume "r \<in> set t"
  then show "\<exists>r' \<in> set (update_rows p f t). row_evolves r r'"
    using assms by (intro bexI [of _ "if p r then f r else r"]) (auto simp: set_update_rows)
qed

lemma db_evolves_refl [simp]: "evolves d d"
  by (simp add: evolves_def)

lemma db_evolves_trans: "evolves d e \<Longrightarrow> evolves e f \<Longrightarrow> evolves d f"
  unfolding evolves_def
  by (auto intro: rows_evolve_trans prefix_order.trans)

lemma evolves_audited:
  assumes "rows_evolve (installations d) (installations d')"
    and "prefix (reservations d) (reservations d')" and "prefix (operations d) (operations d')"
    and "prefix (audit d) (audit d')" and "fence d < fence d'"
  shows "evolves d d'"
  using assms by (simp add: evolves_def)

section \<open>Every operation moves forward\<close>

text \<open>The rows a transaction changes, with the facts that let \<open>evolves\<close> be read off.\<close>

lemma insert_audit_evolves:
  assumes "rows_evolve (installations d) (installations e)"
    and "prefix (reservations d) (reservations e)" and "prefix (operations d) (operations e)"
    and "audit e = audit d" and "fence e = fence d"
  shows "evolves d (insert_audit i op event e)"
  using assms by (intro evolves_audited) (simp_all add: insert_audit_def)

lemma update_evolves_intro:
  "keeps_identity p f \<Longrightarrow> (\<And>r. r \<in> set t \<Longrightarrow> p r \<Longrightarrow> in_state r \<le> in_state (f r) \<and> in_created_at (f r) = in_created_at r)
    \<Longrightarrow> rows_evolve t (update_rows p f t)"
  by (rule rows_evolve_update) (auto simp: row_evolves_def keeps_identity_def)

lemma allocate_evolves:
  assumes "allocate_tx b32 now i random op key placement d = Inr (a, d')"
  shows "evolves d d'"
proof (cases "operation_installation d op")
  case None
  from assms show ?thesis
    unfolding allocate_fresh [OF None refl]
    by (auto intro!: insert_audit_evolves simp: insert_outbox_def)
qed (use assms in \<open>simp add: allocate_replay\<close>)

lemma register_acme_evolves: "register_acme_tx env now i uri d = Inr (x, d') \<Longrightarrow> evolves d d'"
  by (erule register_acme_tx_Inr)
    (auto intro!: insert_audit_evolves update_evolves_intro simp: insert_outbox_def keeps_identity_def)

lemma mark_dns_ready_evolves: "mark_dns_ready_tx i d = Inr (x, d') \<Longrightarrow> evolves d d'"
  by (erule mark_dns_ready_tx_Inr)
    (auto intro!: insert_audit_evolves update_evolves_intro simp: keeps_identity_def awaiting_dns_def)

lemma expire_pending_evolves: "expire_pending_tx now i d = Inr (x, d') \<Longrightarrow> evolves d d'"
  by (erule expire_pending_tx_Inr)
    (auto intro!: insert_audit_evolves update_evolves_intro
      simp: keeps_identity_def remove_jobs_def insert_outbox_def retire_row_def)

lemma retire_evolves:
  assumes "retire_tx P now i op d = Inr (x, d')"
  shows "evolves d d'"
  using assms
proof (cases rule: retire_tx_Inr)
  case (again op_row r)
  then show ?thesis by (simp add: evolves_def security_view_def)
next
  case (fresh r op_row)
  have "rows_evolve (installations d) (update_rows (\<lambda>r. in_id r = i \<and> in_state r \<noteq> Retired)
      (\<lambda>r. (retire_row now r)\<lparr>in_generation := in_generation r + 1\<rparr>) (installations d))"
    by (rule update_evolves_intro) (simp_all add: keeps_identity_def retire_row_def)
  with fresh(10) show ?thesis
    by (intro evolves_audited) (simp_all add: insert_audit_def delete_challenges_def remove_jobs_def
        insert_outbox_def delete_lease_def)
qed simp

lemma relocate_evolves:
  assumes "relocate_tx P now i op placement d = Inr (x, d')"
  shows "evolves d d'"
  using assms
proof (cases rule: relocate_tx_Inr)
  case (fresh r op_row)
  have "rows_evolve (installations d) (update_rows (\<lambda>r. in_id r = i)
      (\<lambda>r. r\<lparr>in_placement := placement, in_generation := in_generation r + 1\<rparr>) (installations d))"
    by (rule update_evolves_intro) (simp_all add: keeps_identity_def)
  with fresh(12) show ?thesis
    by (intro evolves_audited) (simp_all add: insert_audit_def insert_outbox_def delete_lease_def)
qed simp

lemma place_evolves:
  assumes "place_credential now i op scope kind digest th g life aop event
      (revoke now q (d\<lparr>installations := update_rows p (\<lambda>r. r\<lparr>in_generation := in_generation r + 1\<rparr>) (installations d)\<rparr>))
      = Inr (x, d')"
  shows "evolves d d'"
proof -
  have "rows_evolve (installations d) (update_rows p (\<lambda>r. r\<lparr>in_generation := in_generation r + 1\<rparr>) (installations d))"
    by (rule update_evolves_intro) (simp_all add: keeps_identity_def)
  with place_credential_Inr(4) [OF assms] show ?thesis
    by (intro evolves_audited) (simp_all add: revoke_def)
qed

lemma issue_bearer_evolves: "issue_bearer_tx P cw now i op scope th validity d = Inr (x, d') \<Longrightarrow> evolves d d'"
  by (erule issue_bearer_tx_Inr) (auto intro: place_evolves)

lemma renew_bearer_evolves: "renew_bearer_tx P cw now i op scope g token th d = Inr (x, d') \<Longrightarrow> evolves d d'"
  by (erule renew_bearer_tx_Inr) (auto intro: place_evolves)

lemma claim_tunnel_evolves: "claim_tunnel_tx now i gateway ttl d = Inr (x, d') \<Longrightarrow> evolves d d'"
  by (erule claim_tunnel_tx_Inr)
    (auto intro!: insert_audit_evolves update_evolves_intro simp: keeps_identity_def upsert_lease_def)

lemma challenge_set_changed_evolves:
  "challenge_set_changed now i event (d\<lparr>challenge_values := vs\<rparr>) = Inr d' \<Longrightarrow> evolves d d'"
  by (auto simp: challenge_set_changed_Inr insert_outbox_def intro!: insert_audit_evolves)

lemma ensure_state_evolves: "evolves d (ensure_state i d)"
  by (simp add: ensure_state_def Let_def evolves_def security_view_def)

lemma ensure_challenge_evolves:
  assumes "ensure_challenge_tx now i g txt d = Inr (x, d')"
  shows "evolves d d'"
  using assms
proof (cases rule: ensure_challenge_tx_Inr)
  case (refreshed r v)
  then have "evolves (ensure_state i d) d'" by (simp add: refresh_value_def evolves_def security_view_def)
  with ensure_state_evolves show ?thesis by (rule db_evolves_trans)
next
  case (added r)
  from added(6) have "evolves (ensure_state i d) d'"
    by (rule add_value_Inr) (rule challenge_set_changed_evolves)
  with ensure_state_evolves show ?thesis by (rule db_evolves_trans)
qed

lemma reconciled_evolves: "reconciled_tx i revision d = Inr (x, d') \<Longrightarrow> evolves d d'"
  by (auto simp: reconciled_tx_def Let_def evolves_def security_view_def)

lemma expire_values_evolves: "expire_values_tx now i d = Inr (x, d') \<Longrightarrow> evolves d d'"
  by (erule expire_values_tx_Inr) (auto intro: challenge_set_changed_evolves)

lemma renew_lease_evolves: "renew_lease now i gateway g d = Inr (x, d') \<Longrightarrow> evolves d d'"
  by (auto simp: renew_lease_def evolves_def security_view_def)

section \<open>Operations beside the core tables\<close>

definition bystander :: "db \<Rightarrow> db \<Rightarrow> bool" where
  "bystander d d' \<longleftrightarrow> same_core d d' \<and> evolves d d'"

lemma bystander_refl [simp]: "bystander d d"
  by (simp add: bystander_def same_core_def)

lemma bystander_trans [trans]: "bystander d e \<Longrightarrow> bystander e f \<Longrightarrow> bystander d f"
  by (auto simp: bystander_def same_core_def intro: db_evolves_trans)

lemma bootstrap_bystanders:
  "insert_challenge now nonce source d = Inr (x, d') \<Longrightarrow> bystander d d'"
  "consume_challenge now nonce source d = Inr (x, d') \<Longrightarrow> bystander d d'"
  "prune_rows now now' limit d = Inr (n, d') \<Longrightarrow> bystander d d'"
  "insert_nonce now i nonce d = Inr (x, d') \<Longrightarrow> bystander d d'"
  by (auto simp: insert_challenge_def consume_challenge_def prune_rows_def insert_nonce_def Let_def
      bystander_def same_core_def evolves_def security_view_def split: if_splits)

lemma outbox_bystanders:
  "complete_tx now j d = Inr (x, d') \<Longrightarrow> bystander d d'"
  "defer_tx now j d = Inr (x, d') \<Longrightarrow> bystander d d'"
  by (auto simp: complete_tx_def defer_tx_def bystander_def same_core_def evolves_def security_view_def
      split: if_splits)

text \<open>The fence advances once per row of a certificate-transparency table written.\<close>

lemma bystander_fenced:
  assumes "same_core d d'" and "audit d' = audit d" and "fence d < fence d'"
  shows "bystander d d'"
  using assms by (simp add: bystander_def evolves_audited same_core_def)

lemma insert_audit_bystander: "bystander d (insert_audit i op event d)"
  by (simp add: bystander_def insert_audit_evolves)

lemma insert_checkpoint_bystander: "bystander d (insert_checkpoint now source d)"
  by (simp add: insert_checkpoint_def Let_def bystander_fenced bump_fence_def same_core_def)

lemma move_checkpoint_bystander: "bystander d (move_checkpoint now source position d)"
proof (cases "count_rows (\<lambda>c. cp_source c = source) (ct_checkpoints d) = 0")
  case True
  then have "update_rows (\<lambda>c. cp_source c = source) f (ct_checkpoints d) = ct_checkpoints d" for f
    by (intro update_rows_none) (simp add: count_rows_0)
  with True show ?thesis by (simp add: move_checkpoint_def bump_fence_def)
qed (simp add: move_checkpoint_def bystander_fenced bump_fence_def same_core_def)

lemma delivered_bystanders:
  "mark_ct_alert_delivered_tx now j d = Inr (x, d') \<Longrightarrow> bystander d d'"
  "mark_ct_lag_alert_delivered_tx now j d = Inr (x, d') \<Longrightarrow> bystander d d'"
proof -
  let ?p = "\<lambda>a. ca_id a = j \<and> ca_delivered_at a = None"
  have "update_rows ?p f (ct_alerts d) = ct_alerts d" if "count_rows ?p (ct_alerts d) = 0" for f
    using that by (intro update_rows_none) (auto simp: count_rows_0)
  then show "mark_ct_alert_delivered_tx now j d = Inr (x, d') \<Longrightarrow> bystander d d'"
    by (cases "count_rows ?p (ct_alerts d) = 0")
      (auto simp: mark_ct_alert_delivered_tx_def Let_def bump_fence_def same_core_def intro!: bystander_fenced)
next
  let ?p = "\<lambda>h. ch_id h = j \<and> ch_delivered_at h = None"
  have "update_rows ?p f (ct_health_alerts d) = ct_health_alerts d" if "count_rows ?p (ct_health_alerts d) = 0" for f
    using that by (intro update_rows_none) (auto simp: count_rows_0)
  then show "mark_ct_lag_alert_delivered_tx now j d = Inr (x, d') \<Longrightarrow> bystander d d'"
    by (cases "count_rows ?p (ct_health_alerts d) = 0")
      (auto simp: mark_ct_lag_alert_delivered_tx_def Let_def bump_fence_def same_core_def intro!: bystander_fenced)
qed

lemma ct_bystanders:
  "ensure_ct_source_tx now source d = Inr (x, d') \<Longrightarrow> bystander d d'"
  "mark_ct_feed_healthy_tx now source position d = Inr (x, d') \<Longrightarrow> bystander d d'"
  "queue_ct_lag_alert_tx now source d = Inr (x, d') \<Longrightarrow> bystander d d'"
  by (auto simp: ensure_ct_source_tx_def mark_ct_feed_healthy_tx_def queue_ct_lag_alert_tx_def Let_def
      txn_Inr insert_checkpoint_bystander bump_fence_def split: if_splits option.splits)
    (rule bystander_fenced; simp add: same_core_def)+

lemma record_certificate_bystander:
  assumes "record_certificate_tx i m d = Inr (x, d')"
  shows "bystander d d'"
proof -
  from assms obtain c e where "insert_certificate c d = Inr e" and d': "d' = insert_audit i None ''certificate_expected'' e"
    by (auto simp: record_certificate_tx_def txn_Inr split: sum.splits if_splits)
  then have "installations e = installations d" "reservations e = reservations d" "operations e = operations d"
    "audit e = audit d" "fence e = fence d" "same_core d e"
    by (auto simp: insert_certificate_def same_core_def split: if_splits)
  with d' show ?thesis
    by (auto simp: bystander_def same_core_def insert_audit_def intro: evolves_audited)
qed

lemma alert_unexpected_bystander:
  assumes "alert_unexpected ob d = Inr d'"
  shows "bystander d d'"
proof (cases "co_expected ob")
  case False
  with assms obtain e where e: "insert_alert ob d = Inr e"
    and d': "d' = (case co_installation ob of None \<Rightarrow> e | Some i \<Rightarrow> insert_audit i None ''unexpected_ct'' e)"
    by (auto simp: alert_unexpected_def txn_Inr)
  from e have "bystander d e"
    by (auto simp: insert_alert_def Let_def bump_fence_def same_core_def intro!: bystander_fenced split: if_splits)
  moreover have "bystander e d'" by (simp add: d' insert_audit_bystander split: option.split)
  ultimately show ?thesis by (rule bystander_trans)
qed (use assms in \<open>simp add: alert_unexpected_def\<close>)

lemma insert_observation_bystander: "insert_observation ob d = Inr d' \<Longrightarrow> bystander d d'"
  by (auto simp: insert_observation_def bystander_def same_core_def evolves_def security_view_def split: if_splits)

lemma observe_ct_cases:
  assumes "observe_ct_tx now source position host fingerprint d = Inr (x, d')"
  obtains (replay) "d' = d"
  | (observed) ob d1 d2 d3 where "d1 = insert_checkpoint now source d" "insert_observation ob d1 = Inr d2"
      "alert_unexpected ob d2 = Inr d3" "d' = move_checkpoint now source (as_i64 position) d3" "x = co_expected ob"
  using assms
  by (auto simp: observe_ct_tx_def txn_Inr Let_def split: sum.splits if_splits)

lemma observe_ct_bystander:
  assumes "observe_ct_tx now source position host fingerprint d = Inr (x, d')"
  shows "bystander d d'"
  using assms
proof (cases rule: observe_ct_cases)
  case (observed ob d1 d2 d3)
  have "bystander d d1" by (simp add: observed(1) insert_checkpoint_bystander)
  also have "bystander d1 d2" by (rule insert_observation_bystander [OF observed(2)])
  also have "bystander d2 d3" by (rule alert_unexpected_bystander [OF observed(3)])
  also have "bystander d3 d'" by (simp add: observed(4) move_checkpoint_bystander)
  finally show ?thesis .
qed simp

section \<open>Steps and runs\<close>

lemmas bystanders = bootstrap_bystanders outbox_bystanders delivered_bystanders ct_bystanders
  record_certificate_bystander observe_ct_bystander

lemmas core_ok = allocate_ok register_acme_ok mark_dns_ready_ok retire_ok relocate_ok expire_pending_ok
  issue_bearer_ok renew_bearer_ok claim_tunnel_ok renew_lease_ok ensure_challenge_ok reconciled_ok
  expire_values_ok

lemmas core_evolves = allocate_evolves register_acme_evolves mark_dns_ready_evolves retire_evolves
  relocate_evolves expire_pending_evolves issue_bearer_evolves renew_bearer_evolves claim_tunnel_evolves
  renew_lease_evolves ensure_challenge_evolves reconciled_evolves expire_values_evolves

lemma bystander_ok: "bystander d d' \<Longrightarrow> store_ok d \<Longrightarrow> store_ok d'"
  by (auto simp: bystander_def intro: same_core_ok)

lemma bystander_evolves: "bystander d d' \<Longrightarrow> evolves d d'"
  by (simp add: bystander_def)

lemma perform_evolves: "perform K now op d = Inr (v, d') \<Longrightarrow> evolves d d'"
  by (cases op)
    (auto simp: tx_value_Inr split: if_splits dest: core_evolves bystanders [THEN bystander_evolves])

lemma perform_ok: "perform K now op d = Inr (v, d') \<Longrightarrow> store_ok d \<Longrightarrow> store_ok d'"
  by (cases op)
    (auto simp: tx_value_Inr split: if_splits dest: core_ok [rotated] bystanders [THEN bystander_ok])

text \<open>
  The store is a step-wise system whose invariant is \<open>store_ok\<close> and whose order is the
  clock together with \<open>evolves\<close>.
\<close>

definition state_invariant :: "store_state \<Rightarrow> bool" where
  "state_invariant s \<longleftrightarrow> store_ok (snd s)"

definition state_evolves :: "store_state \<Rightarrow> store_state \<Rightarrow> bool" where
  "state_evolves s s' \<longleftrightarrow> fst s \<le> fst s' \<and> evolves (snd s) (snd s')"

lemma store_step_ok: "store_step K s e s' \<Longrightarrow> state_invariant s \<Longrightarrow> state_invariant s'"
  by (auto simp: state_invariant_def elim!: store_stepE dest: perform_ok)

lemma store_step_evolves: "store_step K s e s' \<Longrightarrow> state_evolves s s'"
  by (auto simp: state_evolves_def elim!: store_stepE dest: perform_evolves)

interpretation store: stepwise "store_step K" state_invariant state_evolves for K
proof unfold_locales
  fix s e s'
  show "store_step K s e s' \<Longrightarrow> state_invariant s \<Longrightarrow> state_invariant s'" by (rule store_step_ok)
  show "store_step K s e s' \<Longrightarrow> state_invariant s \<Longrightarrow> state_evolves s s'" by (rule store_step_evolves)
  fix s'' show "state_evolves s s" by (simp add: state_evolves_def)
  show "state_evolves s s' \<Longrightarrow> state_evolves s' s'' \<Longrightarrow> state_evolves s s''"
    by (auto simp: state_evolves_def intro: db_evolves_trans)
qed

abbreviation store_runs :: "store_params \<Rightarrow> store_state \<Rightarrow> store_event list \<Rightarrow> store_state \<Rightarrow> bool" where
  "store_runs K \<equiv> runs (store_step K)"

lemma runs_ok: "store_runs K (now, d) es (t, d') \<Longrightarrow> store_ok d \<Longrightarrow> store_ok d'"
  using store.runs_invariant [of K "(now, d)" es "(t, d')"] by (simp add: state_invariant_def)

lemma runs_evolve: "store_runs K (now, d) es (t, d') \<Longrightarrow> store_ok d \<Longrightarrow> evolves d d' \<and> now \<le> t"
  using store.runs_evolves [of K "(now, d)" es "(t, d')"]
  by (simp add: state_invariant_def state_evolves_def)

text \<open>The row of an installation after a run.\<close>

lemma runs_row:
  assumes "store_runs K (now, d) es (t, d')" and "store_ok d" and "r \<in> set (installations d)"
  obtains r' where "r' \<in> set (installations d')" "row_evolves r r'"
  using runs_evolve [OF assms(1,2)] assms(3) by (auto simp: evolves_def rows_evolve_def)

end
