(* ===== verification/Store_Fencing.thy ===== *)
theory Store_Fencing
  imports Store_History
begin

text \<open>
  What the generations and revisions of the store fence off. Credentials are never deleted
  and stay revoked; a credential or lease that appears is newer than everything its
  installation had; a challenge set changes only together with its revision. These
  relations compose over runs, so they hold between any two moments of a history.
\<close>

section \<open>Relations between two moments\<close>

definition credential_evolves :: "credential \<Rightarrow> credential \<Rightarrow> bool" where
  "credential_evolves c c' \<longleftrightarrow> credential_key c' = credential_key c
     \<and> cr_token_hash c' = cr_token_hash c \<and> cr_expires_at c' = cr_expires_at c
     \<and> (cr_revoked_at c \<noteq> None \<longrightarrow> cr_revoked_at c' \<noteq> None)"

definition newer_than :: "installation list \<Rightarrow> uuid \<Rightarrow> int \<Rightarrow> bool" where
  "newer_than t i g \<longleftrightarrow> (\<forall>r \<in> set t. in_id r = i \<longrightarrow> in_generation r < g)"

definition credentials_evolve :: "db \<Rightarrow> db \<Rightarrow> bool" where
  "credentials_evolve d d' \<longleftrightarrow>
     (\<forall>c \<in> set (credentials d). \<exists>c' \<in> set (credentials d'). credential_evolves c c')
     \<and> (\<forall>c' \<in> set (credentials d'). (\<exists>c \<in> set (credentials d). credential_evolves c c')
          \<or> newer_than (installations d) (cr_installation c') (cr_generation c'))"

definition leases_evolve :: "db \<Rightarrow> db \<Rightarrow> bool" where
  "leases_evolve d d' \<longleftrightarrow> (\<forall>l' \<in> set (tunnel_leases d').
     (\<exists>l \<in> set (tunnel_leases d). tl_installation l' = tl_installation l
        \<and> tl_generation l' = tl_generation l \<and> tl_gateway l' = tl_gateway l)
     \<or> newer_than (installations d) (tl_installation l') (tl_generation l'))"

definition revision_of :: "db \<Rightarrow> uuid \<Rightarrow> int" where
  "revision_of d i = (case state_of d i of None \<Rightarrow> 0 | Some s \<Rightarrow> cs_revision s)"

definition values_of :: "db \<Rightarrow> uuid \<Rightarrow> string set" where
  "values_of d i = cv_txt ` {v \<in> set (challenge_values d). cv_installation v = i}"

definition retired :: "db \<Rightarrow> uuid \<Rightarrow> bool" where
  "retired d i \<longleftrightarrow> row_with (installations d) i (\<lambda>r. in_state r = Retired)"

definition challenges_evolve :: "db \<Rightarrow> db \<Rightarrow> bool" where
  "challenges_evolve d d' \<longleftrightarrow> (\<forall>i. revision_of d i \<le> revision_of d' i
     \<and> (revision_of d' i = revision_of d i \<longrightarrow> retired d' i \<or> values_of d' i = values_of d i))"

definition fences :: "db \<Rightarrow> db \<Rightarrow> bool" where
  "fences d d' \<longleftrightarrow> evolves d d' \<and> credentials_evolve d d' \<and> leases_evolve d d' \<and> challenges_evolve d d'"

section \<open>Composition\<close>

lemma credential_evolves_refl [simp]: "credential_evolves c c"
  by (simp add: credential_evolves_def)

lemma credential_evolves_trans: "credential_evolves a b \<Longrightarrow> credential_evolves b c \<Longrightarrow> credential_evolves a c"
  by (auto simp: credential_evolves_def)

lemma newer_than_evolves:
  "rows_evolve t t' \<Longrightarrow> newer_than t' i g \<Longrightarrow> newer_than t i g"
  by (fastforce simp: newer_than_def rows_evolve_def row_evolves_def)

lemma retired_evolves: "evolves d d' \<Longrightarrow> retired d i \<Longrightarrow> retired d' i"
  by (fastforce simp: evolves_def rows_evolve_def row_evolves_def retired_def row_with_def)

lemma credentials_evolve_same: "credentials d' = credentials d \<Longrightarrow> credentials_evolve d d'"
  by (auto simp: credentials_evolve_def intro: credential_evolves_refl)

lemma leases_evolve_subset: "set (tunnel_leases d') \<subseteq> set (tunnel_leases d) \<Longrightarrow> leases_evolve d d'"
  by (auto simp: leases_evolve_def)

lemma challenges_evolve_same:
  "challenge_values d' = challenge_values d \<Longrightarrow> challenge_states d' = challenge_states d \<Longrightarrow> challenges_evolve d d'"
  by (simp add: challenges_evolve_def revision_of_def state_of_def values_of_def)

lemma fences_refl [simp]: "fences d d"
  by (simp add: fences_def credentials_evolve_same leases_evolve_subset challenges_evolve_same)

lemma credentials_evolve_trans:
  assumes rows: "rows_evolve (installations d) (installations e)"
    and de: "credentials_evolve d e" and ef: "credentials_evolve e f"
  shows "credentials_evolve d f"
  unfolding credentials_evolve_def
proof (intro conjI ballI)
  fix c assume "c \<in> set (credentials d)"
  with de ef show "\<exists>c' \<in> set (credentials f). credential_evolves c c'"
    unfolding credentials_evolve_def by (meson credential_evolves_trans)
next
  fix c'' assume "c'' \<in> set (credentials f)"
  with ef consider c' where "c' \<in> set (credentials e)" "credential_evolves c' c''"
    | "newer_than (installations e) (cr_installation c'') (cr_generation c'')"
    unfolding credentials_evolve_def by blast
  then show "(\<exists>c \<in> set (credentials d). credential_evolves c c'')
      \<or> newer_than (installations d) (cr_installation c'') (cr_generation c'')"
  proof cases
    case 1
    with de consider c where "c \<in> set (credentials d)" "credential_evolves c c'"
      | "newer_than (installations d) (cr_installation c') (cr_generation c')"
      unfolding credentials_evolve_def by blast
    then show ?thesis using 1(2) credential_evolves_trans by cases (auto simp: credential_evolves_def)
  qed (use newer_than_evolves [OF rows] in blast)
qed

lemma leases_evolve_trans:
  assumes rows: "rows_evolve (installations d) (installations e)"
    and de: "leases_evolve d e" and ef: "leases_evolve e f"
  shows "leases_evolve d f"
  unfolding leases_evolve_def
proof
  fix l'' assume "l'' \<in> set (tunnel_leases f)"
  with ef consider l' where "l' \<in> set (tunnel_leases e)" "tl_installation l'' = tl_installation l'"
      "tl_generation l'' = tl_generation l'" "tl_gateway l'' = tl_gateway l'"
    | "newer_than (installations e) (tl_installation l'') (tl_generation l'')"
    unfolding leases_evolve_def by blast
  then show "(\<exists>l \<in> set (tunnel_leases d). tl_installation l'' = tl_installation l
        \<and> tl_generation l'' = tl_generation l \<and> tl_gateway l'' = tl_gateway l)
      \<or> newer_than (installations d) (tl_installation l'') (tl_generation l'')"
  proof cases
    case 1
    with de show ?thesis unfolding leases_evolve_def by simp
  qed (use newer_than_evolves [OF rows] in blast)
qed

lemma challenges_evolve_trans:
  assumes "evolves e f" and "challenges_evolve d e" and "challenges_evolve e f"
  shows "challenges_evolve d f"
  unfolding challenges_evolve_def
proof (intro allI conjI impI)
  fix i
  have le: "revision_of d i \<le> revision_of e i" "revision_of e i \<le> revision_of f i"
    using assms(2,3) by (simp_all add: challenges_evolve_def)
  then show "revision_of d i \<le> revision_of f i" by simp
  assume "revision_of f i = revision_of d i"
  with le have "revision_of e i = revision_of d i" "revision_of f i = revision_of e i" by simp_all
  with assms(2,3) have "retired e i \<or> values_of e i = values_of d i" "retired f i \<or> values_of f i = values_of e i"
    by (simp_all add: challenges_evolve_def)
  with retired_evolves [OF assms(1)] show "retired f i \<or> values_of f i = values_of d i" by auto
qed

lemma fences_trans:
  assumes "fences d e" and "fences e f"
  shows "fences d f"
proof -
  from assms(1) have "rows_evolve (installations d) (installations e)" by (simp add: fences_def evolves_def)
  with assms show ?thesis
    unfolding fences_def
    using db_evolves_trans credentials_evolve_trans leases_evolve_trans challenges_evolve_trans by blast
qed

section \<open>The operations\<close>

lemma fencesI:
  "evolves d d' \<Longrightarrow> credentials_evolve d d' \<Longrightarrow> leases_evolve d d' \<Longrightarrow> challenges_evolve d d' \<Longrightarrow> fences d d'"
  by (simp add: fences_def)

lemma fences_same:
  assumes "evolves d d'" and "credentials d' = credentials d" and "set (tunnel_leases d') \<subseteq> set (tunnel_leases d)"
    and "challenge_values d' = challenge_values d" and "challenge_states d' = challenge_states d"
  shows "fences d d'"
  using assms by (intro fencesI credentials_evolve_same leases_evolve_subset challenges_evolve_same)

lemma bystander_fences: "bystander d d' \<Longrightarrow> fences d d'"
  by (rule fences_same) (auto simp: bystander_def same_core_def)

lemma allocate_fences:
  assumes "allocate_tx b32 now i random op key placement d = Inr (a, d')"
  shows "fences d d'"
proof (cases "operation_installation d op")
  case None
  with assms have "credentials d' = credentials d" "tunnel_leases d' = tunnel_leases d"
    "challenge_values d' = challenge_values d" "challenge_states d' = challenge_states d"
    by (simp_all add: allocate_fresh insert_audit_def insert_outbox_def)
  with allocate_evolves [OF assms] show ?thesis by (intro fences_same) simp_all
qed (use assms in \<open>simp add: allocate_replay\<close>)

lemma register_acme_fences:
  assumes "register_acme_tx env now i uri d = Inr (x, d')"
  shows "fences d d'"
  using assms
  by (rule register_acme_tx_Inr)
    (rule fences_same [OF register_acme_evolves [OF assms]]; simp add: insert_audit_def insert_outbox_def)

lemma mark_dns_ready_fences:
  assumes "mark_dns_ready_tx i d = Inr (x, d')"
  shows "fences d d'"
  using assms
proof (cases rule: mark_dns_ready_tx_Inr)
  case ready
  then show ?thesis
    by (intro fences_same [OF mark_dns_ready_evolves [OF assms]]) (simp_all add: insert_audit_def)
qed simp

lemma expire_pending_fences:
  assumes "expire_pending_tx now i d = Inr (x, d')"
  shows "fences d d'"
  using assms
proof (cases rule: expire_pending_tx_Inr)
  case (expired r)
  then show ?thesis
    by (intro fences_same [OF expire_pending_evolves [OF assms]])
      (simp_all add: insert_audit_def remove_jobs_def insert_outbox_def)
qed simp

lemma relocate_fences:
  assumes "relocate_tx P now i op placement d = Inr (x, d')"
  shows "fences d d'"
  using assms
proof (cases rule: relocate_tx_Inr)
  case (fresh r op_row)
  then show ?thesis
    by (intro fences_same [OF relocate_evolves [OF assms]])
      (auto simp: insert_audit_def insert_outbox_def delete_lease_def)
qed simp

text \<open>Retirement drops the challenge values without a new revision, and is final.\<close>

lemma retire_fences:
  assumes "retire_tx P now i op d = Inr (x, d')"
  shows "fences d d'"
  using assms
proof (cases rule: retire_tx_Inr)
  case (again op_row r)
  then show ?thesis by (intro fences_same [OF retire_evolves [OF assms]]) simp_all
next
  case (fresh r op_row)
  have "installations d' = update_rows (\<lambda>r. in_id r = i \<and> in_state r \<noteq> Retired)
      (\<lambda>r. (retire_row now r)\<lparr>in_generation := in_generation r + 1\<rparr>) (installations d)"
    using fresh(10) by (simp add: insert_audit_def delete_challenges_def remove_jobs_def insert_outbox_def
        delete_lease_def)
  then have "retired d' i"
    using fresh(2-4) by (auto simp: retired_def retire_row_def row_with_update) (auto simp: row_with_def)
  moreover have "values_of d' j = values_of d j" if "j \<noteq> i" for j
    using that fresh(10)
    by (auto simp: values_of_def insert_audit_def delete_challenges_def remove_jobs_def insert_outbox_def
        delete_lease_def)
  moreover have "revision_of d' j = revision_of d j" for j
    using fresh(10)
    by (simp add: revision_of_def state_of_def insert_audit_def delete_challenges_def remove_jobs_def
        insert_outbox_def delete_lease_def)
  ultimately have "challenges_evolve d d'" unfolding challenges_evolve_def by (metis order_refl)
  then show ?thesis
    using fresh(10)
    by (intro fencesI [OF retire_evolves [OF assms]] credentials_evolve_same leases_evolve_subset)
      (auto simp: insert_audit_def delete_challenges_def remove_jobs_def insert_outbox_def delete_lease_def)
qed simp

lemma place_fences:
  assumes ok: "store_ok d" and r: "r \<in> set (installations d)" "in_id r = i"
    and place: "place_credential now i op scope kind digest th (in_generation r + 1) life aop event
      (revoke now q (d\<lparr>installations := update_rows p (\<lambda>r. r\<lparr>in_generation := in_generation r + 1\<rparr>) (installations d)\<rparr>))
      = Inr (x, d')"
  shows "fences d d'"
proof (rule fencesI [OF place_evolves [OF place]])
  let ?c = "new_credential now i scope (in_generation r + 1) th life"
  let ?old = "update_rows q (cr_revoked_at_update (\<lambda>_. Some now)) (credentials d)"
  note placed = place_credential_Inr(4) [OF place]
  have creds: "credentials d' = ?old @ [?c]" using placed by (simp add: revoke_def)
  have "newer_than (installations d) i (in_generation r + 1)"
    using same_row [OF ok r(1)] r(2) by (auto simp: newer_than_def)
  moreover have "\<exists>c' \<in> set ?old. credential_evolves c c'" if "c \<in> set (credentials d)" for c
    using that
    by (intro bexI [of _ "if q c then c\<lparr>cr_revoked_at := Some now\<rparr> else c"])
      (auto simp: set_update_rows credential_evolves_def)
  moreover have "\<exists>c \<in> set (credentials d). credential_evolves c c'" if "c' \<in> set ?old" for c'
  proof -
    from that obtain c where "c \<in> set (credentials d)" "c' = (if q c then c\<lparr>cr_revoked_at := Some now\<rparr> else c)"
      by (auto simp: in_update_rows)
    then show ?thesis by (intro bexI [of _ c]) (auto simp: credential_evolves_def)
  qed
  ultimately show "credentials_evolve d d'"
    by (auto simp: credentials_evolve_def creds new_credential_def)
  show "leases_evolve d d'" using placed by (intro leases_evolve_subset) (auto simp: revoke_def)
  show "challenges_evolve d d'" using placed by (intro challenges_evolve_same) (simp_all add: revoke_def)
qed

lemma issue_bearer_fences:
  assumes "store_ok d" and "issue_bearer_tx P cw now i op scope th validity d = Inr (x, d')"
  shows "fences d d'"
  using assms(2) by (rule issue_bearer_tx_Inr) (auto intro: place_fences [OF assms(1)])

lemma renew_bearer_fences:
  assumes "store_ok d" and "renew_bearer_tx P cw now i op scope g token th d = Inr (x, d')"
  shows "fences d d'"
  using assms(2) by (rule renew_bearer_tx_Inr) (auto intro: place_fences [OF assms(1)])

lemma claim_tunnel_fences:
  assumes "store_ok d" and "claim_tunnel_tx now i gateway ttl d = Inr (x, d')"
  shows "fences d d'"
  using assms(2)
proof (cases rule: claim_tunnel_tx_Inr)
  case (1 r)
  have "newer_than (installations d) i (in_generation r + 1)"
    using same_row [OF assms(1) 1(4)] 1(5) by (auto simp: newer_than_def)
  then have "leases_evolve d d'"
    using 1(10) by (auto simp: leases_evolve_def insert_audit_def upsert_lease_def in_update_rows split: if_splits)
  then show ?thesis
    using 1(10) by (intro fencesI [OF claim_tunnel_evolves [OF assms(2)]] credentials_evolve_same challenges_evolve_same)
      (simp_all add: insert_audit_def upsert_lease_def)
qed

lemma renew_lease_fences:
  assumes "renew_lease now i gateway g d = Inr (x, d')"
  shows "fences d d'"
proof -
  let ?t = "update_rows (lease_is_current now i gateway g) (tl_expires_at_update (\<lambda>_. now + seconds 45)) (tunnel_leases d)"
  have "\<forall>l' \<in> set ?t. \<exists>l \<in> set (tunnel_leases d). tl_installation l' = tl_installation l
      \<and> tl_generation l' = tl_generation l \<and> tl_gateway l' = tl_gateway l"
    unfolding ball_update_rows by auto
  with assms have "leases_evolve d d'" by (auto simp: renew_lease_def leases_evolve_def)
  then show ?thesis
    using assms
    by (intro fencesI [OF renew_lease_evolves [OF assms]] credentials_evolve_same challenges_evolve_same)
      (auto simp: renew_lease_def)
qed

lemma fetch_update_rows:
  assumes "\<And>r. q (f r) = q r"
  shows "fetch_optional q (update_rows p f t) = map_option (\<lambda>r. if p r then f r else r) (fetch_optional q t)"
  using assms by (induction t) (auto simp: fetch_optional_def update_rows_def)

lemma revision_of_ensure: "revision_of (ensure_state i d) j = revision_of d j"
proof -
  have "List.find p (t @ [s]) = (case List.find p t of None \<Rightarrow> if p s then Some s else None | Some x \<Rightarrow> Some x)"
    for p and t :: "challenge_state list" and s
    by (induction t) auto
  then show ?thesis
    by (auto simp: revision_of_def state_of_def ensure_state_def Let_def fetch_optional_def split: option.splits)
qed

lemma ensure_state_fences: "fences d (ensure_state i d)"
proof -
  have "values_of (ensure_state i d) j = values_of d j" for j
    by (simp add: values_of_def ensure_state_def Let_def)
  then have "challenges_evolve d (ensure_state i d)"
    by (simp add: challenges_evolve_def revision_of_ensure)
  then show ?thesis
    by (intro fencesI ensure_state_evolves credentials_evolve_same leases_evolve_subset)
      (simp_all add: ensure_state_def Let_def)
qed

lemma revision_of_changed:
  assumes "challenge_set_changed now i event d = Inr d'"
    and "i \<in> cs_installation ` set (challenge_states d)"
  shows "revision_of d' j = revision_of d j + (if j = i then 1 else 0)"
proof -
  let ?f = "\<lambda>s. s\<lparr>cs_revision := cs_revision s + 1\<rparr>"
  have "challenge_states d' = update_rows (\<lambda>s. cs_installation s = i) ?f (challenge_states d)"
    using assms(1) by (simp add: challenge_set_changed_Inr insert_audit_def insert_outbox_def)
  then have "state_of d' j = map_option (\<lambda>s. if cs_installation s = i then ?f s else s) (state_of d j)"
    by (simp add: state_of_def fetch_update_rows)
  moreover have "state_of d i \<noteq> None"
    using assms(2) by (auto simp: state_of_def fetch_optional_None)
  moreover have "cs_installation s = j" if "state_of d j = Some s" for s
    using that fetch_optional_Some by (fastforce simp: state_of_def)
  ultimately show ?thesis by (auto simp: revision_of_def split: option.splits)
qed

lemma challenge_set_changed_fences:
  assumes changed: "challenge_set_changed now i event (d\<lparr>challenge_values := vs\<rparr>) = Inr d'"
    and state: "i \<in> cs_installation ` set (challenge_states d)"
    and others: "\<And>v. cv_installation v \<noteq> i \<Longrightarrow> v \<in> set vs \<longleftrightarrow> v \<in> set (challenge_values d)"
  shows "fences d d'"
proof (rule fencesI [OF challenge_set_changed_evolves [OF changed]])
  have vals: "challenge_values d' = vs" "credentials d' = credentials d" "tunnel_leases d' = tunnel_leases d"
    using changed by (simp_all add: challenge_set_changed_Inr insert_audit_def insert_outbox_def)
  then show "credentials_evolve d d'" "leases_evolve d d'"
    by (simp_all add: credentials_evolve_same leases_evolve_subset)
  have "revision_of d' j = revision_of d j + (if j = i then 1 else 0)" for j
    using revision_of_changed [OF changed] state by (simp add: revision_of_def state_of_def)
  moreover have "values_of d' j = values_of d j" if "j \<noteq> i" for j
    using others that vals(1) by (auto simp: values_of_def)
  ultimately show "challenges_evolve d d'" by (simp add: challenges_evolve_def)
qed

lemma refresh_value_fences: "fences d (refresh_value now i txt d)"
proof -
  have keys: "values_of e j = {t. (j, t) \<in> value_key ` set (challenge_values e)}" for e j
    by (auto simp: values_of_def)
  have "value_key ` set (challenge_values (refresh_value now i txt d)) = value_key ` set (challenge_values d)"
    by (simp add: refresh_value_def keys_update_rows)
  then have "values_of (refresh_value now i txt d) j = values_of d j" for j
    by (simp add: keys)
  then have "challenges_evolve d (refresh_value now i txt d)"
    by (simp add: challenges_evolve_def revision_of_def state_of_def refresh_value_def)
  then show ?thesis
    by (intro fencesI credentials_evolve_same leases_evolve_subset)
      (simp_all add: refresh_value_def evolves_def security_view_def)
qed

lemma ensure_challenge_fences:
  assumes "store_ok d" and "ensure_challenge_tx now i g txt d = Inr (x, d')"
  shows "fences d d'"
  using assms(2)
proof (cases rule: ensure_challenge_tx_Inr)
  case (refreshed r v)
  with fences_trans [OF ensure_state_fences refresh_value_fences] show ?thesis by simp
next
  case (added r)
  from added(6) have "fences (ensure_state i d) d'"
  proof (cases rule: add_value_Inr)
    case (1 v)
    show ?thesis
      by (rule challenge_set_changed_fences [OF 1(4) ensure_state_ok(2) [OF assms(1)]])
        (use 1(1) in \<open>auto simp: value_lapsed_def\<close>)
  qed
  with ensure_state_fences show ?thesis by (rule fences_trans)
qed

lemma reconciled_fences:
  assumes "reconciled_tx i revision d = Inr (x, d')"
  shows "fences d d'"
proof -
  from assms have "challenges_evolve d d'"
    by (auto simp: reconciled_tx_def Let_def challenges_evolve_def revision_of_def state_of_def
        fetch_update_rows values_of_def split: option.splits)
  then show ?thesis
    using assms
    by (intro fencesI [OF reconciled_evolves [OF assms]] credentials_evolve_same leases_evolve_subset)
      (auto simp: reconciled_tx_def Let_def)
qed

lemma expire_values_fences:
  assumes "store_ok d" and "expire_values_tx now i d = Inr (x, d')"
  shows "fences d d'"
  using assms(2)
proof (cases rule: expire_values_tx_Inr)
  case (expired v)
  have "i \<in> cs_installation ` set (challenge_states d)"
    using store_okD(6) [OF assms(1)] expired(2,3) by (auto simp: challenges_ok_def value_lapsed_def)
  then show ?thesis
    by (rule challenge_set_changed_fences [OF expired(4)]) (auto simp: value_lapsed_def)
qed simp

section \<open>Steps and runs\<close>

lemmas core_fences = allocate_fences register_acme_fences mark_dns_ready_fences expire_pending_fences
  relocate_fences retire_fences renew_lease_fences reconciled_fences

lemmas core_fences_ok = issue_bearer_fences renew_bearer_fences claim_tunnel_fences
  ensure_challenge_fences expire_values_fences

lemma perform_fences: "perform K now op d = Inr (v, d') \<Longrightarrow> store_ok d \<Longrightarrow> fences d d'"
  by (cases op)
    (auto simp: tx_value_Inr split: if_splits
      dest: core_fences core_fences_ok [rotated] bystanders [THEN bystander_fences])

definition state_fences :: "store_state \<Rightarrow> store_state \<Rightarrow> bool" where
  "state_fences s s' \<longleftrightarrow> fst s \<le> fst s' \<and> fences (snd s) (snd s')"

interpretation fencing: stepwise "store_step K" state_invariant state_fences for K
proof unfold_locales
  fix s e s'
  show "store_step K s e s' \<Longrightarrow> state_invariant s \<Longrightarrow> state_invariant s'" by (rule store_step_ok)
  show "store_step K s e s' \<Longrightarrow> state_invariant s \<Longrightarrow> state_fences s s'"
    by (auto simp: state_fences_def state_invariant_def elim!: store_stepE dest: perform_fences)
  fix s'' show "state_fences s s" by (simp add: state_fences_def)
  show "state_fences s s' \<Longrightarrow> state_fences s' s'' \<Longrightarrow> state_fences s s''"
    by (auto simp: state_fences_def intro: fences_trans)
qed

lemma runs_fence: "store_runs K (now, d) es (t, d') \<Longrightarrow> store_ok d \<Longrightarrow> fences d d'"
  using fencing.runs_evolves [of K "(now, d)" es "(t, d')"]
  by (simp add: state_invariant_def state_fences_def)

end
