(* ===== verification/Store_Properties.thy ===== *)
theory Store_Properties
  imports Store_Fencing
begin

text \<open>
  The promises of the store, over histories of any length: the invariant, permanence of
  hostnames, fencing of bearers and tunnels by generation, renewal, replay of operation
  ids, finality of retirement, and the meaning of challenge readiness. The last section
  runs a concrete history of one installation for the witnesses.
\<close>

section \<open>A concrete history\<close>

text \<open>The transactions of a schedule, one after the other.\<close>

fun trace :: "store_params \<Rightarrow> (timestamp \<times> store_op) list \<Rightarrow> db \<Rightarrow> store_event list \<times> db" where
  "trace K [] d = ([], d)"
| "trace K ((t, op) # ops) d =
     (case perform K t op d of
        Inl e \<Rightarrow> (let (es, d') = trace K ops d in ((t, op, Inl e) # es, d'))
      | Inr (v, d1) \<Rightarrow> (let (es, d') = trace K ops d1 in ((t, op, Inr v) # es, d')))"

fun end_time :: "timestamp \<Rightarrow> (timestamp \<times> store_op) list \<Rightarrow> timestamp" where
  "end_time now [] = now"
| "end_time now ((t, _) # ops) = end_time t ops"

fun in_order :: "timestamp \<Rightarrow> (timestamp \<times> store_op) list \<Rightarrow> bool" where
  "in_order now [] \<longleftrightarrow> True"
| "in_order now ((t, _) # ops) \<longleftrightarrow> now \<le> t \<and> in_order t ops"

lemma trace_runs:
  "in_order now ops \<Longrightarrow> trace K ops d = (es, d') \<Longrightarrow> store_runs K (now, d) es (end_time now ops, d')"
proof (induction ops arbitrary: now d es)
  case (Cons x ops)
  obtain t op where x: "x = (t, op)" by (cases x)
  show ?case
  proof (cases "perform K t op d")
    case (Inl e)
    with Cons.prems x obtain es' where "trace K ops d = (es', d')" "es = (t, op, Inl e) # es'"
      by (auto split: prod.splits)
    with Cons x Inl show ?thesis by (auto intro!: runs_cons store_step.failed)
  next
    case (Inr b)
    obtain v d1 where b: "b = (v, d1)" by (cases b)
    with Inr Cons.prems x obtain es' where "trace K ops d1 = (es', d')" "es = (t, op, Inr v) # es'"
      by (auto split: prod.splits)
    with Cons x Inr b show ?thesis by (auto intro!: runs_cons store_step.committed)
  qed
qed (auto intro: runs_nil)

text \<open>
  Stand-ins for the primitives of other crates: a digest that pads or cuts to 32 bytes, and
  an encoder with the alphabet of the relay's labels. The signature primitives are unused by
  the store.
\<close>

definition example_prims :: prims where
  "example_prims = \<lparr>p_sha256 = (\<lambda>bs. take 32 (bs @ replicate 32 0)), p_key_ok = (\<lambda>_. True),
     p_verify = (\<lambda>_ _ _. True), p_b64_decode = (\<lambda>s. Some (as_bytes s)), p_b64_encode = (\<lambda>_. []),
     p_jcs_claims = (\<lambda>_. Some []), p_jcs_receipt = (\<lambda>_. Some [])\<rparr>"

definition example_params :: store_params where
  "example_params = \<lparr>k_prims = example_prims, k_b32 = (\<lambda>bs. map (\<lambda>_. CHR ''a'') bs @ ''2345672345''),
     k_acme = Production, k_windows = windows_default\<rparr>"

definition example_token :: string where
  "example_token = replicate 43 CHR ''t''"

definition example_hash :: bytes where
  "example_hash = p_sha256 example_prims (as_bytes example_token)"

definition example_setup :: "(timestamp \<times> store_op) list" where
  "example_setup =
     [(seconds 1, Allocate 1 (replicate 16 0) 10 (replicate 32 7) ''eu''),
      (seconds 2, RegisterAcme 1 ''https://acme-v02.api.letsencrypt.org/acme/acct/1''),
      (seconds 3, MarkDnsReady 1),
      (seconds 4, IssueBearer 1 11 ''tunnel'' example_hash 3600),
      (seconds 5, IssueBearer 1 12 ''dns_challenge'' example_hash 3600),
      (seconds 6, ClaimTunnel 1 ''eu'' 30)]"

definition example_db :: db where
  "example_db = snd (trace example_params example_setup empty_db)"

text \<open>The database it leads to, written out.\<close>

lemma example_db_value [code]: "example_db =
  \<lparr>installations =
    [\<lparr>in_id = 1,
        in_hostname = ''aaaaaaaaaaaaaaaa2345672345.relay.bloom.directory'',
        in_admin_key =
          replicate 32 7,
        in_placement = ''eu'', in_generation = 4, in_state = DnsReady,
        in_acme = Some ''https://acme-v02.api.letsencrypt.org/acme/acct/1'',
        in_created_at = 1000000, in_retired_at = None\<rparr>],
    reservations =
      [\<lparr>rv_hostname = ''aaaaaaaaaaaaaaaa2345672345.relay.bloom.directory'',
          rv_installation = 1\<rparr>],
    operations =
      [\<lparr>op_id = 10, op_installation = 1, op_kind = ''allocate'',
          op_digest =
            replicate 32 0,
          op_result =
            AllocationResult
             \<lparr>al_version = 1, al_installation_id = 1,
                al_hostname =
                  ''aaaaaaaaaaaaaaaa2345672345.relay.bloom.directory'',
                al_placement = ''eu'', al_state = PendingDns\<rparr>,
          op_created_at = 1000000\<rparr>,
       \<lparr>op_id = 11, op_installation = 1, op_kind = ''issue:tunnel'',
          op_digest =
            [98, 108, 111, 111, 109, 45, 114, 101, 108, 97, 121, 47, 105,
             115, 115, 117, 101, 45, 98, 101, 97, 114, 101, 114, 47, 118,
             49, 0, 116, 117, 110, 110],
          op_result = ReceiptResult 2 3604000, op_created_at = 4000000\<rparr>,
       \<lparr>op_id = 12, op_installation = 1, op_kind = ''issue:dns_challenge'',
          op_digest =
            [98, 108, 111, 111, 109, 45, 114, 101, 108, 97, 121, 47, 105,
             115, 115, 117, 101, 45, 98, 101, 97, 114, 101, 114, 47, 118,
             49, 0, 100, 110, 115, 95],
          op_result = ReceiptResult 3 3605000, op_created_at = 5000000\<rparr>],
    used_nonces = [], bootstrap_challenges = [],
    credentials =
      [\<lparr>cr_installation = 1, cr_scope = ''tunnel'', cr_generation = 2,
          cr_token_hash =
            replicate 32 116,
          cr_expires_at = 3604000000, cr_revoked_at = None\<rparr>,
       \<lparr>cr_installation = 1, cr_scope = ''dns_challenge'',
          cr_generation = 3,
          cr_token_hash =
            replicate 32 116,
          cr_expires_at = 3605000000, cr_revoked_at = None\<rparr>],
    tunnel_leases =
      [\<lparr>tl_installation = 1, tl_generation = 4, tl_gateway = ''eu'',
          tl_expires_at = 36000000\<rparr>],
    challenge_values = [], challenge_states = [], certificates = [],
    outbox =
      [\<lparr>ob_id = 1, ob_installation = 1, ob_kind = ''publish_name'',
          ob_payload =
            NamePayload ''aaaaaaaaaaaaaaaa2345672345.relay.bloom.directory''
             ''eu'',
          ob_attempts = 0, ob_next_attempt_at = 1000000,
          ob_completed_at = None\<rparr>,
       \<lparr>ob_id = 2, ob_installation = 1, ob_kind = ''publish_name'',
          ob_payload =
            HostnamePayload
             ''aaaaaaaaaaaaaaaa2345672345.relay.bloom.directory'',
          ob_attempts = 0, ob_next_attempt_at = 2000000,
          ob_completed_at = None\<rparr>],
    audit =
      [\<lparr>au_installation = 1, au_operation = Some 10,
          au_event = ''allocated''\<rparr>,
       \<lparr>au_installation = 1, au_operation = None,
          au_event = ''acme_account_bound''\<rparr>,
       \<lparr>au_installation = 1, au_operation = None, au_event = ''dns_ready''\<rparr>,
       \<lparr>au_installation = 1, au_operation = None,
          au_event = ''credential_rotated''\<rparr>,
       \<lparr>au_installation = 1, au_operation = None,
          au_event = ''credential_rotated''\<rparr>,
       \<lparr>au_installation = 1, au_operation = None,
          au_event = ''tunnel_claimed''\<rparr>],
    ct_checkpoints = [], ct_observations = [], ct_alerts = [],
    ct_health_alerts = [], fence = 7, next_job_id = 3, next_alert_id = 1,
    next_health_id = 1\<rparr>"
  unfolding example_db_def by code_simp

lemma example_runs:
  "store_runs example_params (0, empty_db) (fst (trace example_params example_setup empty_db)) (seconds 6, example_db)"
proof -
  have "in_order 0 example_setup" "end_time 0 example_setup = seconds 6" by code_simp+
  then show ?thesis
    using trace_runs [of 0 example_setup example_params empty_db] by (simp add: example_db_def)
qed

lemma example_ok: "store_ok example_db"
  using runs_ok [OF example_runs] empty_db_ok by simp

text \<open>A later moment reached from the example by further transactions.\<close>

lemma example_later:
  "in_order (seconds 6) ops \<Longrightarrow>
    store_runs example_params (seconds 6, example_db) (fst (trace example_params ops example_db))
      (end_time (seconds 6) ops, snd (trace example_params ops example_db))"
  using trace_runs [of "seconds 6" ops example_params example_db] by simp

section \<open>Invariant and permanence\<close>

text \<open>C12. Whatever requests the processes of the relay send and in whatever order they commit, the
  database satisfies the store's invariant: unique identifiers and hostnames, every hostname
  reserved, references into existing installations, generations that dominate all credentials
  and leases, one usable credential per scope and that the newest, leases only of ready
  installations on their placement, and at most two challenge values per installation.\<close>

theorem reachable_store_ok:
  assumes "store_runs K (now, empty_db) es (t, d)"
  shows "store_ok d"
  using runs_ok [OF assms] empty_db_ok by simp

theorem reachable_store_ok_witness: "store_ok example_db"
  by (rule reachable_store_ok [OF example_runs])

text \<open>C7. A hostname belongs to one installation for ever: if two installations that exist at any two
  moments of a history have the same hostname they are the same installation, with the same
  administrator key; retirement does not free the name.\<close>

theorem hostname_permanent:
  assumes "store_runs K (now, empty_db) es (t, d)" and "store_runs K (t, d) es' (t', d')"
    and "r \<in> set (installations d)" and "r' \<in> set (installations d')"
    and "in_hostname r = in_hostname r'"
  shows "in_id r = in_id r' \<and> in_admin_key r = in_admin_key r' \<and> in_hostname r' \<in> rv_hostname ` set (reservations d)"
proof -
  have ok: "store_ok d" using runs_ok [OF assms(1)] empty_db_ok by simp
  then have ok': "store_ok d'" using runs_ok [OF assms(2)] by simp
  obtain s where s: "s \<in> set (installations d')" "row_evolves r s" by (rule runs_row [OF assms(2) ok assms(3)])
  then have "s = r'"
    using ok' assms(4,5) unique_keyD [of in_hostname "installations d'" s r']
    by (simp add: store_ok_def ident_ok_def row_evolves_def)
  moreover have "in_hostname ` set (installations d) = rv_hostname ` set (reservations d)"
  proof -
    have "map fst (map (\<lambda>v. (rv_hostname v, rv_installation v)) (reservations d))
        = map fst (map (\<lambda>r. (in_hostname r, in_id r)) (installations d))"
      using ok by (simp only: store_ok_def ident_ok_def)
    then have "map rv_hostname (reservations d) = map in_hostname (installations d)" by (simp add: comp_def)
    then show ?thesis by (metis list.set_map)
  qed
  moreover have "in_hostname r \<in> in_hostname ` set (installations d)" using assms(3) by simp
  ultimately show ?thesis using s(2) assms(5) by (simp add: row_evolves_def)
qed

theorem hostname_permanent_witness:
  "in_id (hd (installations example_db)) = in_id (hd (installations (snd (trace example_params
       [(seconds 7, Retire 1 20), (seconds 8, Allocate 2 (replicate 16 0) 21 (replicate 32 9) ''eu'')] example_db))))
   \<and> in_admin_key (hd (installations example_db)) = replicate 32 7"
  (is "in_id (hd (installations _)) = in_id (hd (installations (snd (trace _ ?ops _)))) \<and> _")
proof -
  let ?d = "snd (trace example_params ?ops example_db)"
  have "in_order (seconds 6) ?ops" by code_simp
  note later = example_later [OF this]
  have "hd (installations example_db) \<in> set (installations example_db)"
    "hd (installations ?d) \<in> set (installations ?d)"
    "in_hostname (hd (installations example_db)) = in_hostname (hd (installations ?d))"
    "in_admin_key (hd (installations example_db)) = replicate 32 7"
    by code_simp+
  then show ?thesis using hostname_permanent [OF example_runs later] by simp
qed

text \<open>C25. Histories only move forward: an installation keeps its identifier, hostname, administrator key
  and creation time, its generation never falls and its state never goes back; reservations,
  operations and audit records are only appended; the restore fence never falls, and it rises
  whenever a table of the security view changes.\<close>

theorem history_moves_forward:
  assumes "store_runs K (now, empty_db) es (t, d)" and "store_runs K (t, d) es' (t', d')"
  shows "evolves d d' \<and> t \<le> t'"
  using runs_evolve [OF assms(2)] runs_ok [OF assms(1)] empty_db_ok by simp

theorem history_moves_forward_witness:
  "evolves example_db (snd (trace example_params [(seconds 7, Retire 1 20)] example_db))
   \<and> fence example_db < fence (snd (trace example_params [(seconds 7, Retire 1 20)] example_db))"
proof -
  have "in_order (seconds 6) [(seconds 7, Retire 1 20)]" by code_simp
  note later = example_later [OF this]
  have "fence example_db < fence (snd (trace example_params [(seconds 7, Retire 1 20)] example_db))" by code_simp
  then show ?thesis using history_moves_forward [OF example_runs later] by simp
qed

section \<open>Bearer credentials\<close>

lemma newest_Some: "newest p d = Some c \<Longrightarrow> c \<in> set (credentials d) \<and> p c"
  using in_select_limit [of c p "\<lambda>c. - cr_generation c" 1 "credentials d"]
  by (auto simp: newest_def split: list.splits)

lemma newest_None: "newest p d = None \<longleftrightarrow> (\<forall>c \<in> set (credentials d). \<not> p c)"
proof -
  have "select_limit p (\<lambda>c. - cr_generation c) 1 (credentials d) = [] \<longleftrightarrow> filter p (credentials d) = []"
    by (simp add: select_limit_def) (metis length_0_conv length_sort)
  then show ?thesis by (auto simp: newest_def filter_empty_conv split: list.splits)
qed

lemma authenticate_bearer_Some:
  assumes "store_ok d"
  shows "authenticate_bearer P now d i scope bearer = Some g \<longleftrightarrow>
     43 \<le> length bearer \<and> length bearer \<le> 128 \<and> bearer_scope scope
     \<and> (\<exists>r \<in> set (installations d). in_id r = i \<and> in_state r = DnsReady)
     \<and> (\<exists>c \<in> set (credentials d). cr_installation c = i \<and> cr_scope c = scope
          \<and> cr_token_hash c = p_sha256 P (as_bytes bearer) \<and> cr_revoked_at c = None
          \<and> cr_expires_at c > now \<and> g = as_u64 (cr_generation c))"
  (is "?lhs \<longleftrightarrow> ?rhs")
proof
  let ?p = "\<lambda>c. live_bearer P now i scope bearer c \<and> joined d (\<lambda>r. in_state r = DnsReady) (cr_installation c)"
  {
    assume ?lhs
    then obtain c where "newest ?p d = Some c" "g = as_u64 (cr_generation c)"
      "bearer_length_ok bearer" "bearer_scope scope"
      by (auto simp: authenticate_bearer_def split: if_splits)
    with newest_Some [OF this(1)] show ?rhs
      by (auto simp: live_bearer_def joined_row_with row_with_def bearer_length_ok_def)
  next
    assume ?rhs
    then obtain c r where r: "r \<in> set (installations d)" "in_id r = i" "in_state r = DnsReady"
      and c: "c \<in> set (credentials d)" "live_bearer P now i scope bearer c" "g = as_u64 (cr_generation c)"
      and pre: "bearer_length_ok bearer" "bearer_scope scope"
      unfolding live_bearer_def bearer_length_ok_def de_Morgan_disj not_less by blast
    from r c(2) have "?p c" by (auto simp: live_bearer_def joined_row_with row_with_def)
    with c(1) obtain c' where c': "newest ?p d = Some c'" using newest_None [of ?p d] by (cases "newest ?p d") auto
    with newest_Some [OF c'] c have "c' = c"
      by (intro only_unrevoked [OF assms c(1)]) (simp_all add: live_bearer_def)
    with c' c pre show ?lhs by (simp add: authenticate_bearer_def)
  }
qed

text \<open>C6. A bearer authenticates exactly when its length and scope are acceptable, its installation is
  ready, and its digest is that of a credential of the scope that is neither revoked nor expired;
  the generation returned is that credential's.\<close>

theorem authenticate_bearer_exact:
  assumes "store_ok d"
  shows "authenticate_bearer P now d i scope bearer = Some g \<longleftrightarrow>
     43 \<le> length bearer \<and> length bearer \<le> 128 \<and> bearer_scope scope
     \<and> (\<exists>r \<in> set (installations d). in_id r = i \<and> in_state r = DnsReady)
     \<and> (\<exists>c \<in> set (credentials d). cr_installation c = i \<and> cr_scope c = scope
          \<and> cr_token_hash c = p_sha256 P (as_bytes bearer) \<and> cr_revoked_at c = None
          \<and> cr_expires_at c > now \<and> g = as_u64 (cr_generation c))"
  by (rule authenticate_bearer_Some [OF assms])

theorem authenticate_bearer_exact_witness:
  "authenticate_bearer example_prims (seconds 10) example_db 1 ''tunnel'' example_token = Some 2
   \<and> (\<exists>c \<in> set (credentials example_db). cr_installation c = 1 \<and> cr_scope c = ''tunnel''
        \<and> cr_revoked_at c = None \<and> cr_expires_at c > seconds 10 \<and> 2 = as_u64 (cr_generation c))"
proof -
  have "authenticate_bearer example_prims (seconds 10) example_db 1 ''tunnel'' example_token = Some 2" by code_simp
  then show ?thesis unfolding authenticate_bearer_exact [OF example_ok] by blast
qed

lemma as_u64_le: "0 \<le> i \<Longrightarrow> i \<le> j \<Longrightarrow> j < 2 ^ 63 \<Longrightarrow> as_u64 i \<le> as_u64 j"
  using as_u64_less [of i j] by (cases "i = j") auto

lemma generation_range:
  assumes "store_ok d" and "c \<in> set (credentials d)"
  shows "1 \<le> cr_generation c \<and> cr_generation c < 2 ^ 63"
proof -
  from assms obtain r where "r \<in> set (installations d)" "cr_generation c \<le> in_generation r" "1 \<le> cr_generation c"
    by (auto simp: store_ok_def credentials_ok_def row_with_def)
  with store_okD(2) [OF assms(1)] show ?thesis by (fastforce simp: row_ok_def BIGINT_MAX_def)
qed

lemma unrevoked_newest:
  assumes "store_ok d" and "a \<in> set (credentials d)" and "cr_revoked_at a = None" and "c \<in> set (credentials d)"
    and "cr_installation c = cr_installation a" and "cr_scope c = cr_scope a"
  shows "cr_generation c \<le> cr_generation a"
  using store_okD(4) [OF assms(1)] assms(2-) unfolding credentials_ok_def by blast

text \<open>C2. Issuing or renewing a bearer fences off every older one: once a credential has existed for an
  installation and scope, no bearer authenticates at any later moment with a smaller generation,
  whatever happened in between.\<close>

theorem older_bearer_refused:
  assumes "store_ok d" and "c \<in> set (credentials d)" and "store_runs K (t, d) es (t', d')"
    and "authenticate_bearer P now d' (cr_installation c) (cr_scope c) bearer = Some g"
  shows "as_u64 (cr_generation c) \<le> g"
proof -
  have ok: "store_ok d'" by (rule runs_ok [OF assms(3,1)])
  from runs_fence [OF assms(3,1)] assms(2) obtain c' where c': "c' \<in> set (credentials d')" "credential_evolves c c'"
    by (auto simp: fences_def credentials_evolve_def)
  from assms(4) obtain a where a: "a \<in> set (credentials d')" "cr_installation a = cr_installation c"
    "cr_scope a = cr_scope c" "cr_revoked_at a = None" "g = as_u64 (cr_generation a)"
    unfolding authenticate_bearer_Some [OF ok] by blast
  have "cr_generation c \<le> cr_generation a"
    using unrevoked_newest [OF ok a(1,4) c'(1)] a(2,3) c'(2) by (simp add: credential_evolves_def)
  then show ?thesis
    using generation_range [OF assms(1,2)] generation_range [OF ok a(1)] a(5) by (auto intro: as_u64_le)
qed

text \<open>The installation renews its tunnel bearer; the old token no longer authenticates.\<close>

definition example_renewal :: "(timestamp \<times> store_op) list" where
  "example_renewal =
     [(seconds 10, RenewBearer 1 20 ''tunnel'' 2 example_token (replicate 32 9))]"

theorem older_bearer_refused_witness:
  "authenticate_bearer example_prims (seconds 11) (snd (trace example_params example_renewal example_db))
     1 ''tunnel'' (replicate 43 CHR 0x09) = Some 5 \<and> as_u64 2 \<le> (5 :: u64)
   \<and> authenticate_bearer example_prims (seconds 11) (snd (trace example_params example_renewal example_db))
     1 ''tunnel'' example_token = None"
proof -
  let ?c = "hd (credentials example_db)" and ?d = "snd (trace example_params example_renewal example_db)"
  have "in_order (seconds 6) example_renewal" by code_simp
  note later = example_later [OF this]
  have auth: "authenticate_bearer example_prims (seconds 11) ?d 1 ''tunnel'' (replicate 43 CHR 0x09) = Some 5"
    and old: "authenticate_bearer example_prims (seconds 11) ?d 1 ''tunnel'' example_token = None"
    by code_simp+
  have c: "?c \<in> set (credentials example_db)" "cr_installation ?c = 1" "cr_scope ?c = ''tunnel''" "cr_generation ?c = 2"
    by code_simp+
  show ?thesis
    using older_bearer_refused [OF example_ok c(1) later] c auth old by simp
qed

lemma key_free_operation: "find_operation d (op_id x) = None \<Longrightarrow> key_free op_id x (operations d)"
  by (auto simp: find_operation_def fetch_optional_None key_free_def list_ex_iff)

lemma place_credential_succeeds:
  assumes "key_free credential_key (new_credential now i scope g th life) (credentials d)"
    and "find_operation d op = None"
  shows "\<exists>a b d'. place_credential now i op scope kind digest th g life aop event d = Inr ((a, b), d')"
proof -
  have "find_operation (d\<lparr>tunnel_leases := ls, credentials := cs\<rparr>) op = None"
    "find_operation (d\<lparr>credentials := cs\<rparr>) op = None" for ls cs
    using assms(2) by (simp_all add: find_operation_def)
  with assms(1) show ?thesis
    by (auto simp: place_credential_def Let_def insert_credential_def insert_operation_def delete_lease_def
        find_operation_def intro!: key_free_operation)
qed

text \<open>A generation just taken from the installation's row is free for a credential.\<close>

lemma next_generation_free:
  assumes "store_ok d" and "r \<in> set (installations d)" and "in_id r = i"
  shows "key_free credential_key (new_credential now i scope (in_generation r + 1) th life)
    (update_rows q (cr_revoked_at_update (\<lambda>_. Some t)) (credentials d))"
proof -
  have "credential_key ` set (update_rows q (cr_revoked_at_update (\<lambda>_. Some t)) (credentials d))
      = credential_key ` set (credentials d)"
    by (rule keys_update_rows) simp
  moreover have "(i, scope, in_generation r + 1) \<notin> credential_key ` set (credentials d)"
    using credential_generation [OF assms(1) _ assms(2)] assms(3) by force
  ultimately show ?thesis by (simp add: key_free_iff new_credential_def)
qed

lemma renewal_succeeds:
  assumes ok: "store_ok d" and op: "find_operation d op = None" and pre: "bearer_scope scope" "bearer_length_ok token"
    and r: "r \<in> set (installations d)" "in_id r = i" "in_state r = DnsReady" "in_generation r < BIGINT_MAX"
    and c: "c \<in> set (credentials d)" "cr_installation c = i" "cr_scope c = scope" "cr_generation c = as_i64 g"
      "cr_revoked_at c = None" "cr_token_hash c = p_sha256 P (as_bytes token)"
      "now < cr_expires_at c + seconds (as_secs (cw_renewal_grace cw))"
  shows "\<exists>x d'. renew_bearer_tx P cw now i op scope g token th d = Inr (x, d')"
proof -
  have "\<not> exists_row (\<lambda>n. cr_installation n = cr_installation c \<and> cr_scope n = cr_scope c
      \<and> cr_generation n > cr_generation c) (credentials d)"
    using unrevoked_newest [OF ok c(1,5)] by (force simp: exists_row_iff)
  with c r have "renewable cw now d i scope (as_i64 g) c"
    by (auto simp: renewable_def joined_row_with row_with_def)
  with c(1) obtain c' where c': "fetch_optional (renewable cw now d i scope (as_i64 g)) (credentials d) = Some c'"
    using fetch_optional_None [of "renewable cw now d i scope (as_i64 g)" "credentials d"]
    by (cases "fetch_optional (renewable cw now d i scope (as_i64 g)) (credentials d)") auto
  from fetch_optional_Some [OF c'] have "c' \<in> set (credentials d)" "renewable cw now d i scope (as_i64 g) c'"
    by simp_all
  then have "c' = c" using c by (intro only_unrevoked [OF ok c(1)]) (simp_all add: renewable_def)
  have "fetch_optional (\<lambda>r. in_id r = i) (installations d) = Some r"
    using fetch_by_key [of in_id "installations d" i r] store_okD(1) [OF ok] r by (simp add: ident_ok_def)
  then have adv: "advance_installation i (\<lambda>_. True) id d = Inr (Some (r\<lparr>in_generation := in_generation r + 1\<rparr>),
      d\<lparr>installations := update_rows (\<lambda>r. in_id r = i) (\<lambda>r. r\<lparr>in_generation := in_generation r + 1\<rparr>) (installations d)\<rparr>)"
    using r(4) by (simp add: advance_installation_def)
  note free = next_generation_free [OF ok r(1,2)]
  show ?thesis
    unfolding renew_bearer_tx_def
    using pre op c' \<open>c' = c\<close> c(6) adv free
    by (auto simp: Let_def revoke_def find_operation_def intro!: place_credential_succeeds)
qed

text \<open>C21. A renewal with a new operation id succeeds exactly when the presented token is that of the
  unrevoked credential of the given scope and generation, the credential expired less than the
  renewal grace ago, and the installation is ready; an unrevoked credential is always the newest
  of its scope, so a superseded token never renews.\<close>

theorem renewal_exact:
  assumes "store_ok d" and "find_operation d op = None"
  shows "(\<exists>x d'. renew_bearer_tx P cw now i op scope g token th d = Inr (x, d')) \<longleftrightarrow>
     bearer_scope scope \<and> 43 \<le> length token \<and> length token \<le> 128
     \<and> (\<exists>r \<in> set (installations d). in_id r = i \<and> in_state r = DnsReady \<and> in_generation r < BIGINT_MAX)
     \<and> (\<exists>c \<in> set (credentials d). cr_installation c = i \<and> cr_scope c = scope
          \<and> cr_generation c = as_i64 g \<and> cr_revoked_at c = None
          \<and> cr_token_hash c = p_sha256 P (as_bytes token)
          \<and> now < cr_expires_at c + seconds (as_secs (cw_renewal_grace cw)))"
  (is "?lhs \<longleftrightarrow> ?rhs")
proof
  assume ?lhs
  then obtain x d' where run: "renew_bearer_tx P cw now i op scope g token th d = Inr (x, d')" by blast
  then have len: "43 \<le> length token \<and> length token \<le> 128"
    by (auto simp: renew_bearer_tx_def bearer_length_ok_def split: if_splits)
  from run show ?rhs
  proof (cases rule: renew_bearer_tx_Inr)
    case (fresh r c d1)
    from fresh(7) obtain s where s: "s \<in> set (installations d)" "in_id s = i" "in_state s = DnsReady"
      by (auto simp: renewable_def joined_row_with row_with_def)
    with same_row [OF assms(1) fresh(3)] fresh(4) have "in_state r = DnsReady" by auto
    with fresh len show ?thesis by (auto simp: renewable_def)
  qed (use assms(2) in simp)
next
  assume ?rhs
  then obtain r c where "bearer_scope scope" "43 \<le> length token" "length token \<le> 128"
    "r \<in> set (installations d)" "in_id r = i" "in_state r = DnsReady" "in_generation r < BIGINT_MAX"
    "c \<in> set (credentials d)" "cr_installation c = i" "cr_scope c = scope" "cr_generation c = as_i64 g"
    "cr_revoked_at c = None" "cr_token_hash c = p_sha256 P (as_bytes token)"
    "now < cr_expires_at c + seconds (as_secs (cw_renewal_grace cw))" by blast
  then show ?lhs by (intro renewal_succeeds [OF assms]) (simp_all add: bearer_length_ok_def)
qed

theorem renewal_exact_witness:
  "\<exists>x d'. renew_bearer_tx example_prims windows_default (days 20) 1 20 ''tunnel'' 2 example_token
     (replicate 32 9) example_db = Inr (x, d')"
proof -
  let ?r = "hd (installations example_db)" and ?c = "hd (credentials example_db)"
  have op: "find_operation example_db 20 = None" by code_simp
  have "bearer_scope ''tunnel''" "43 \<le> length example_token" "length example_token \<le> 128" by code_simp+
  moreover have "?r \<in> set (installations example_db)" "in_id ?r = 1" "in_state ?r = DnsReady"
    "in_generation ?r < BIGINT_MAX" by code_simp+
  moreover have "?c \<in> set (credentials example_db)" "cr_installation ?c = 1" "cr_scope ?c = ''tunnel''"
    "cr_generation ?c = as_i64 2" "cr_revoked_at ?c = None"
    "cr_token_hash ?c = p_sha256 example_prims (as_bytes example_token)"
    "days 20 < cr_expires_at ?c + seconds (as_secs (cw_renewal_grace windows_default))" by code_simp+
  ultimately show ?thesis unfolding renewal_exact [OF example_ok op] by blast
qed

end
