(* ===== verification/Gateway.thy ===== *)
theory Gateway
  imports Gateway_Stream Store_Properties
begin

text \<open>
  The gateway process (\<^verbatim>\<open>crates/bloom-relay/src/main.rs\<close>): its shared tables of tunnels and
  tickets, its semaphores, and the tasks that use them - control connections, tunnel
  lifecycles and browser connections - as one state machine together with the store.

  A task is cut into steps at the points where the source awaits the store, a lock, a channel
  or the network; what it does between two of these points is one step. A step's event carries
  what the outside contributes. For a call of the store this is the database's time and whether
  the call came back: a call that took effect but whose answer was lost is a step of the
  environment (\<open>StoreEvent\<close>) before a call that failed. \<^verbatim>\<open>Arc<Tunnel>\<close> values are indices
  into \<open>gw_arcs\<close>, so tasks share them the way they do in the source.
\<close>

section \<open>State\<close>

record tunnel =
  tu_id :: uuid
  tu_generation :: u64
  tu_queue :: "tunnel_event list"   \<comment> \<open>the channel behind \<^verbatim>\<open>control\<close>\<close>
  tu_cancelled :: bool
  tu_permits :: nat                 \<comment> \<open>the \<^verbatim>\<open>streams\<close> semaphore\<close>

record ticket =
  tk_host :: string
  tk_id :: uuid
  tk_generation :: u64
  tk_deadline :: instant
  tk_claim :: nat                   \<comment> \<open>the browser connection at the other end of the channel\<close>

definition MAX_TUNNEL_LIFECYCLES :: nat where
  "MAX_TUNNEL_LIFECYCLES = 5000"

definition MAX_TUNNEL_LIFECYCLES_PER_CONNECTION :: nat where
  "MAX_TUNNEL_LIFECYCLES_PER_CONNECTION = 256"

definition CONTROL_AUTHENTICATION_TIMEOUT :: int where
  "CONTROL_AUTHENTICATION_TIMEOUT = secs 30"

definition STREAM_LIMIT :: nat where
  "STREAM_LIMIT = min MAX_GATEWAY_STREAMS (BUFFER_BUDGET div (2 * BUFFER_PER_DIRECTION))"

lemma STREAM_LIMIT_code [code]: "STREAM_LIMIT = 2048"
  by (simp add: STREAM_LIMIT_def limit_defs)

definition CONTROL_SLOTS :: nat where
  "CONTROL_SLOTS = 512"

datatype http_method = MPost | MConnect | MOther

text \<open>
  A request on a control connection. \<open>rq_header n\<close> is the first header of that name as a
  string, \<^verbatim>\<open>headers().get(n).and_then(|v| v.to_str().ok())\<close>.
\<close>

record request =
  rq_method :: http_method
  rq_path :: string
  rq_authority :: "string option"
  rq_header :: "string \<Rightarrow> string option"

text \<open>A CONNECT request with the four headers that authenticate it.\<close>

record attach =
  at_id :: uuid
  at_host :: string
  at_generation :: u64
  at_token :: string
  at_authority :: "string option"
  at_ticket :: "string option"

text \<open>
  Where the task of a control connection stands in its handling of a request: waiting for one,
  before the calls of \<^verbatim>\<open>POST /v1/tunnel\<close>, before those of \<^verbatim>\<open>CONNECT\<close>, or after the loop.
\<close>

datatype attach_pc =
  AHostname | ABearer | AOwner | ACurrent | ATicket | AOwnerAgain ticket | AStillCurrent ticket

datatype control_pc =
    Accepting
  | TunnelHostname uuid string string
  | TunnelBearer uuid string string
  | TunnelClaim uuid string
  | TunnelInstall uuid string u64
  | Attach attach attach_pc
  | Draining
  | ControlClosed

record control =
  cc_pc :: control_pc
  cc_authenticated :: bool
  cc_opened :: instant
  cc_permits :: nat                 \<comment> \<open>the \<^verbatim>\<open>local_lifecycles\<close> semaphore\<close>
  cc_shutdown :: bool
  cc_responses :: "nat list"

datatype lifecycle_pc = LSelect | LRenew | LSend tunnel_event | LEnd | LDone

record lifecycle =
  lf_conn :: nat
  lf_host :: string
  lf_arc :: nat
  lf_pc :: lifecycle_pc

text \<open>The one-shot channel of a ticket, seen from the browser connection that waits on it.\<close>

datatype slot = SlotEmpty | SlotSent nat attach | SlotDropped

datatype browser_pc =
    BStart
  | BHello
  | BLookup string bytes
  | BCurrent string bytes nat
  | BTicket string bytes nat
  | BSend string bytes nat string instant tunnel_event
  | BWait string bytes nat string instant
  | BBridge string bytes nat nat attach
  | BClosed

record browser =
  br_pc :: browser_pc
  br_slot :: slot

record gateway =
  gw_id :: string
  gw_instant :: instant
  gw_arcs :: "tunnel list"
  gw_tunnels :: "string \<Rightarrow> nat option"
  gw_tickets :: "string \<Rightarrow> ticket option"
  gw_streams :: nat
  gw_lifecycles :: nat
  gw_control_slots :: nat
  gw_ingress_slots :: nat
  gw_quota :: ingress_quota
  gw_controls :: "control list"
  gw_tasks :: "lifecycle list"
  gw_browsers :: "browser list"

type_synonym system = "gateway \<times> store_state"

definition gateway_new :: "string \<Rightarrow> instant \<Rightarrow> gateway" where
  "gateway_new gid now = \<lparr>gw_id = gid, gw_instant = now, gw_arcs = [], gw_tunnels = (\<lambda>_. None),
     gw_tickets = (\<lambda>_. None), gw_streams = STREAM_LIMIT, gw_lifecycles = MAX_TUNNEL_LIFECYCLES,
     gw_control_slots = CONTROL_SLOTS, gw_ingress_slots = STREAM_LIMIT,
     gw_quota = ingress_quota_new now, gw_controls = [], gw_tasks = [], gw_browsers = []\<rparr>"

text \<open>What the gateway uses of the store's configuration and of other crates.\<close>

record 'a gw_params =
  gp_store :: store_params
  gp_parse_uuid :: "string \<Rightarrow> uuid option"   \<comment> \<open>\<^verbatim>\<open>Uuid::parse_str\<close>\<close>
  gp_acceptor :: "'a acceptor"

section \<open>Pure decisions\<close>

definition generation_can_replace :: "u64 option \<Rightarrow> u64 \<Rightarrow> bool" where
  "generation_can_replace current candidate =
     (case current of None \<Rightarrow> True | Some generation \<Rightarrow> generation < candidate)"

definition ticket_owner_matches :: "string \<Rightarrow> uuid \<Rightarrow> u64 \<Rightarrow> string \<Rightarrow> uuid \<Rightarrow> u64 \<Rightarrow> bool" where
  "ticket_owner_matches active_host active_id active_generation ticket_host ticket_id ticket_generation \<longleftrightarrow>
     active_host = ticket_host \<and> active_id = ticket_id \<and> active_generation = ticket_generation"

definition ticket_claim_matches ::
  "ticket \<Rightarrow> uuid \<Rightarrow> string \<Rightarrow> u64 \<Rightarrow> string option \<Rightarrow> instant \<Rightarrow> bool" where
  "ticket_claim_matches ticket i host generation authority now \<longleftrightarrow>
     tk_deadline ticket > now
     \<and> authority = Some (tk_host ticket)
     \<and> ticket_owner_matches host i generation (tk_host ticket) (tk_id ticket) (tk_generation ticket)"

definition parse_u16 :: "string \<Rightarrow> u16 option" where
  "parse_u16 s = (case parse_u64 (as_bytes s) of
     None \<Rightarrow> None | Some n \<Rightarrow> if n < 65536 then Some (ucast n) else None)"

definition bearer_header :: "request \<Rightarrow> string option" where
  "bearer_header rq = Option.bind (rq_header rq ''authorization'') (strip_prefix ''Bearer '')"

definition wire_version :: "request \<Rightarrow> u16 option" where
  "wire_version rq = Option.bind (rq_header rq ''x-bloom-version'') parse_u16"

text \<open>The checks of the two requests before the first call of the store.\<close>

definition tunnel_request :: "'a gw_params \<Rightarrow> request \<Rightarrow> (uuid \<times> string \<times> string) option" where
  "tunnel_request P rq =
     (case (Option.bind (rq_header rq ''x-bloom-installation'') (gp_parse_uuid P),
            rq_header rq ''x-bloom-hostname'', bearer_header rq) of
        (Some i, Some host, Some token) \<Rightarrow>
          if wire_version rq = Some WIRE_VERSION \<and> validate_hostname host = Inr ()
          then Some (i, host, token) else None
      | _ \<Rightarrow> None)"

definition attach_request :: "'a gw_params \<Rightarrow> request \<Rightarrow> attach option" where
  "attach_request P rq =
     (case (Option.bind (rq_header rq ''x-bloom-installation'') (gp_parse_uuid P),
            rq_header rq ''x-bloom-hostname'',
            Option.bind (rq_header rq ''x-bloom-generation'') (\<lambda>v. parse_u64 (as_bytes v)),
            bearer_header rq) of
        (Some i, Some host, Some generation, Some token) \<Rightarrow>
          if wire_version rq = Some WIRE_VERSION \<and> validate_hostname host = Inr ()
          then Some \<lparr>at_id = i, at_host = host, at_generation = generation, at_token = token,
                 at_authority = rq_authority rq, at_ticket = rq_header rq ''x-bloom-ticket''\<rparr>
          else None
      | _ \<Rightarrow> None)"

section \<open>Small updates of the state\<close>

definition set_control :: "nat \<Rightarrow> (control \<Rightarrow> control) \<Rightarrow> gateway \<Rightarrow> gateway" where
  "set_control c f g = g\<lparr>gw_controls := (gw_controls g)[c := f (gw_controls g ! c)]\<rparr>"

definition goto :: "nat \<Rightarrow> control_pc \<Rightarrow> gateway \<Rightarrow> gateway" where
  "goto c pc = set_control c (\<lambda>x. x\<lparr>cc_pc := pc\<rparr>)"

text \<open>\<^verbatim>\<open>send_response\<close> and back to the top of the loop.\<close>

definition respond :: "nat \<Rightarrow> nat \<Rightarrow> gateway \<Rightarrow> gateway" where
  "respond c status = set_control c (\<lambda>x. x\<lparr>cc_pc := Accepting, cc_responses := cc_responses x @ [status]\<rparr>)"

text \<open>The loop returns: \<^verbatim>\<open>connection_shutdown\<close> is sent and the lifecycles are awaited.\<close>

definition leave_loop :: "nat \<Rightarrow> gateway \<Rightarrow> gateway" where
  "leave_loop c = set_control c (\<lambda>x. x\<lparr>cc_pc := Draining, cc_shutdown := True\<rparr>)"

definition authenticated :: "nat \<Rightarrow> gateway \<Rightarrow> gateway" where
  "authenticated c = set_control c (\<lambda>x. x\<lparr>cc_authenticated := True\<rparr>)"

definition take_permits :: "nat \<Rightarrow> gateway \<Rightarrow> gateway" where
  "take_permits c g = set_control c (\<lambda>x. x\<lparr>cc_permits := cc_permits x - 1\<rparr>)
     (g\<lparr>gw_lifecycles := gw_lifecycles g - 1\<rparr>)"

definition drop_permits :: "nat \<Rightarrow> gateway \<Rightarrow> gateway" where
  "drop_permits c g = set_control c (\<lambda>x. x\<lparr>cc_permits := cc_permits x + 1\<rparr>)
     (g\<lparr>gw_lifecycles := gw_lifecycles g + 1\<rparr>)"

definition set_slot :: "nat \<Rightarrow> slot \<Rightarrow> gateway \<Rightarrow> gateway" where
  "set_slot b s g = g\<lparr>gw_browsers := (gw_browsers g)[b := (gw_browsers g ! b)\<lparr>
     br_slot := (if br_slot (gw_browsers g ! b) = SlotEmpty then s else br_slot (gw_browsers g ! b))\<rparr>]\<rparr>"

text \<open>A ticket that goes out of scope unclaimed closes its channel.\<close>

definition drop_ticket :: "ticket option \<Rightarrow> gateway \<Rightarrow> gateway" where
  "drop_ticket tk g = (case tk of None \<Rightarrow> g | Some tk \<Rightarrow> set_slot (tk_claim tk) SlotDropped g)"

definition remove_ticket :: "string \<Rightarrow> gateway \<Rightarrow> gateway" where
  "remove_ticket key g = drop_ticket (gw_tickets g key) (g\<lparr>gw_tickets := (gw_tickets g)(key := None)\<rparr>)"

definition owns :: "gateway \<Rightarrow> string \<Rightarrow> uuid \<Rightarrow> u64 \<Rightarrow> bool" where
  "owns g host i generation =
     (case gw_tunnels g host of
        None \<Rightarrow> False
      | Some a \<Rightarrow> tu_id (gw_arcs g ! a) = i \<and> tu_generation (gw_arcs g ! a) = generation)"

section \<open>Calls of the store\<close>

definition at_time :: "timestamp \<Rightarrow> store_state \<Rightarrow> store_state option" where
  "at_time t s = (if fst s \<le> t then Some (t, snd s) else None)"

definition store_call ::
  "store_params \<Rightarrow> timestamp \<Rightarrow> store_op \<Rightarrow> store_state \<Rightarrow> ((store_error + op_value) \<times> store_state) option" where
  "store_call K t op s =
     (if fst s \<le> t
      then Some (case perform K t op (snd s) of
                   Inl e \<Rightarrow> (Inl e, (t, snd s))
                 | Inr (v, d) \<Rightarrow> (Inr v, (t, d)))
      else None)"

definition lease_current :: "gateway \<Rightarrow> store_state \<Rightarrow> uuid \<Rightarrow> u64 \<Rightarrow> bool" where
  "lease_current g s i generation =
     exists_row (lease_is_current (fst s) i (gw_id g) generation) (tunnel_leases (snd s))"

section \<open>Control connections\<close>

text \<open>\<^verbatim>\<open>admit_connection\<close>: a slot, or the connection is dropped.\<close>

definition accept_control :: "gateway \<Rightarrow> gateway" where
  "accept_control g =
     (if gw_control_slots g = 0 then g
      else g\<lparr>gw_control_slots := gw_control_slots g - 1,
             gw_controls := gw_controls g @
               [\<lparr>cc_pc = Accepting, cc_authenticated = False, cc_opened = gw_instant g,
                 cc_permits = MAX_TUNNEL_LIFECYCLES_PER_CONNECTION, cc_shutdown = False, cc_responses = []\<rparr>]\<rparr>)"

definition control_request :: "'a gw_params \<Rightarrow> nat \<Rightarrow> request \<Rightarrow> gateway \<Rightarrow> gateway" where
  "control_request P c rq g =
     (if rq_method rq = MPost \<and> rq_path rq = ''/v1/tunnel''
      then (case tunnel_request P rq of
              None \<Rightarrow> respond c 401 g
            | Some (i, host, token) \<Rightarrow> goto c (TunnelHostname i host token) g)
      else if rq_method rq = MConnect
      then (case attach_request P rq of
              None \<Rightarrow> respond c 401 g
            | Some a \<Rightarrow> goto c (Attach a AHostname) g)
      else respond c 404 g)"

text \<open>\<^verbatim>\<open>POST /v1/tunnel\<close> from the first call of the store on.\<close>

definition install_tunnel :: "nat \<Rightarrow> uuid \<Rightarrow> string \<Rightarrow> u64 \<Rightarrow> gateway \<Rightarrow> gateway" where
  "install_tunnel c i host generation g =
     (let arc = length (gw_arcs g);
          arcs = (case gw_tunnels g host of
                    None \<Rightarrow> gw_arcs g
                  | Some displaced \<Rightarrow>
                      (gw_arcs g)[displaced := (gw_arcs g ! displaced)\<lparr>tu_cancelled := True\<rparr>])
      in g\<lparr>gw_arcs := arcs @ [\<lparr>tu_id = i, tu_generation = generation, tu_queue = [],
               tu_cancelled = False, tu_permits = MAX_INSTALLATION_STREAMS\<rparr>],
           gw_tunnels := (gw_tunnels g)(host \<mapsto> arc),
           gw_tasks := gw_tasks g @ [\<lparr>lf_conn = c, lf_host = host, lf_arc = arc, lf_pc = LSelect\<rparr>]\<rparr>)"

fun tunnel_run ::
  "store_params \<Rightarrow> timestamp \<Rightarrow> bool \<Rightarrow> nat \<Rightarrow> control_pc \<Rightarrow> system \<Rightarrow> system option" where
  "tunnel_run K t ok c (TunnelHostname i host token) (g, s) =
     Option.bind (at_time t s) (\<lambda>s. Some
       (if \<not> ok then leave_loop c g
        else if hostname (snd s) i = Some host then goto c (TunnelBearer i host token) g
        else respond c 401 g, s))"
| "tunnel_run K t ok c (TunnelBearer i host token) (g, s) =
     Option.bind (at_time t s) (\<lambda>s. Some
       (if \<not> ok then leave_loop c g
        else if authenticate_bearer (k_prims K) t (snd s) i ''tunnel'' token = None then respond c 401 g
        else let g = authenticated c g in
          if cc_permits (gw_controls g ! c) = 0 then respond c 503 g
          else if gw_lifecycles g = 0 then respond c 503 g
          else goto c (TunnelClaim i host) (take_permits c g), s))"
| "tunnel_run K t ok c (TunnelClaim i host) (g, s) =
     (if \<not> ok then Some (leave_loop c (drop_permits c g), s)
      else Option.bind (store_call K t (ClaimTunnel i (gw_id g) 45) s) (\<lambda>(r, s). Some
        (case r of
           Inr (VCount generation) \<Rightarrow> goto c (TunnelInstall i host generation) g
         | _ \<Rightarrow> leave_loop c (drop_permits c g), s)))"
| "tunnel_run K t ok c (TunnelInstall i host generation) (g, s) =
     Some
       (if \<not> ok then leave_loop c (drop_permits c g)
        else if \<not> generation_can_replace
                   (map_option (\<lambda>a. tu_generation (gw_arcs g ! a)) (gw_tunnels g host)) generation
        then respond c 409 (drop_permits c g)
        else respond c 200 (install_tunnel c i host generation g), s)"
| "tunnel_run K t ok c _ (g, s) = None"

text \<open>\<^verbatim>\<open>CONNECT\<close> from the first call of the store on.\<close>

fun attach_run ::
  "store_params \<Rightarrow> timestamp \<Rightarrow> bool \<Rightarrow> nat \<Rightarrow> attach \<Rightarrow> attach_pc \<Rightarrow> system \<Rightarrow> system option" where
  "attach_run K t ok c a AHostname (g, s) =
     Option.bind (at_time t s) (\<lambda>s. Some
       (if \<not> ok then leave_loop c g
        else if hostname (snd s) (at_id a) = Some (at_host a) then goto c (Attach a ABearer) g
        else respond c 401 g, s))"
| "attach_run K t ok c a ABearer (g, s) =
     Option.bind (at_time t s) (\<lambda>s. Some
       (if \<not> ok then leave_loop c g
        else if authenticate_bearer (k_prims K) t (snd s) (at_id a) ''tunnel'' (at_token a) = None
        then respond c 401 g
        else goto c (Attach a AOwner) g, s))"
| "attach_run K t ok c a AOwner (g, s) =
     Some (if owns g (at_host a) (at_id a) (at_generation a) then goto c (Attach a ACurrent) g
           else respond c 401 g, s)"
| "attach_run K t ok c a ACurrent (g, s) =
     Option.bind (at_time t s) (\<lambda>s. Some
       (if \<not> ok then leave_loop c g
        else if lease_current g s (at_id a) (at_generation a)
        then goto c (Attach a ATicket) (authenticated c g)
        else respond c 401 g, s))"
| "attach_run K t ok c a ATicket (g, s) =
     Some
       (case Option.bind (at_ticket a) (gw_tickets g) of
          None \<Rightarrow> respond c 410 g
        | Some ticket \<Rightarrow>
            if ticket_claim_matches ticket (at_id a) (at_host a) (at_generation a) (at_authority a) (gw_instant g)
            then goto c (Attach a (AOwnerAgain ticket))
                   (g\<lparr>gw_tickets := (gw_tickets g)(the (at_ticket a) := None)\<rparr>)
            else respond c 410 g, s)"
| "attach_run K t ok c a (AOwnerAgain ticket) (g, s) =
     Some (if owns g (at_host a) (at_id a) (at_generation a)
           then goto c (Attach a (AStillCurrent ticket)) g
           else respond c 410 (drop_ticket (Some ticket) g), s)"
| "attach_run K t ok c a (AStillCurrent ticket) (g, s) =
     Option.bind (at_time t s) (\<lambda>s. Some
       (if \<not> ok then leave_loop c (drop_ticket (Some ticket) g)
        else if lease_current g s (at_id a) (at_generation a)
        then respond c 200 (set_slot (tk_claim ticket) (SlotSent c a) g)
        else respond c 410 (drop_ticket (Some ticket) g), s))"

definition control_run ::
  "store_params \<Rightarrow> timestamp \<Rightarrow> bool \<Rightarrow> nat \<Rightarrow> system \<Rightarrow> system option" where
  "control_run K t ok c sys =
     (case cc_pc (gw_controls (fst sys) ! c) of
        Attach a pc \<Rightarrow> attach_run K t ok c a pc sys
      | pc \<Rightarrow> tunnel_run K t ok c pc sys)"

text \<open>The connection ends or, not yet authenticated, has had its time.\<close>

definition authentication_deadline :: "nat \<Rightarrow> gateway \<Rightarrow> gateway option" where
  "authentication_deadline c g =
     (let x = gw_controls g ! c
      in if \<not> cc_authenticated x \<and> gw_instant g \<ge> cc_opened x + CONTROL_AUTHENTICATION_TIMEOUT
         then Some (leave_loop c g) else None)"

definition control_joined :: "nat \<Rightarrow> gateway \<Rightarrow> gateway option" where
  "control_joined c g =
     (if cc_pc (gw_controls g ! c) = Draining
         \<and> list_all (\<lambda>l. lf_conn l = c \<longrightarrow> lf_pc l = LDone) (gw_tasks g)
      then Some (goto c ControlClosed (g\<lparr>gw_control_slots := gw_control_slots g + 1\<rparr>)) else None)"

section \<open>Tunnel lifecycles\<close>

datatype lifecycle_action = Cancel | Reset | Message | Beat

definition set_task :: "nat \<Rightarrow> lifecycle_pc \<Rightarrow> gateway \<Rightarrow> gateway" where
  "set_task l pc g = g\<lparr>gw_tasks := (gw_tasks g)[l := (gw_tasks g ! l)\<lparr>lf_pc := pc\<rparr>]\<rparr>"

definition task_owns :: "gateway \<Rightarrow> lifecycle \<Rightarrow> bool" where
  "task_owns g x = owns g (lf_host x) (tu_id (gw_arcs g ! lf_arc x)) (tu_generation (gw_arcs g ! lf_arc x))"

fun lifecycle_select :: "nat \<Rightarrow> lifecycle_action \<Rightarrow> gateway \<Rightarrow> gateway option" where
  "lifecycle_select l Cancel g =
     (let x = gw_tasks g ! l
      in if tu_cancelled (gw_arcs g ! lf_arc x) \<or> cc_shutdown (gw_controls g ! lf_conn x)
         then Some (set_task l LEnd g) else None)"
| "lifecycle_select l Reset g = Some (set_task l LEnd g)"
| "lifecycle_select l Message g =
     (let x = gw_tasks g ! l
      in case tu_queue (gw_arcs g ! lf_arc x) of
           [] \<Rightarrow> None
         | event # rest \<Rightarrow>
             Some (set_task l (LSend event)
               (g\<lparr>gw_arcs := (gw_arcs g)[lf_arc x := (gw_arcs g ! lf_arc x)\<lparr>tu_queue := rest\<rparr>]\<rparr>)))"
| "lifecycle_select l Beat g =
     Some (if task_owns g (gw_tasks g ! l) then set_task l LRenew g else set_task l LEnd g)"

text \<open>\<^verbatim>\<open>renew_lifecycle\<close>: an error, a cancellation or the timeout count as a lost lease.\<close>

definition renew_lifecycle ::
  "store_params \<Rightarrow> timestamp \<Rightarrow> bool \<Rightarrow> nat \<Rightarrow> system \<Rightarrow> system option" where
  "renew_lifecycle K t ok l sys =
     (let (g, s) = sys; arc = gw_arcs g ! lf_arc (gw_tasks g ! l)
      in if \<not> ok then Some (set_task l LEnd g, s)
         else Option.bind (store_call K t (RenewTunnel (tu_id arc) (gw_id g) (tu_generation arc)) s)
           (\<lambda>(r, s). Some
             (case r of
                Inr (VBool True) \<Rightarrow> set_task l (LSend (Heartbeat WIRE_VERSION (tu_generation arc))) g
              | _ \<Rightarrow> set_task l LEnd g, s)))"

definition lifecycle_sent :: "nat \<Rightarrow> bool \<Rightarrow> gateway \<Rightarrow> gateway" where
  "lifecycle_sent l sent g = (if sent then set_task l LSelect g else set_task l LEnd g)"

text \<open>After the loop: the host is released if it is still this tunnel's, then the permits.\<close>

definition lifecycle_end :: "nat \<Rightarrow> gateway \<Rightarrow> gateway" where
  "lifecycle_end l g =
     (let x = gw_tasks g ! l;
          g = (if task_owns g x then g\<lparr>gw_tunnels := (gw_tunnels g)(lf_host x := None)\<rparr> else g)
      in drop_permits (lf_conn x) (set_task l LDone g))"

section \<open>Browser connections\<close>

definition set_browser :: "nat \<Rightarrow> browser_pc \<Rightarrow> gateway \<Rightarrow> gateway" where
  "set_browser b pc g = g\<lparr>gw_browsers := (gw_browsers g)[b := (gw_browsers g ! b)\<lparr>br_pc := pc\<rparr>]\<rparr>"

fun arc_of :: "browser_pc \<Rightarrow> nat option" where
  "arc_of (BCurrent host hello arc) = Some arc"
| "arc_of (BTicket host hello arc) = Some arc"
| "arc_of (BSend host hello arc key deadline event) = Some arc"
| "arc_of (BWait host hello arc key deadline) = Some arc"
| "arc_of (BBridge host hello arc c a) = Some arc"
| "arc_of _ = None"

definition holds_stream :: "browser_pc \<Rightarrow> bool" where
  "holds_stream pc \<longleftrightarrow> pc \<noteq> BStart \<and> pc \<noteq> BClosed"

text \<open>The task of a browser connection ends and drops the permits it holds.\<close>

definition close_browser :: "nat \<Rightarrow> gateway \<Rightarrow> gateway" where
  "close_browser b g =
     (let pc = br_pc (gw_browsers g ! b);
          arcs = (case arc_of pc of
                    None \<Rightarrow> gw_arcs g
                  | Some a \<Rightarrow> (gw_arcs g)[a := (gw_arcs g ! a)\<lparr>tu_permits := tu_permits (gw_arcs g ! a) + 1\<rparr>])
      in set_browser b BClosed
           (g\<lparr>gw_arcs := arcs,
              gw_streams := gw_streams g + (if holds_stream pc then 1 else 0),
              gw_ingress_slots := gw_ingress_slots g + 1\<rparr>))"

definition accept_browser :: "ip_addr \<Rightarrow> gateway \<Rightarrow> gateway" where
  "accept_browser peer g =
     (case allow_at peer (gw_instant g) (gw_quota g) of
        (allowed, quota) \<Rightarrow>
          (let g = g\<lparr>gw_quota := quota\<rparr>
           in if \<not> allowed \<or> gw_ingress_slots g = 0 then g
              else g\<lparr>gw_ingress_slots := gw_ingress_slots g - 1,
                     gw_browsers := gw_browsers g @ [\<lparr>br_pc = BStart, br_slot = SlotEmpty\<rparr>]\<rparr>))"

text \<open>
  The steps of \<^verbatim>\<open>browser_connection\<close> in its order: a stream permit, the ClientHello, the
  tunnel of its host and a permit of it, the lease, the ticket, the message to the broker, the
  wait for the claim, the bridge.
\<close>

definition browser_start :: "nat \<Rightarrow> gateway \<Rightarrow> gateway" where
  "browser_start b g =
     (if gw_streams g = 0 then close_browser b g
      else set_browser b BHello (g\<lparr>gw_streams := gw_streams g - 1\<rparr>))"

definition browser_hello ::
  "'a acceptor \<Rightarrow> nat \<Rightarrow> (gateway_error + bytes) list \<Rightarrow> gateway \<Rightarrow> gateway" where
  "browser_hello A b reads g =
     (case read_sni A reads of
        Inl _ \<Rightarrow> close_browser b g
      | Inr (host, hello) \<Rightarrow> set_browser b (BLookup host hello) g)"

definition browser_lookup :: "nat \<Rightarrow> string \<Rightarrow> bytes \<Rightarrow> gateway \<Rightarrow> gateway" where
  "browser_lookup b host hello g =
     (case gw_tunnels g host of
        None \<Rightarrow> close_browser b g
      | Some a \<Rightarrow>
          if tu_permits (gw_arcs g ! a) = 0 then close_browser b g
          else set_browser b (BCurrent host hello a)
            (g\<lparr>gw_arcs := (gw_arcs g)[a := (gw_arcs g ! a)\<lparr>tu_permits := tu_permits (gw_arcs g ! a) - 1\<rparr>]\<rparr>))"

definition browser_current ::
  "timestamp \<Rightarrow> bool \<Rightarrow> nat \<Rightarrow> string \<Rightarrow> bytes \<Rightarrow> nat \<Rightarrow> system \<Rightarrow> system option" where
  "browser_current t ok b host hello a sys =
     (let (g, s) = sys
      in Option.bind (at_time t s) (\<lambda>s. Some
           (if ok \<and> lease_current g s (tu_id (gw_arcs g ! a)) (tu_generation (gw_arcs g ! a))
            then set_browser b (BTicket host hello a) g else close_browser b g, s)))"

definition browser_ticket ::
  "nat \<Rightarrow> string \<Rightarrow> bytes \<Rightarrow> nat \<Rightarrow> string \<Rightarrow> uuid \<Rightarrow> u64 \<Rightarrow> gateway \<Rightarrow> gateway" where
  "browser_ticket b host hello a key connection_id now_ms g =
     (let arc = gw_arcs g ! a; deadline = gw_instant g + secs 10;
          ticket = \<lparr>tk_host = host, tk_id = tu_id arc, tk_generation = tu_generation arc,
            tk_deadline = deadline, tk_claim = b\<rparr>;
          event = Open WIRE_VERSION key connection_id host (tu_generation arc) (now_ms + 10000)
      in set_browser b (BSend host hello a key deadline event)
           (drop_ticket (gw_tickets g key) (g\<lparr>gw_tickets := (gw_tickets g)(key \<mapsto> ticket)\<rparr>)))"

text \<open>
  Sending to the control channel succeeds when it has room and its receiver, the tunnel's
  lifecycle, is there; it fails when the receiver is gone or the deadline passes.
\<close>

definition receiver_gone :: "gateway \<Rightarrow> nat \<Rightarrow> bool" where
  "receiver_gone g a \<longleftrightarrow> list_all (\<lambda>l. lf_arc l = a \<longrightarrow> lf_pc l = LDone) (gw_tasks g)"

definition browser_send ::
  "nat \<Rightarrow> bool \<Rightarrow> string \<Rightarrow> bytes \<Rightarrow> nat \<Rightarrow> string \<Rightarrow> instant \<Rightarrow> tunnel_event \<Rightarrow> gateway \<Rightarrow> gateway option" where
  "browser_send b sent host hello a key deadline event g =
     (if sent
      then if receiver_gone g a \<or> length (tu_queue (gw_arcs g ! a)) \<ge> MAX_INSTALLATION_STREAMS then None
           else Some (set_browser b (BWait host hello a key deadline)
             (g\<lparr>gw_arcs := (gw_arcs g)[a := (gw_arcs g ! a)\<lparr>tu_queue := tu_queue (gw_arcs g ! a) @ [event]\<rparr>]\<rparr>))
      else if receiver_gone g a \<or> gw_instant g \<ge> deadline then Some (close_browser b (remove_ticket key g))
      else None)"

definition browser_wait ::
  "nat \<Rightarrow> bool \<Rightarrow> string \<Rightarrow> bytes \<Rightarrow> nat \<Rightarrow> string \<Rightarrow> instant \<Rightarrow> gateway \<Rightarrow> gateway option" where
  "browser_wait b elapsed host hello a key deadline g =
     (if elapsed
      then if gw_instant g \<ge> deadline \<and> br_slot (gw_browsers g ! b) = SlotEmpty
           then Some (close_browser b (remove_ticket key g)) else None
      else case br_slot (gw_browsers g ! b) of
             SlotEmpty \<Rightarrow> None
           | SlotDropped \<Rightarrow> Some (close_browser b (remove_ticket key g))
           | SlotSent c at \<Rightarrow> Some (set_browser b (BBridge host hello a c at) (remove_ticket key g)))"

section \<open>The machine\<close>

datatype gw_event =
    Tick int
  | StoreEvent timestamp store_op
  | AcceptControl
  | ControlRequest nat request
  | ControlRun nat timestamp bool
  | ControlEnds nat
  | AuthDeadline nat
  | ControlJoined nat
  | LifecycleSelect nat lifecycle_action
  | LifecycleRenew nat timestamp bool
  | LifecycleSent nat bool
  | LifecycleEnd nat
  | AcceptBrowser ip_addr
  | BrowserStart nat
  | BrowserHello nat "(gateway_error + bytes) list"
  | BrowserLookup nat
  | BrowserCurrent nat timestamp bool
  | BrowserTicket nat string uuid u64
  | BrowserSend nat bool
  | BrowserWait nat bool
  | BrowserEnd nat

definition control_at :: "gateway \<Rightarrow> nat \<Rightarrow> (control_pc \<Rightarrow> bool) \<Rightarrow> bool" where
  "control_at g c p \<longleftrightarrow> c < length (gw_controls g) \<and> p (cc_pc (gw_controls g ! c))"

definition task_at :: "gateway \<Rightarrow> nat \<Rightarrow> (lifecycle_pc \<Rightarrow> bool) \<Rightarrow> bool" where
  "task_at g l p \<longleftrightarrow> l < length (gw_tasks g) \<and> p (lf_pc (gw_tasks g ! l))"

definition browser_at :: "gateway \<Rightarrow> nat \<Rightarrow> browser_pc option" where
  "browser_at g b = (if b < length (gw_browsers g) then Some (br_pc (gw_browsers g ! b)) else None)"

text \<open>The step an event takes; \<open>None\<close> when the event cannot happen in the state.\<close>

fun gateway_exec :: "'a gw_params \<Rightarrow> gw_event \<Rightarrow> system \<Rightarrow> system option" where
  "gateway_exec P (Tick n) (g, s) = (if 0 \<le> n then Some (g\<lparr>gw_instant := gw_instant g + n\<rparr>, s) else None)"
| "gateway_exec P (StoreEvent t op) (g, s) =
     map_option (\<lambda>(_, s). (g, s)) (store_call (gp_store P) t op s)"
| "gateway_exec P AcceptControl (g, s) = Some (accept_control g, s)"
| "gateway_exec P (ControlRequest c rq) (g, s) =
     (if control_at g c (\<lambda>pc. pc = Accepting) then Some (control_request P c rq g, s) else None)"
| "gateway_exec P (ControlRun c t ok) (g, s) =
     (if control_at g c (\<lambda>_. True) then control_run (gp_store P) t ok c (g, s) else None)"
| "gateway_exec P (ControlEnds c) (g, s) =
     (if control_at g c (\<lambda>pc. pc = Accepting) then Some (leave_loop c g, s) else None)"
| "gateway_exec P (AuthDeadline c) (g, s) =
     (if control_at g c (\<lambda>pc. pc = Accepting)
      then map_option (\<lambda>g. (g, s)) (authentication_deadline c g) else None)"
| "gateway_exec P (ControlJoined c) (g, s) =
     (if control_at g c (\<lambda>_. True) then map_option (\<lambda>g. (g, s)) (control_joined c g) else None)"
| "gateway_exec P (LifecycleSelect l action) (g, s) =
     (if task_at g l (\<lambda>pc. pc = LSelect) then map_option (\<lambda>g. (g, s)) (lifecycle_select l action g) else None)"
| "gateway_exec P (LifecycleRenew l t ok) (g, s) =
     (if task_at g l (\<lambda>pc. pc = LRenew) then renew_lifecycle (gp_store P) t ok l (g, s) else None)"
| "gateway_exec P (LifecycleSent l sent) (g, s) =
     (if task_at g l (\<lambda>pc. case pc of LSend _ \<Rightarrow> True | _ \<Rightarrow> False) then Some (lifecycle_sent l sent g, s) else None)"
| "gateway_exec P (LifecycleEnd l) (g, s) =
     (if task_at g l (\<lambda>pc. pc = LEnd) then Some (lifecycle_end l g, s) else None)"
| "gateway_exec P (AcceptBrowser peer) (g, s) = Some (accept_browser peer g, s)"
| "gateway_exec P (BrowserStart b) (g, s) =
     (case browser_at g b of Some BStart \<Rightarrow> Some (browser_start b g, s) | _ \<Rightarrow> None)"
| "gateway_exec P (BrowserHello b reads) (g, s) =
     (case browser_at g b of Some BHello \<Rightarrow> Some (browser_hello (gp_acceptor P) b reads g, s) | _ \<Rightarrow> None)"
| "gateway_exec P (BrowserLookup b) (g, s) =
     (case browser_at g b of Some (BLookup host hello) \<Rightarrow> Some (browser_lookup b host hello g, s) | _ \<Rightarrow> None)"
| "gateway_exec P (BrowserCurrent b t ok) (g, s) =
     (case browser_at g b of
        Some (BCurrent host hello a) \<Rightarrow> browser_current t ok b host hello a (g, s) | _ \<Rightarrow> None)"
| "gateway_exec P (BrowserTicket b key connection_id now_ms) (g, s) =
     (case browser_at g b of
        Some (BTicket host hello a) \<Rightarrow> Some (browser_ticket b host hello a key connection_id now_ms g, s)
      | _ \<Rightarrow> None)"
| "gateway_exec P (BrowserSend b sent) (g, s) =
     (case browser_at g b of
        Some (BSend host hello a key deadline event) \<Rightarrow>
          map_option (\<lambda>g. (g, s)) (browser_send b sent host hello a key deadline event g)
      | _ \<Rightarrow> None)"
| "gateway_exec P (BrowserWait b elapsed) (g, s) =
     (case browser_at g b of
        Some (BWait host hello a key deadline) \<Rightarrow>
          map_option (\<lambda>g. (g, s)) (browser_wait b elapsed host hello a key deadline g)
      | _ \<Rightarrow> None)"
| "gateway_exec P (BrowserEnd b) (g, s) =
     (case browser_at g b of Some (BBridge host hello a c at) \<Rightarrow> Some (close_browser b g, s) | _ \<Rightarrow> None)"

definition gateway_step :: "'a gw_params \<Rightarrow> system \<Rightarrow> gw_event \<Rightarrow> system \<Rightarrow> bool" where
  "gateway_step P sys e sys' \<longleftrightarrow> gateway_exec P e sys = Some sys'"

end
