(* ===== verification/Gateway_Routing.thy ===== *)
theory Gateway_Routing
  imports Gateway
begin

text \<open>
  The routing invariant of the gateway: every table entry and every task that names a host
  names the installation that owns it, and a stream reaches a browser connection only from a
  request that authenticated as that installation. The invariant is kept by every step of the
  gateway and of the store.
\<close>

section \<open>What stays true of the store\<close>

definition served :: "db \<Rightarrow> uuid \<Rightarrow> string \<Rightarrow> bool" where
  "served d i h \<longleftrightarrow> (\<exists>r \<in> set (installations d). in_id r = i \<and> in_hostname r = h)"

definition known_bearer :: "prims \<Rightarrow> db \<Rightarrow> uuid \<Rightarrow> string \<Rightarrow> bool" where
  "known_bearer P d i token \<longleftrightarrow>
     (\<exists>c \<in> set (credentials d). cr_installation c = i \<and> cr_scope c = ''tunnel''
        \<and> cr_token_hash c = p_sha256 P (as_bytes token))"

definition attached :: "prims \<Rightarrow> db \<Rightarrow> attach \<Rightarrow> bool" where
  "attached P d a \<longleftrightarrow> served d (at_id a) (at_host a) \<and> known_bearer P d (at_id a) (at_token a)
     \<and> validate_hostname (at_host a) = Inr ()"

definition db_later :: "db \<Rightarrow> db \<Rightarrow> bool" where
  "db_later d d' \<longleftrightarrow> store_ok d \<and> store_ok d' \<and> evolves d d' \<and> fences d d'"

lemma db_later_refl: "store_ok d \<Longrightarrow> db_later d d"
  by (simp add: db_later_def)

lemma served_later: "db_later d d' \<Longrightarrow> served d i h \<Longrightarrow> served d' i h"
  by (force simp: db_later_def served_def evolves_def rows_evolve_def row_evolves_def)

lemma known_bearer_later: "db_later d d' \<Longrightarrow> known_bearer P d i token \<Longrightarrow> known_bearer P d' i token"
  by (force simp: db_later_def known_bearer_def fences_def credentials_evolve_def credential_evolves_def)

lemma attached_later: "db_later d d' \<Longrightarrow> attached P d a \<Longrightarrow> attached P d' a"
  by (auto simp: attached_def intro: served_later known_bearer_later)

lemma hostname_served: "hostname d i = Some h \<Longrightarrow> served d i h"
  by (auto simp: hostname_def served_def dest: fetch_optional_Some)

lemma authenticate_known: "store_ok d \<Longrightarrow> authenticate_bearer P t d i ''tunnel'' token = Some x \<Longrightarrow> known_bearer P d i token"
  by (auto simp: authenticate_bearer_Some known_bearer_def)

lemma store_call_step: "store_call K t op s = Some (r, s') \<longleftrightarrow> store_step K s (t, op, r) s'"
  by (cases s)
    (auto simp: store_call_def split: sum.splits elim!: store_stepE intro: store_step.intros)

lemma store_call_later:
  assumes "store_call K t op s = Some (r, s')" and "store_ok (snd s)"
  shows "db_later (snd s) (snd s')"
proof -
  obtain now d t' d' where s: "s = (now, d)" "s' = (t', d')" by (cases s, cases s')
  with assms(1) have "store_runs K (now, d) [(t, op, r)] (t', d')"
    unfolding store_call_step by (auto intro: runs.intros)
  with assms(2) s show ?thesis
    using runs_ok runs_evolve runs_fence by (auto simp: db_later_def)
qed

lemma at_time_later: "at_time t s = Some s' \<Longrightarrow> store_ok (snd s) \<Longrightarrow> db_later (snd s) (snd s') \<and> snd s' = snd s"
  by (auto simp: at_time_def db_later_refl split: if_splits)

section \<open>The invariant\<close>

definition arc_ok :: "db \<Rightarrow> tunnel list \<Rightarrow> string \<Rightarrow> nat \<Rightarrow> bool" where
  "arc_ok d arcs h a \<longleftrightarrow> a < length arcs \<and> served d (tu_id (arcs ! a)) h"

text \<open>Whom a browser connection that has a ticket expects.\<close>

fun route :: "tunnel list \<Rightarrow> browser_pc \<Rightarrow> (string \<times> uuid \<times> u64) option" where
  "route arcs (BSend h hello a key deadline event) = Some (h, tu_id (arcs ! a), tu_generation (arcs ! a))"
| "route arcs (BWait h hello a key deadline) = Some (h, tu_id (arcs ! a), tu_generation (arcs ! a))"
| "route arcs (BBridge h hello a c at) = Some (h, tu_id (arcs ! a), tu_generation (arcs ! a))"
| "route arcs _ = None"

definition waiting :: "gateway \<Rightarrow> nat \<Rightarrow> string \<times> uuid \<times> u64 \<Rightarrow> bool" where
  "waiting g b x \<longleftrightarrow> b < length (gw_browsers g)
     \<and> (br_pc (gw_browsers g ! b) = BClosed \<or> route (gw_arcs g) (br_pc (gw_browsers g ! b)) = Some x)"

definition ticket_ok :: "gateway \<Rightarrow> ticket \<Rightarrow> bool" where
  "ticket_ok g tk \<longleftrightarrow> waiting g (tk_claim tk) (tk_host tk, tk_id tk, tk_generation tk)"

definition ticket_for :: "attach \<Rightarrow> ticket \<Rightarrow> bool" where
  "ticket_for a tk \<longleftrightarrow> tk_host tk = at_host a \<and> tk_id tk = at_id a \<and> tk_generation tk = at_generation a"

fun attach_ok :: "prims \<Rightarrow> db \<Rightarrow> gateway \<Rightarrow> attach \<Rightarrow> attach_pc \<Rightarrow> bool" where
  "attach_ok P d g a AHostname \<longleftrightarrow> validate_hostname (at_host a) = Inr ()"
| "attach_ok P d g a ABearer \<longleftrightarrow> served d (at_id a) (at_host a) \<and> validate_hostname (at_host a) = Inr ()"
| "attach_ok P d g a (AOwnerAgain tk) \<longleftrightarrow> attached P d a \<and> ticket_for a tk \<and> ticket_ok g tk"
| "attach_ok P d g a (AStillCurrent tk) \<longleftrightarrow> attached P d a \<and> ticket_for a tk \<and> ticket_ok g tk"
| "attach_ok P d g a _ \<longleftrightarrow> attached P d a"

fun control_ok :: "prims \<Rightarrow> db \<Rightarrow> gateway \<Rightarrow> control_pc \<Rightarrow> bool" where
  "control_ok P d g (TunnelBearer i h token) \<longleftrightarrow> served d i h"
| "control_ok P d g (TunnelClaim i h) \<longleftrightarrow> served d i h"
| "control_ok P d g (TunnelInstall i h generation) \<longleftrightarrow> served d i h"
| "control_ok P d g (Attach a pc) \<longleftrightarrow> attach_ok P d g a pc"
| "control_ok P d g _ \<longleftrightarrow> True"

fun browser_pc_ok :: "prims \<Rightarrow> db \<Rightarrow> tunnel list \<Rightarrow> browser_pc \<Rightarrow> bool" where
  "browser_pc_ok P d arcs (BCurrent h hello a) \<longleftrightarrow> arc_ok d arcs h a"
| "browser_pc_ok P d arcs (BTicket h hello a) \<longleftrightarrow> arc_ok d arcs h a"
| "browser_pc_ok P d arcs (BSend h hello a key deadline event) \<longleftrightarrow> arc_ok d arcs h a"
| "browser_pc_ok P d arcs (BWait h hello a key deadline) \<longleftrightarrow> arc_ok d arcs h a"
| "browser_pc_ok P d arcs (BBridge h hello a c at) \<longleftrightarrow> arc_ok d arcs h a \<and> attached P d at
     \<and> h = at_host at \<and> tu_id (arcs ! a) = at_id at \<and> tu_generation (arcs ! a) = at_generation at"
| "browser_pc_ok P d arcs _ \<longleftrightarrow> True"

definition slot_ok :: "prims \<Rightarrow> db \<Rightarrow> gateway \<Rightarrow> nat \<Rightarrow> slot \<Rightarrow> bool" where
  "slot_ok P d g b s = (case s of
     SlotSent c a \<Rightarrow> attached P d a \<and> waiting g b (at_host a, at_id a, at_generation a) | _ \<Rightarrow> True)"

definition browser_ok :: "prims \<Rightarrow> db \<Rightarrow> gateway \<Rightarrow> nat \<Rightarrow> bool" where
  "browser_ok P d g b \<longleftrightarrow> browser_pc_ok P d (gw_arcs g) (br_pc (gw_browsers g ! b))
     \<and> slot_ok P d g b (br_slot (gw_browsers g ! b))"

definition routing_ok :: "prims \<Rightarrow> system \<Rightarrow> bool" where
  "routing_ok P sys = (case sys of (g, _, d) \<Rightarrow>
     store_ok d
     \<and> (\<forall>h a. gw_tunnels g h = Some a \<longrightarrow> arc_ok d (gw_arcs g) h a)
     \<and> (\<forall>k tk. gw_tickets g k = Some tk \<longrightarrow> ticket_ok g tk)
     \<and> (\<forall>x \<in> set (gw_controls g). control_ok P d g (cc_pc x))
     \<and> (\<forall>b < length (gw_browsers g). browser_ok P d g b))"

section \<open>What later states keep\<close>

definition arcs_extend :: "tunnel list \<Rightarrow> tunnel list \<Rightarrow> bool" where
  "arcs_extend arcs arcs' \<longleftrightarrow> length arcs \<le> length arcs'
     \<and> (\<forall>a < length arcs. tu_id (arcs' ! a) = tu_id (arcs ! a) \<and> tu_generation (arcs' ! a) = tu_generation (arcs ! a))"

definition pc_later :: "gateway \<Rightarrow> gateway \<Rightarrow> nat \<Rightarrow> bool" where
  "pc_later g g' b \<longleftrightarrow>
     (let pc = br_pc (gw_browsers g ! b); pc' = br_pc (gw_browsers g' ! b)
      in pc' = pc \<or> pc' = BClosed
        \<or> (pc \<noteq> BClosed \<and> (route (gw_arcs g) pc = None \<or> route (gw_arcs g') pc' = route (gw_arcs g) pc)))"

definition later :: "gateway \<Rightarrow> gateway \<Rightarrow> bool" where
  "later g g' \<longleftrightarrow> arcs_extend (gw_arcs g) (gw_arcs g')
     \<and> length (gw_browsers g) \<le> length (gw_browsers g')
     \<and> (\<forall>b < length (gw_browsers g). pc_later g g' b)"

lemma arcs_extend_refl [simp]: "arcs_extend arcs arcs"
  by (simp add: arcs_extend_def)

lemma arcs_extend_update:
  "tu_id x = tu_id (arcs ! a) \<Longrightarrow> tu_generation x = tu_generation (arcs ! a) \<Longrightarrow> arcs_extend arcs (arcs[a := x])"
  by (cases "a < length arcs") (auto simp: arcs_extend_def nth_list_update list_update_beyond)

lemma arcs_extend_append: "arcs_extend arcs arcs' \<Longrightarrow> arcs_extend arcs (arcs' @ ys)"
  by (auto simp: arcs_extend_def nth_append)

lemma arc_ok_later:
  "db_later d d' \<Longrightarrow> arcs_extend arcs arcs' \<Longrightarrow> arc_ok d arcs h a \<Longrightarrow> arc_ok d' arcs' h a"
  by (auto simp: arc_ok_def arcs_extend_def intro: served_later)

lemma arc_ok_bound: "arc_ok d arcs h a \<Longrightarrow> a < length arcs"
  by (simp add: arc_ok_def)

lemma route_later:
  "arcs_extend arcs arcs' \<Longrightarrow> browser_pc_ok P d arcs pc \<Longrightarrow> route arcs' pc = route arcs pc"
  by (cases pc) (auto simp: arcs_extend_def arc_ok_def)

lemma browser_pc_ok_later:
  "db_later d d' \<Longrightarrow> arcs_extend arcs arcs' \<Longrightarrow> browser_pc_ok P d arcs pc \<Longrightarrow> browser_pc_ok P d' arcs' pc"
  by (cases pc) (auto intro: arc_ok_later attached_later simp: arcs_extend_def dest: arc_ok_bound)

lemma waiting_later:
  assumes "later g g'" and "waiting g b x" and "browser_ok P d g b"
  shows "waiting g' b x"
proof -
  from assms(2) have b: "b < length (gw_browsers g)" by (simp add: waiting_def)
  then have "pc_later g g' b" using assms(1) by (simp add: later_def)
  moreover have "route (gw_arcs g') (br_pc (gw_browsers g ! b)) = route (gw_arcs g) (br_pc (gw_browsers g ! b))"
    using assms(1,3) by (intro route_later [of _ _ P d]) (simp_all add: later_def browser_ok_def)
  ultimately show ?thesis
    using assms(1,2) b by (auto simp: waiting_def later_def pc_later_def Let_def)
qed

lemma ticket_ok_later:
  assumes "routing_ok P (g, s)" and "later g g'" and "ticket_ok g tk"
  shows "ticket_ok g' tk"
proof -
  have w: "waiting g (tk_claim tk) (tk_host tk, tk_id tk, tk_generation tk)" using assms(3) by (simp add: ticket_ok_def)
  then have "browser_ok P (snd s) g (tk_claim tk)" using assms(1) by (cases s) (auto simp: routing_ok_def waiting_def)
  from waiting_later [OF assms(2) w this] show ?thesis by (simp add: ticket_ok_def)
qed

lemma control_ok_later:
  assumes "routing_ok P (g, s)" and "db_later (snd s) d'" and "later g g'" and "control_ok P (snd s) g pc"
  shows "control_ok P d' g' pc"
proof (cases pc)
  case (Attach a apc)
  with assms show ?thesis
    by (cases apc) (auto intro: attached_later served_later ticket_ok_later)
qed (use assms in \<open>auto intro: served_later\<close>)

lemma slot_ok_later:
  assumes "routing_ok P (g, s)" and "db_later (snd s) d'" and "later g g'" and "b < length (gw_browsers g)"
    and "slot_ok P (snd s) g b x"
  shows "slot_ok P d' g' b x"
proof -
  have "browser_ok P (snd s) g b" using assms(1,4) by (cases s) (auto simp: routing_ok_def)
  from waiting_later [OF assms(3) _ this] assms(5) attached_later [OF assms(2)] show ?thesis
    by (auto simp: slot_ok_def split: slot.splits)
qed

text \<open>To show the invariant after a step only what the step changed has to be looked at.\<close>

lemma routing_step:
  assumes ok: "routing_ok P (g, s)" and d: "db_later (snd s) (snd s')" and g: "later g g'"
    and tunnels: "\<And>h a. gw_tunnels g' h = Some a \<Longrightarrow> gw_tunnels g h = Some a \<or> arc_ok (snd s') (gw_arcs g') h a"
    and tickets: "\<And>k tk. gw_tickets g' k = Some tk \<Longrightarrow> gw_tickets g k = Some tk \<or> ticket_ok g' tk"
    and controls: "\<And>x. x \<in> set (gw_controls g') \<Longrightarrow>
      (\<exists>y \<in> set (gw_controls g). cc_pc x = cc_pc y) \<or> control_ok P (snd s') g' (cc_pc x)"
    and pcs: "\<And>b. b < length (gw_browsers g') \<Longrightarrow>
      (b < length (gw_browsers g) \<and> br_pc (gw_browsers g' ! b) = br_pc (gw_browsers g ! b))
      \<or> browser_pc_ok P (snd s') (gw_arcs g') (br_pc (gw_browsers g' ! b))"
    and slots: "\<And>b. b < length (gw_browsers g') \<Longrightarrow>
      (b < length (gw_browsers g) \<and> br_slot (gw_browsers g' ! b) = br_slot (gw_browsers g ! b))
      \<or> slot_ok P (snd s') g' b (br_slot (gw_browsers g' ! b))"
  shows "routing_ok P (g', s')"
proof -
  obtain now dd where s: "s = (now, dd)" by (cases s)
  obtain now' dd' where s': "s' = (now', dd')" by (cases s')
  have arcs: "arcs_extend (gw_arcs g) (gw_arcs g')" using g by (simp add: later_def)
  have "store_ok dd'" using d s' by (simp add: db_later_def)
  moreover have "arc_ok dd' (gw_arcs g') h a" if "gw_tunnels g' h = Some a" for h a
    using tunnels [OF that] ok s s' d arcs by (auto simp: routing_ok_def intro: arc_ok_later)
  moreover have "ticket_ok g' tk" if "gw_tickets g' k = Some tk" for k tk
    using tickets [OF that] ticket_ok_later [OF ok g] ok s by (auto simp: routing_ok_def)
  moreover have "control_ok P dd' g' (cc_pc x)" if "x \<in> set (gw_controls g')" for x
    using controls [OF that] control_ok_later [OF ok d g] ok s s' by (fastforce simp: routing_ok_def)
  moreover have "browser_ok P dd' g' b" if b: "b < length (gw_browsers g')" for b
  proof -
    have old: "browser_ok P dd g b" if "b < length (gw_browsers g)" using that ok s by (simp add: routing_ok_def)
    have "browser_pc_ok P dd' (gw_arcs g') (br_pc (gw_browsers g' ! b))"
      using pcs [OF b] old browser_pc_ok_later [OF d arcs] s s' by (auto simp: browser_ok_def)
    moreover have "slot_ok P dd' g' b (br_slot (gw_browsers g' ! b))"
      using slots [OF b] old slot_ok_later [OF ok d g] s s' by (auto simp: browser_ok_def)
    ultimately show ?thesis by (simp add: browser_ok_def)
  qed
  ultimately show ?thesis using s' by (simp add: routing_ok_def)
qed

section \<open>The small updates keep the invariant\<close>

named_theorems routing \<open>steps that keep the routing invariant\<close>

lemma routing_cong:
  assumes "gw_arcs g' = gw_arcs g" and "gw_tunnels g' = gw_tunnels g" and "gw_tickets g' = gw_tickets g"
    and "gw_browsers g' = gw_browsers g" and "map cc_pc (gw_controls g') = map cc_pc (gw_controls g)"
    and "routing_ok P (g, s)"
  shows "routing_ok P (g', s)"
proof (rule routing_step [OF assms(6)])
  show "db_later (snd s) (snd s)" using assms(6) by (cases s) (simp add: routing_ok_def db_later_refl)
  show "later g g'" using assms by (simp add: later_def pc_later_def)
  fix x assume "x \<in> set (gw_controls g')"
  then have "cc_pc x \<in> set (map cc_pc (gw_controls g'))" by simp
  then show "(\<exists>y \<in> set (gw_controls g). cc_pc x = cc_pc y) \<or> control_ok P (snd s) g' (cc_pc x)"
    unfolding assms(5) by auto
qed (use assms in auto)

lemma routing_fields [simp]:
  assumes "routing_ok P (g, s)"
  shows "routing_ok P (g\<lparr>gw_lifecycles := n\<rparr>, s)" and "routing_ok P (g\<lparr>gw_streams := n\<rparr>, s)"
    and "routing_ok P (g\<lparr>gw_control_slots := n\<rparr>, s)" and "routing_ok P (g\<lparr>gw_ingress_slots := n\<rparr>, s)"
    and "routing_ok P (g\<lparr>gw_quota := q\<rparr>, s)" and "routing_ok P (g\<lparr>gw_instant := j\<rparr>, s)"
    and "routing_ok P (g\<lparr>gw_tasks := l\<rparr>, s)"
  by (rule routing_cong [OF _ _ _ _ _ assms]; simp)+

lemma routing_store:
  "routing_ok P (g, s) \<Longrightarrow> db_later (snd s) (snd s') \<Longrightarrow> routing_ok P (g, s')"
  by (rule routing_step [of P g s s' g]) (auto simp: later_def pc_later_def)

lemma routing_db: "routing_ok P (g, s) \<Longrightarrow> store_ok (snd s)"
  by (cases s) (simp add: routing_ok_def)

lemma control_ok_cong:
  assumes "gw_arcs g' = gw_arcs g" and "gw_browsers g' = gw_browsers g"
  shows "control_ok P d g' pc = control_ok P d g pc"
proof (cases pc)
  case (Attach a apc)
  then show ?thesis using assms by (cases apc) (auto simp: ticket_ok_def waiting_def)
qed simp_all

lemma set_control_fields [simp]:
  "gw_arcs (set_control c f g) = gw_arcs g" "gw_tunnels (set_control c f g) = gw_tunnels g"
  "gw_tickets (set_control c f g) = gw_tickets g" "gw_browsers (set_control c f g) = gw_browsers g"
  "gw_tasks (set_control c f g) = gw_tasks g" "gw_id (set_control c f g) = gw_id g"
  "gw_instant (set_control c f g) = gw_instant g" "gw_lifecycles (set_control c f g) = gw_lifecycles g"
  "gw_streams (set_control c f g) = gw_streams g" "gw_ingress_slots (set_control c f g) = gw_ingress_slots g"
  "gw_control_slots (set_control c f g) = gw_control_slots g"
  by (simp_all add: set_control_def)

lemma ticket_ok_cong [simp]: "ticket_ok (g\<lparr>gw_tickets := x\<rparr>) tk = ticket_ok g tk"
  by (simp add: ticket_ok_def waiting_def)

lemma later_same: "gw_arcs g' = gw_arcs g \<Longrightarrow> gw_browsers g' = gw_browsers g \<Longrightarrow> later g g'"
  by (simp add: later_def pc_later_def)

lemma routing_set_control:
  assumes "routing_ok P (g, s)"
    and "c < length (gw_controls g) \<Longrightarrow> control_ok P (snd s) g (cc_pc (f (gw_controls g ! c)))"
  shows "routing_ok P (set_control c f g, s)"
proof (rule routing_step [OF assms(1) db_later_refl [OF routing_db [OF assms(1)]]])
  fix x assume "x \<in> set (gw_controls (set_control c f g))"
  then consider "x \<in> set (gw_controls g)" | "c < length (gw_controls g)" "x = f (gw_controls g ! c)"
    by (cases "c < length (gw_controls g)")
      (auto simp: set_control_def list_update_beyond dest!: subsetD [OF set_update_subset_insert])
  then show "(\<exists>y \<in> set (gw_controls g). cc_pc x = cc_pc y) \<or> control_ok P (snd s) (set_control c f g) (cc_pc x)"
    using assms(2) control_ok_cong [of "set_control c f g" g] by cases auto
qed (simp_all add: later_same)

lemma routing_goto [routing]:
  "routing_ok P (g, s) \<Longrightarrow> control_ok P (snd s) g pc \<Longrightarrow> routing_ok P (goto c pc g, s)"
  by (simp add: goto_def routing_set_control)

lemma routing_quiet [routing]:
  assumes "routing_ok P (g, s)"
  shows "routing_ok P (respond c status g, s)" and "routing_ok P (leave_loop c g, s)"
    and "routing_ok P (authenticated c g, s)" and "routing_ok P (take_permits c g, s)"
    and "routing_ok P (drop_permits c g, s)"
proof -
  have same: "control_ok P (snd s) g (cc_pc (gw_controls g ! c))" if "c < length (gw_controls g)"
    using that assms by (cases s) (auto simp: routing_ok_def)
  note cong = control_ok_cong [of "g\<lparr>gw_lifecycles := _\<rparr>" g]
  show "routing_ok P (respond c status g, s)" "routing_ok P (leave_loop c g, s)" "routing_ok P (authenticated c g, s)"
    "routing_ok P (take_permits c g, s)" "routing_ok P (drop_permits c g, s)"
    using assms same by (auto simp: respond_def leave_loop_def authenticated_def take_permits_def drop_permits_def cong
      intro!: routing_set_control)
qed

lemma routing_untick [routing]:
  "routing_ok P (g, s) \<Longrightarrow> routing_ok P (g\<lparr>gw_tickets := (gw_tickets g)(k := None)\<rparr>, s)"
  by (rule routing_step [of P g s s]) (auto simp: later_same db_later_refl routing_db split: if_splits)

lemma routing_set_slot:
  assumes "routing_ok P (g, s)" and "b < length (gw_browsers g) \<Longrightarrow> slot_ok P (snd s) g b x"
  shows "routing_ok P (set_slot b x g, s)"
proof -
  have pc: "br_pc (gw_browsers (set_slot b x g) ! b') = br_pc (gw_browsers g ! b')" for b'
    by (cases "b < length (gw_browsers g)"; cases "b = b'") (auto simp: set_slot_def list_update_beyond)
  have later: "later g (set_slot b x g)"
    by (simp add: later_def pc_later_def pc) (simp add: set_slot_def)
  have slots: "br_slot (gw_browsers (set_slot b x g) ! b') = br_slot (gw_browsers g ! b') \<or>
      b' = b \<and> br_slot (gw_browsers (set_slot b x g) ! b') = x" if "b' < length (gw_browsers g)" for b'
    using that by (cases "b = b'") (auto simp: set_slot_def)
  show ?thesis
  proof (rule routing_step [OF assms(1) db_later_refl [OF routing_db [OF assms(1)]] later])
    fix b' assume "b' < length (gw_browsers (set_slot b x g))"
    then have b': "b' < length (gw_browsers g)" by (simp add: set_slot_def)
    show "b' < length (gw_browsers g) \<and> br_slot (gw_browsers (set_slot b x g) ! b') = br_slot (gw_browsers g ! b')
      \<or> slot_ok P (snd s) (set_slot b x g) b' (br_slot (gw_browsers (set_slot b x g) ! b'))"
      using slots [OF b'] b' assms slot_ok_later [OF assms(1) db_later_refl [OF routing_db [OF assms(1)]] later]
      by auto
  qed (simp_all add: pc, simp_all add: set_slot_def, blast+)
qed

lemma routing_drop_ticket [routing]: "routing_ok P (g, s) \<Longrightarrow> routing_ok P (drop_ticket tk g, s)"
  by (auto simp: drop_ticket_def slot_ok_def split: option.split intro: routing_set_slot)

lemma routing_remove_ticket [routing]: "routing_ok P (g, s) \<Longrightarrow> routing_ok P (remove_ticket k g, s)"
  by (simp add: remove_ticket_def routing)

lemma routing_arcs [routing]:
  assumes "routing_ok P (g, s)" and "arcs_extend (gw_arcs g) arcs"
  shows "routing_ok P (g\<lparr>gw_arcs := arcs\<rparr>, s)"
proof (rule routing_step [OF assms(1) db_later_refl [OF routing_db [OF assms(1)]]])
  show "later g (g\<lparr>gw_arcs := arcs\<rparr>)"
    using assms by (simp add: later_def pc_later_def)
qed auto

lemma routing_untunnel [routing]:
  "routing_ok P (g, s) \<Longrightarrow> routing_ok P (g\<lparr>gw_tunnels := (gw_tunnels g)(h := None)\<rparr>, s)"
  by (rule routing_step [of P g s s]) (auto simp: later_same db_later_refl routing_db split: if_splits)

lemma routing_set_browser:
  assumes "routing_ok P (g, s)" and "browser_pc_ok P (snd s) (gw_arcs g) pc"
    and "pc = BClosed \<or> br_pc (gw_browsers g ! b) \<noteq> BClosed \<and>
      (route (gw_arcs g) (br_pc (gw_browsers g ! b)) = None
       \<or> route (gw_arcs g) pc = route (gw_arcs g) (br_pc (gw_browsers g ! b)))"
  shows "routing_ok P (set_browser b pc g, s)"
proof -
  have pc: "br_pc (gw_browsers (set_browser b pc g) ! b') = (if b' = b then pc else br_pc (gw_browsers g ! b'))"
    if "b' < length (gw_browsers g)" for b'
    using that by (auto simp: set_browser_def nth_list_update)
  have slot: "br_slot (gw_browsers (set_browser b pc g) ! b') = br_slot (gw_browsers g ! b')" for b'
    by (cases "b < length (gw_browsers g)"; cases "b = b'") (auto simp: set_browser_def list_update_beyond)
  show ?thesis
  proof (rule routing_step [OF assms(1) db_later_refl [OF routing_db [OF assms(1)]]])
    show "later g (set_browser b pc g)"
      using assms(3) by (auto simp: later_def pc_later_def pc Let_def) (auto simp: set_browser_def)
    fix b' assume "b' < length (gw_browsers (set_browser b pc g))"
    then have b': "b' < length (gw_browsers g)" by (simp add: set_browser_def)
    show "b' < length (gw_browsers g) \<and> br_pc (gw_browsers (set_browser b pc g) ! b') = br_pc (gw_browsers g ! b')
      \<or> browser_pc_ok P (snd s) (gw_arcs (set_browser b pc g)) (br_pc (gw_browsers (set_browser b pc g) ! b'))"
      using b' assms(2) by (auto simp: pc) (simp add: set_browser_def)
    show "b' < length (gw_browsers g) \<and> br_slot (gw_browsers (set_browser b pc g) ! b') = br_slot (gw_browsers g ! b')
      \<or> slot_ok P (snd s) (set_browser b pc g) b' (br_slot (gw_browsers (set_browser b pc g) ! b'))"
      using b' by (simp add: slot)
  qed (auto simp: set_browser_def)
qed

lemma routing_close_browser [routing]: "routing_ok P (g, s) \<Longrightarrow> routing_ok P (close_browser b g, s)"
  by (auto simp: close_browser_def Let_def split: option.split
      intro!: routing_set_browser routing_fields routing_arcs arcs_extend_update)

section \<open>Every step keeps the invariant\<close>

lemma routing_set_task [routing]: "routing_ok P (g, s) \<Longrightarrow> routing_ok P (set_task l pc g, s)"
  by (simp add: set_task_def)

lemma routing_arc_ok: "routing_ok P (g, s) \<Longrightarrow> gw_tunnels g h = Some a \<Longrightarrow> arc_ok (snd s) (gw_arcs g) h a"
  by (cases s) (simp add: routing_ok_def)

lemma routing_control_ok:
  "routing_ok P (g, s) \<Longrightarrow> c < length (gw_controls g) \<Longrightarrow> control_ok P (snd s) g (cc_pc (gw_controls g ! c))"
  by (cases s) (simp add: routing_ok_def)

lemma routing_browser_ok:
  "routing_ok P (g, s) \<Longrightarrow> b < length (gw_browsers g) \<Longrightarrow> browser_ok P (snd s) g b"
  by (cases s) (simp add: routing_ok_def)

lemma routing_ticket_ok: "routing_ok P (g, s) \<Longrightarrow> gw_tickets g k = Some tk \<Longrightarrow> ticket_ok g tk"
  by (cases s) (simp add: routing_ok_def)

lemma tunnel_request_valid: "tunnel_request P rq = Some (i, h, token) \<Longrightarrow> validate_hostname h = Inr ()"
  by (auto simp: tunnel_request_def split: option.splits if_splits)

lemma attach_request_valid: "attach_request P rq = Some a \<Longrightarrow> validate_hostname (at_host a) = Inr ()"
  by (auto simp: attach_request_def split: option.splits if_splits)

lemma routing_control_request:
  "routing_ok P (g, s) \<Longrightarrow> routing_ok P (control_request Q c rq g, s)"
  by (auto simp: control_request_def attach_request_valid split: option.split intro!: routing)

lemma routing_install:
  assumes "routing_ok P (g, s)" and "served (snd s) i h"
  shows "routing_ok P (install_tunnel c i h generation g, s)"
proof (rule routing_step [OF assms(1) db_later_refl [OF routing_db [OF assms(1)]]])
  have arcs: "arcs_extend (gw_arcs g) (gw_arcs (install_tunnel c i h generation g))"
    by (auto simp: install_tunnel_def Let_def split: option.split intro!: arcs_extend_append arcs_extend_update)
  then show "later g (install_tunnel c i h generation g)"
    by (simp add: later_def pc_later_def) (simp add: install_tunnel_def Let_def)
  fix h' a assume "gw_tunnels (install_tunnel c i h generation g) h' = Some a"
  then show "gw_tunnels g h' = Some a \<or> arc_ok (snd s) (gw_arcs (install_tunnel c i h generation g)) h' a"
    using assms(2) by (auto simp: install_tunnel_def Let_def arc_ok_def nth_append split: if_splits option.splits)
qed (auto simp: install_tunnel_def Let_def)

lemma routing_tunnel_run:
  assumes "routing_ok (k_prims K) (g, s)" and "control_ok (k_prims K) (snd s) g pc"
    and "tunnel_run K t ok c pc (g, s) = Some sys"
  shows "routing_ok (k_prims K) sys"
proof -
  note later = at_time_later [OF _ routing_db [OF assms(1)]] store_call_later [OF _ routing_db [OF assms(1)]]
  note keep = routing_store [OF assms(1)]
  show ?thesis
  proof (cases pc)
    case (TunnelHostname i h token)
    with assms(3) show ?thesis
      by (auto simp: Let_def bind_eq_Some_conv dest!: later intro!: routing keep hostname_served)
  next
    case (TunnelBearer i h token)
    with assms(2,3) show ?thesis
      by (auto simp: Let_def bind_eq_Some_conv dest!: later intro!: routing keep)
  next
    case (TunnelClaim i h)
    show ?thesis
    proof (cases ok)
      case True
      with TunnelClaim assms(3) obtain r s' where call: "store_call K t (ClaimTunnel i (gw_id g) 45) s = Some (r, s')"
        and sys: "sys = (case r of Inr (VCount x) \<Rightarrow> goto c (TunnelInstall i h x) g
          | _ \<Rightarrow> leave_loop c (drop_permits c g), s')"
        by (auto simp: bind_eq_Some_conv)
      have "served (snd s') i h" using TunnelClaim assms(2) served_later [OF later(2) [OF call]] by simp
      then show ?thesis
        using keep [OF later(2) [OF call]] unfolding sys by (auto split: sum.split op_value.split intro!: routing)
    qed (use TunnelClaim assms in \<open>auto intro!: routing\<close>)
  next
    case (TunnelInstall i h generation)
    with assms show ?thesis by (auto intro!: routing routing_install)
  qed (use assms(3) in auto)
qed

lemma attached_valid: "attached P d a \<Longrightarrow> validate_hostname (at_host a) = Inr ()"
  by (simp add: attached_def)

lemma routing_attach_run:
  assumes ok: "routing_ok (k_prims K) (g, s)" and pc: "attach_ok (k_prims K) (snd s) g a pc"
    and run: "attach_run K t ok c a pc (g, s) = Some sys"
  shows "routing_ok (k_prims K) sys"
proof -
  note later = at_time_later [OF _ routing_db [OF ok]]
  note keep = routing_store [OF ok]
  have db: "store_ok (snd s)" by (rule routing_db [OF ok])
  show ?thesis
  proof (cases pc)
    case AHostname
    with run pc show ?thesis
      by (auto simp: bind_eq_Some_conv dest!: later intro!: routing keep hostname_served)
  next
    case ABearer
    with run pc db show ?thesis
      by (auto simp: bind_eq_Some_conv attached_def dest!: later intro!: routing keep authenticate_known)
  next
    case AOwner
    with run pc ok show ?thesis by (auto intro!: routing)
  next
    case ACurrent
    with run pc show ?thesis
      by (auto simp: bind_eq_Some_conv dest!: later intro!: routing keep)
  next
    case ATicket
    with run pc ok show ?thesis
      by (auto simp: bind_eq_Some_conv ticket_for_def ticket_claim_matches_def ticket_owner_matches_def
          control_ok_cong [of "g\<lparr>gw_tickets := _\<rparr>" g]
          split: option.splits if_splits dest: routing_ticket_ok intro!: routing)
  next
    case (AOwnerAgain tk)
    with run pc ok show ?thesis by (auto intro!: routing)
  next
    case (AStillCurrent tk)
    with pc have "slot_ok (k_prims K) (snd s) g (tk_claim tk) (SlotSent c a)"
      by (auto simp: slot_ok_def ticket_ok_def ticket_for_def)
    with AStillCurrent run show ?thesis
      by (auto simp: bind_eq_Some_conv dest!: later intro!: routing routing_set_slot keep)
  qed
qed

lemma routing_lifecycle_select:
  "routing_ok P (g, s) \<Longrightarrow> lifecycle_select l action g = Some g' \<Longrightarrow> routing_ok P (g', s)"
  by (cases action)
    (auto simp: Let_def split: if_splits list.splits intro!: routing arcs_extend_update)

lemma routing_renew_lifecycle:
  assumes "routing_ok P (g, s)" and "renew_lifecycle K t ok l (g, s) = Some sys"
  shows "routing_ok P sys"
proof (cases ok)
  case True
  let ?x = "gw_arcs g ! lf_arc (gw_tasks g ! l)"
  from True assms(2) obtain r s'
    where call: "store_call K t (RenewTunnel (tu_id ?x) (gw_id g) (tu_generation ?x)) s = Some (r, s')"
    and sys: "sys = (case r of Inr (VBool True) \<Rightarrow> set_task l (LSend (Heartbeat WIRE_VERSION (tu_generation ?x))) g
          | _ \<Rightarrow> set_task l LEnd g, s')"
    by (auto simp: renew_lifecycle_def Let_def bind_eq_Some_conv)
  show ?thesis
    using routing_store [OF assms(1) store_call_later [OF call routing_db [OF assms(1)]]] unfolding sys
    by (auto split: sum.split op_value.split bool.split intro!: routing)
qed (use assms in \<open>auto simp: renew_lifecycle_def Let_def intro!: routing\<close>)

lemma routing_lifecycle_end: "routing_ok P (g, s) \<Longrightarrow> routing_ok P (lifecycle_end l g, s)"
  by (auto simp: lifecycle_end_def Let_def intro!: routing)

lemma routing_accept_control: "routing_ok P (g, s) \<Longrightarrow> routing_ok P (accept_control g, s)"
  by (rule routing_step [of P g s s]) (auto simp: accept_control_def db_later_refl routing_db later_same)

lemma routing_accept_browser:
  assumes "routing_ok P (g, s)"
  shows "routing_ok P (accept_browser peer g, s)"
proof -
  obtain ok q where q: "allow_at peer (gw_instant g) (gw_quota g) = (ok, q)" by fastforce
  show ?thesis
    by (rule routing_step [OF assms db_later_refl [OF routing_db [OF assms]]])
      (auto simp: accept_browser_def Let_def q later_def pc_later_def nth_append slot_ok_def)
qed

lemma routing_browser_steps:
  assumes ok: "routing_ok P (g, s)" and b: "browser_at g b = Some pc"
  shows "pc = BStart \<Longrightarrow> routing_ok P (browser_start b g, s)"
    and "pc = BHello \<Longrightarrow> routing_ok P (browser_hello A b reads g, s)"
    and "pc = BLookup h hello \<Longrightarrow> routing_ok P (browser_lookup b h hello g, s)"
    and "pc = BCurrent h hello a \<Longrightarrow> browser_current t fine b h hello a (g, s) = Some sys \<Longrightarrow> routing_ok P sys"
proof -
  have pc: "b < length (gw_browsers g)" "br_pc (gw_browsers g ! b) = pc"
    using b by (auto simp: browser_at_def split: if_splits)
  then have pc_ok: "browser_pc_ok P (snd s) (gw_arcs g) pc"
    using routing_browser_ok [OF ok, of b] by (simp add: browser_ok_def)
  note later = at_time_later [OF _ routing_db [OF ok]]
  show "pc = BStart \<Longrightarrow> routing_ok P (browser_start b g, s)"
    using ok pc by (auto simp: browser_start_def intro!: routing routing_set_browser)
  show "pc = BHello \<Longrightarrow> routing_ok P (browser_hello A b reads g, s)"
    using ok pc by (auto simp: browser_hello_def split: sum.split intro!: routing routing_set_browser)
  show "routing_ok P (browser_lookup b h hello g, s)" if "pc = BLookup h hello"
  proof (cases "gw_tunnels g h")
    case (Some a)
    define arcs where "arcs = (gw_arcs g)[a := (gw_arcs g ! a)\<lparr>tu_permits := tu_permits (gw_arcs g ! a) - 1\<rparr>]"
    have ext: "arcs_extend (gw_arcs g) arcs" by (simp add: arcs_def arcs_extend_update)
    have "routing_ok P (set_browser b (BCurrent h hello a) (g\<lparr>gw_arcs := arcs\<rparr>), s)"
      using pc that arc_ok_later [OF db_later_refl [OF routing_db [OF ok]] ext routing_arc_ok [OF ok Some]]
      by (intro routing_set_browser routing_arcs ok ext) simp_all
    then show ?thesis using Some ok by (simp add: browser_lookup_def arcs_def routing_close_browser)
  qed (use ok in \<open>auto simp: browser_lookup_def intro: routing\<close>)
  show "routing_ok P sys" if "pc = BCurrent h hello a" "browser_current t fine b h hello a (g, s) = Some sys"
    using that pc pc_ok
    by (auto simp: browser_current_def bind_eq_Some_conv dest!: later
        intro!: routing routing_set_browser routing_store [OF ok])
qed

lemma drop_ticket_pc [simp]:
  "br_pc (gw_browsers (drop_ticket x g) ! b) = br_pc (gw_browsers g ! b)"
  "length (gw_browsers (drop_ticket x g)) = length (gw_browsers g)"
  "gw_arcs (drop_ticket x g) = gw_arcs g"
  by (cases x; cases "tk_claim (the x) < length (gw_browsers g)"; cases "tk_claim (the x) = b";
      simp add: drop_ticket_def set_slot_def list_update_beyond)+

lemma remove_ticket_pc [simp]:
  "br_pc (gw_browsers (remove_ticket k g) ! b) = br_pc (gw_browsers g ! b)"
  "length (gw_browsers (remove_ticket k g)) = length (gw_browsers g)"
  "gw_arcs (remove_ticket k g) = gw_arcs g"
  by (simp_all add: remove_ticket_def)

lemma routing_browser_ticket:
  assumes ok: "routing_ok P (g, s)" and b: "browser_at g b = Some (BTicket h hello a)"
  shows "routing_ok P (browser_ticket b h hello a key conn ms g, s)"
proof -
  have pc: "b < length (gw_browsers g)" "br_pc (gw_browsers g ! b) = BTicket h hello a"
    using b by (auto simp: browser_at_def split: if_splits)
  then have arc: "arc_ok (snd s) (gw_arcs g) h a"
    using routing_browser_ok [OF ok, of b] by (simp add: browser_ok_def)
  define deadline where "deadline = gw_instant g + secs 10"
  define event where "event = Open WIRE_VERSION key conn h (tu_generation (gw_arcs g ! a)) (ms + 10000)"
  define tk where "tk = \<lparr>tk_host = h, tk_id = tu_id (gw_arcs g ! a), tk_generation = tu_generation (gw_arcs g ! a),
    tk_deadline = deadline, tk_claim = b\<rparr>"
  define g1 where "g1 = set_browser b (BSend h hello a key deadline event) (drop_ticket (gw_tickets g key) g)"
  have g1: "routing_ok P (g1, s)"
    unfolding g1_def using ok pc arc by (intro routing_set_browser routing) simp_all
  have tk: "ticket_ok (g1\<lparr>gw_tickets := t\<rparr>) tk" for t
    using pc by (simp add: ticket_ok_def waiting_def tk_def g1_def set_browser_def)
  have "browser_ticket b h hello a key conn ms g = g1\<lparr>gw_tickets := (gw_tickets g1)(key \<mapsto> tk)\<rparr>"
    by (simp add: browser_ticket_def Let_def g1_def tk_def event_def deadline_def set_browser_def drop_ticket_def
        set_slot_def split: option.split)
  then show ?thesis
    using tk by (auto intro!: routing_step [OF g1 db_later_refl [OF routing_db [OF g1]]] simp: later_same split: if_splits)
qed

lemma routing_browser_rest:
  assumes ok: "routing_ok P (g, s)" and b: "browser_at g b = Some pc"
  shows "pc = BSend h hello a key deadline event \<Longrightarrow> browser_send b sent h hello a key deadline event g = Some g'
      \<Longrightarrow> routing_ok P (g', s)"
    and "pc = BWait h hello a key deadline \<Longrightarrow> browser_wait b elapsed h hello a key deadline g = Some g'
      \<Longrightarrow> routing_ok P (g', s)"
proof -
  have pc: "b < length (gw_browsers g)" "br_pc (gw_browsers g ! b) = pc"
    using b by (auto simp: browser_at_def split: if_splits)
  then have pc_ok: "browser_pc_ok P (snd s) (gw_arcs g) pc" and slot: "slot_ok P (snd s) g b (br_slot (gw_browsers g ! b))"
    using routing_browser_ok [OF ok, of b] by (simp_all add: browser_ok_def)
  show "routing_ok P (g', s)" if "pc = BSend h hello a key deadline event"
    "browser_send b sent h hello a key deadline event g = Some g'"
  proof (cases sent)
    case True
    define arcs where "arcs = (gw_arcs g)[a := (gw_arcs g ! a)\<lparr>tu_queue := tu_queue (gw_arcs g ! a) @ [event]\<rparr>]"
    have ext: "arcs_extend (gw_arcs g) arcs" by (simp add: arcs_def arcs_extend_update)
    have "arc_ok (snd s) arcs h a" "arc_ok (snd s) (gw_arcs g) h a"
      using that pc_ok arc_ok_later [OF db_later_refl [OF routing_db [OF ok]] ext] by auto
    then have "routing_ok P (set_browser b (BWait h hello a key deadline) (g\<lparr>gw_arcs := arcs\<rparr>), s)"
      using pc that by (intro routing_set_browser routing_arcs ok ext) simp_all
    with True that show ?thesis by (auto simp: browser_send_def arcs_def split: if_splits)
  qed (use ok that in \<open>auto simp: browser_send_def split: if_splits intro!: routing\<close>)
  show "routing_ok P (g', s)" if "pc = BWait h hello a key deadline"
    "browser_wait b elapsed h hello a key deadline g = Some g'"
  proof -
    from that consider "g' = close_browser b (remove_ticket key g)"
      | c at where "g' = set_browser b (BBridge h hello a c at) (remove_ticket key g)"
          "br_slot (gw_browsers g ! b) = SlotSent c at"
      by (auto simp: browser_wait_def split: if_splits slot.splits)
    then show ?thesis
    proof cases
      case 2
      with slot that(1) pc pc_ok show ?thesis
        by (auto simp: slot_ok_def waiting_def intro!: routing_set_browser routing ok)
    qed (use ok in \<open>auto intro!: routing\<close>)
  qed
qed

lemma routing_new: "store_ok d \<Longrightarrow> routing_ok P (gateway_new gid now, (t, d))"
  by (simp add: routing_ok_def gateway_new_def)

lemma routing_exec:
  assumes "gateway_exec P e (g, s) = Some sys" and "routing_ok (k_prims (gp_store P)) (g, s)"
  shows "routing_ok (k_prims (gp_store P)) sys"
proof (cases e)
  case (ControlRun c t ok)
  with assms(1) have c: "c < length (gw_controls g)" and run: "control_run (gp_store P) t ok c (g, s) = Some sys"
    by (auto simp: control_at_def split: if_splits)
  note pc = routing_control_ok [OF assms(2) c]
  show ?thesis
  proof (cases "\<exists>a apc. cc_pc (gw_controls g ! c) = Attach a apc")
    case True
    with run pc show ?thesis by (auto simp: control_run_def intro: routing_attach_run [OF assms(2)])
  next
    case False
    with run have "tunnel_run (gp_store P) t ok c (cc_pc (gw_controls g ! c)) (g, s) = Some sys"
      by (auto simp: control_run_def split: control_pc.splits)
    with pc show ?thesis by (rule routing_tunnel_run [OF assms(2)])
  qed
next
  case (StoreEvent t op)
  with assms show ?thesis
    by (auto intro: routing_store dest: store_call_later [OF _ routing_db [OF assms(2)]])
qed (use assms in \<open>auto simp: authentication_deadline_def control_joined_def lifecycle_sent_def Let_def
    split: if_splits option.splits browser_pc.splits
    intro: routing routing_control_request routing_accept_control routing_accept_browser
      routing_lifecycle_select routing_renew_lifecycle routing_lifecycle_end
      routing_browser_steps routing_browser_ticket routing_browser_rest\<close>)

end
