(* ===== verification/Gateway_Capacity.thy ===== *)
theory Gateway_Capacity
  imports Gateway_Routing
begin

text \<open>
  The resource bounds of the gateway: every semaphore's free permits and the tasks that hold
  one always add up to its size, so permits are neither lost nor minted on any path, and the
  numbers of tunnels, control connections and streams stay within the configured limits.
\<close>

section \<open>Counting\<close>

definition tally :: "('a \<Rightarrow> bool) \<Rightarrow> 'a list \<Rightarrow> int" where
  "tally p xs = int (length (filter p xs))"

lemma tally_Nil [simp]: "tally p [] = 0"
  by (simp add: tally_def)

lemma tally_append [simp]: "tally p (xs @ ys) = tally p xs + tally p ys"
  by (simp add: tally_def)

lemma tally_single [simp]: "tally p [x] = of_bool (p x)"
  by (simp add: tally_def)

lemma tally_nonneg [simp]: "0 \<le> tally p xs"
  by (simp add: tally_def)

lemma tally_update:
  "i < length xs \<Longrightarrow> tally p (xs[i := v]) = tally p xs + of_bool (p v) - of_bool (p (xs ! i))"
proof (induction xs arbitrary: i)
  case (Cons x xs)
  then show ?case by (cases i) (auto simp: tally_def)
qed simp

lemma tally_zero: "(\<And>x. x \<in> set xs \<Longrightarrow> \<not> p x) \<Longrightarrow> tally p xs = 0"
  by (simp add: tally_def filter_empty_conv)

section \<open>The invariant\<close>

fun holding :: "control_pc \<Rightarrow> bool" where
  "holding (TunnelClaim i h) = True"
| "holding (TunnelInstall i h generation) = True"
| "holding _ = False"

definition live :: "lifecycle \<Rightarrow> bool" where
  "live l \<longleftrightarrow> lf_pc l \<noteq> LDone"

definition lifecycles_ok :: "gateway \<Rightarrow> bool" where
  "lifecycles_ok g \<longleftrightarrow>
     int (gw_lifecycles g) + tally (\<lambda>x. holding (cc_pc x)) (gw_controls g) + tally live (gw_tasks g)
       = int MAX_TUNNEL_LIFECYCLES
     \<and> (\<forall>c < length (gw_controls g).
          int (cc_permits (gw_controls g ! c)) + of_bool (holding (cc_pc (gw_controls g ! c)))
            + tally (\<lambda>l. lf_conn l = c \<and> live l) (gw_tasks g) = int MAX_TUNNEL_LIFECYCLES_PER_CONNECTION)
     \<and> (\<forall>l \<in> set (gw_tasks g). lf_conn l < length (gw_controls g))"

definition slots_ok :: "gateway \<Rightarrow> bool" where
  "slots_ok g \<longleftrightarrow>
     int (gw_control_slots g) + tally (\<lambda>x. cc_pc x \<noteq> ControlClosed) (gw_controls g) = int CONTROL_SLOTS"

definition streams_ok :: "gateway \<Rightarrow> bool" where
  "streams_ok g \<longleftrightarrow>
     int (gw_streams g) + tally (\<lambda>x. holds_stream (br_pc x)) (gw_browsers g) = int STREAM_LIMIT
     \<and> int (gw_ingress_slots g) + tally (\<lambda>x. br_pc x \<noteq> BClosed) (gw_browsers g) = int STREAM_LIMIT"

definition arcs_ok :: "gateway \<Rightarrow> bool" where
  "arcs_ok g \<longleftrightarrow>
     (\<forall>a < length (gw_arcs g). int (tu_permits (gw_arcs g ! a))
        + tally (\<lambda>x. arc_of (br_pc x) = Some a) (gw_browsers g) = int MAX_INSTALLATION_STREAMS)
     \<and> (\<forall>x \<in> set (gw_browsers g). \<forall>a. arc_of (br_pc x) = Some a \<longrightarrow> a < length (gw_arcs g))
     \<and> (\<forall>h a. gw_tunnels g h = Some a \<longrightarrow> a < length (gw_arcs g))"

section \<open>Lifecycle permits\<close>

text \<open>
  The abstract machine behind the lifecycle permits: how many are free, for every control
  connection whether its task holds a pair and how many of its own are free, and for every
  lifecycle its connection and whether it is running.
\<close>

type_synonym permits = "nat \<times> (bool \<times> nat) list \<times> (nat \<times> bool) list"

inductive permits_step :: "permits \<Rightarrow> permits \<Rightarrow> bool" where
  idle: "permits_step v v"
| opened: "permits_step (n, cs, ls) (n, cs @ [(False, MAX_TUNNEL_LIFECYCLES_PER_CONNECTION)], ls)"
| acquire: "c < length cs \<Longrightarrow> cs ! c = (False, Suc p) \<Longrightarrow>
    permits_step (Suc n, cs, ls) (n, cs[c := (True, p)], ls)"
| giveback: "c < length cs \<Longrightarrow> cs ! c = (True, p) \<Longrightarrow>
    permits_step (n, cs, ls) (Suc n, cs[c := (False, Suc p)], ls)"
| spawn: "c < length cs \<Longrightarrow> cs ! c = (True, p) \<Longrightarrow>
    permits_step (n, cs, ls) (n, cs[c := (False, p)], ls @ [(c, True)])"
| finish: "l < length ls \<Longrightarrow> ls ! l = (c, True) \<Longrightarrow> c < length cs \<Longrightarrow> cs ! c = (h, p) \<Longrightarrow>
    permits_step (n, cs, ls) (Suc n, cs[c := (h, Suc p)], ls[l := (c, False)])"

definition permits_ok :: "permits \<Rightarrow> bool" where
  "permits_ok v = (case v of (n, cs, ls) \<Rightarrow>
     int n + tally fst cs + tally snd ls = int MAX_TUNNEL_LIFECYCLES
     \<and> (\<forall>c < length cs. int (snd (cs ! c)) + of_bool (fst (cs ! c)) + tally (\<lambda>l. fst l = c \<and> snd l) ls
          = int MAX_TUNNEL_LIFECYCLES_PER_CONNECTION)
     \<and> (\<forall>l \<in> set ls. fst l < length cs))"

lemma permits_step_ok: "permits_step v v' \<Longrightarrow> permits_ok v \<Longrightarrow> permits_ok v'"
proof (induction rule: permits_step.induct)
  case (opened n cs ls)
  then have "tally (\<lambda>l. fst l = length cs \<and> snd l) ls = 0"
    by (intro tally_zero) (auto simp: permits_ok_def)
  with opened show ?case by (auto simp: permits_ok_def nth_append less_Suc_eq)
next
  case (finish l ls c cs h p n)
  then have "set (ls[l := (c, False)]) \<subseteq> insert (c, False) (set ls)" by (simp add: set_update_subset_insert)
  with finish show ?case by (auto simp: permits_ok_def tally_update nth_list_update)
qed (auto simp: permits_ok_def tally_update nth_list_update)

definition permits_of :: "gateway \<Rightarrow> permits" where
  "permits_of g = (gw_lifecycles g, map (\<lambda>x. (holding (cc_pc x), cc_permits x)) (gw_controls g),
     map (\<lambda>l. (lf_conn l, live l)) (gw_tasks g))"

lemma tally_map: "tally p (map f xs) = tally (\<lambda>x. p (f x)) xs"
  by (simp add: tally_def filter_map comp_def)

lemma lifecycles_permits: "lifecycles_ok g = permits_ok (permits_of g)"
  by (simp add: lifecycles_ok_def permits_ok_def permits_of_def tally_map)

lemma permits_set_control:
  "c < length (gw_controls g) \<Longrightarrow> permits_of (set_control c f g) =
     (let (n, cs, ls) = permits_of g; x = f (gw_controls g ! c) in (n, cs[c := (holding (cc_pc x), cc_permits x)], ls))"
  by (simp add: permits_of_def set_control_def map_update Let_def)

lemma permits_same:
  assumes "c < length (gw_controls g)" and "holding (cc_pc (f (gw_controls g ! c))) = holding (cc_pc (gw_controls g ! c))"
    and "cc_permits (f (gw_controls g ! c)) = cc_permits (gw_controls g ! c)"
  shows "permits_of (set_control c f g) = permits_of g"
proof -
  have "(map (\<lambda>x. (holding (cc_pc x), cc_permits x)) (gw_controls g))[c := (holding (cc_pc (gw_controls g ! c)), cc_permits (gw_controls g ! c))]
      = map (\<lambda>x. (holding (cc_pc x), cc_permits x)) (gw_controls g)"
    using assms(1) by (simp add: list_update_same_conv)
  with assms show ?thesis by (simp add: permits_set_control Let_def) (simp add: permits_of_def)
qed

lemma permits_quiet [simp]:
  "permits_of (set_slot b x g) = permits_of g" "permits_of (drop_ticket tk g) = permits_of g"
  "permits_of (remove_ticket k g) = permits_of g" "permits_of (set_browser b pc g) = permits_of g"
  "permits_of (close_browser b g) = permits_of g" "permits_of (browser_start b g) = permits_of g"
  "permits_of (browser_hello A b reads g) = permits_of g" "permits_of (browser_lookup b h hello g) = permits_of g"
  "permits_of (browser_ticket b h hello a key conn ms g) = permits_of g"
  "permits_of (accept_browser peer g) = permits_of g" "permits_of (g\<lparr>gw_arcs := arcs\<rparr>) = permits_of g"
  "permits_of (g\<lparr>gw_instant := t\<rparr>) = permits_of g"
  by (auto simp: permits_of_def set_slot_def drop_ticket_def remove_ticket_def set_browser_def close_browser_def
      browser_start_def browser_hello_def browser_lookup_def browser_ticket_def accept_browser_def Let_def
      split: option.split sum.split prod.split)

lemma controls_quiet [simp]:
  "gw_controls (set_slot b x g) = gw_controls g" "gw_controls (drop_ticket tk g) = gw_controls g"
  "gw_lifecycles (set_slot b x g) = gw_lifecycles g" "gw_lifecycles (drop_ticket tk g) = gw_lifecycles g"
  by (auto simp: set_slot_def drop_ticket_def split: option.split)

lemma set_control_nth [simp]:
  "length (gw_controls (set_control c f g)) = length (gw_controls g)"
  "c < length (gw_controls g) \<Longrightarrow> gw_controls (set_control c f g) ! c = f (gw_controls g ! c)"
  by (simp_all add: set_control_def)

lemma permits_free:
  assumes "c < length (gw_controls g)" and "\<not> holding (cc_pc (gw_controls g ! c))"
  shows "permits_of (respond c status g) = permits_of g" and "permits_of (leave_loop c g) = permits_of g"
    and "\<not> holding pc \<Longrightarrow> permits_of (goto c pc g) = permits_of g"
  using assms by (simp_all add: respond_def leave_loop_def goto_def permits_same)

text \<open>A control connection's step: what it means for the permits.\<close>

lemma attach_run_permits:
  assumes "attach_run K t ok c a pc (g, s) = Some (g', s')" and c: "c < length (gw_controls g)"
    and "cc_pc (gw_controls g ! c) = Attach a pc"
  shows "permits_of g' = permits_of g"
proof -
  have free: "\<not> holding (cc_pc (gw_controls g ! c))" using assms(3) by simp
  have auth: "permits_of (goto c (Attach a x) (authenticated c g)) = permits_of g" for x
    using c free by (subst permits_free) (simp_all add: authenticated_def permits_same)
  have ticket: "permits_of (goto c (Attach a x) (g\<lparr>gw_tickets := y\<rparr>)) = permits_of g" for x y
    using c free by (subst permits_free) (simp_all add: permits_of_def)
  show ?thesis
    using assms(1) c free
    by (cases pc)
      (auto simp: bind_eq_Some_conv permits_free auth ticket split: option.splits if_splits)
qed

text \<open>The five ways a step of \<^verbatim>\<open>POST /v1/tunnel\<close> ends.\<close>

lemma permits_acquire:
  assumes "c < length (gw_controls g)" and "\<not> holding (cc_pc (gw_controls g ! c))"
    and "cc_permits (gw_controls g ! c) \<noteq> 0" and "gw_lifecycles g \<noteq> 0"
  shows "permits_step (permits_of g) (permits_of (goto c (TunnelClaim i h) (take_permits c (authenticated c g))))"
proof -
  obtain p n where p: "cc_permits (gw_controls g ! c) = Suc p" "gw_lifecycles g = Suc n"
    using assms(3,4) not0_implies_Suc by metis
  have "permits_of (goto c (TunnelClaim i h) (take_permits c (authenticated c g)))
      = (n, (map (\<lambda>x. (holding (cc_pc x), cc_permits x)) (gw_controls g))[c := (True, p)],
         map (\<lambda>l. (lf_conn l, live l)) (gw_tasks g))"
    using assms(1) p by (simp add: permits_of_def goto_def take_permits_def authenticated_def set_control_def map_update)
  then show ?thesis
    using assms(1,2) p permits_step.acquire [of c "map (\<lambda>x. (holding (cc_pc x), cc_permits x)) (gw_controls g)" p n]
    by (simp add: permits_of_def)
qed

lemma permits_giveback:
  assumes "c < length (gw_controls g)" and "holding (cc_pc (gw_controls g ! c))"
  shows "permits_step (permits_of g) (permits_of (respond c status (drop_permits c g)))"
    and "permits_step (permits_of g) (permits_of (leave_loop c (drop_permits c g)))"
proof -
  let ?cs = "map (\<lambda>x. (holding (cc_pc x), cc_permits x)) (gw_controls g)"
  let ?v = "(Suc (gw_lifecycles g), ?cs[c := (False, Suc (cc_permits (gw_controls g ! c)))],
    map (\<lambda>l. (lf_conn l, live l)) (gw_tasks g))"
  have "permits_of (respond c status (drop_permits c g)) = ?v" "permits_of (leave_loop c (drop_permits c g)) = ?v"
    using assms(1) by (simp_all add: permits_of_def respond_def leave_loop_def drop_permits_def set_control_def map_update)
  moreover have "permits_step (permits_of g) ?v"
    using assms permits_step.giveback [of c ?cs] by (simp add: permits_of_def)
  ultimately show "permits_step (permits_of g) (permits_of (respond c status (drop_permits c g)))"
    "permits_step (permits_of g) (permits_of (leave_loop c (drop_permits c g)))" by simp_all
qed

lemma permits_spawn:
  assumes "c < length (gw_controls g)" and "holding (cc_pc (gw_controls g ! c))"
  shows "permits_step (permits_of g) (permits_of (respond c status (install_tunnel c i h generation g)))"
proof -
  let ?cs = "map (\<lambda>x. (holding (cc_pc x), cc_permits x)) (gw_controls g)"
  have "permits_of (respond c status (install_tunnel c i h generation g)) =
      (gw_lifecycles g, ?cs[c := (False, cc_permits (gw_controls g ! c))],
       map (\<lambda>l. (lf_conn l, live l)) (gw_tasks g) @ [(c, True)])"
    using assms(1) by (simp add: permits_of_def respond_def install_tunnel_def Let_def set_control_def map_update live_def)
  then show ?thesis
    using assms permits_step.spawn [of c ?cs] by (simp add: permits_of_def)
qed

lemma permits_finish:
  assumes "l < length (gw_tasks g)" and "lf_pc (gw_tasks g ! l) = LEnd" and "lifecycles_ok g"
  shows "permits_step (permits_of g) (permits_of (lifecycle_end l g))"
proof -
  let ?cs = "map (\<lambda>x. (holding (cc_pc x), cc_permits x)) (gw_controls g)"
    and ?ls = "map (\<lambda>l. (lf_conn l, live l)) (gw_tasks g)" and ?c = "lf_conn (gw_tasks g ! l)"
  have c: "?c < length (gw_controls g)" using assms(1,3) by (simp add: lifecycles_ok_def)
  have "permits_of (lifecycle_end l g) = (Suc (gw_lifecycles g),
      ?cs[?c := (holding (cc_pc (gw_controls g ! ?c)), Suc (cc_permits (gw_controls g ! ?c)))], ?ls[l := (?c, False)])"
    using c assms(1) by (simp add: permits_of_def lifecycle_end_def Let_def drop_permits_def set_control_def
        set_task_def map_update live_def)
  then show ?thesis
    using assms(1,2) c permits_step.finish [of l ?ls ?c ?cs] by (simp add: permits_of_def live_def)
qed

lemma claim_run:
  assumes "tunnel_run K t ok c (TunnelClaim i h) (g, s) = Some (g', s')"
  shows "g' = leave_loop c (drop_permits c g) \<or> (\<exists>x. g' = goto c (TunnelInstall i h x) g)"
proof (cases ok)
  case True
  with assms obtain r where "store_call K t (ClaimTunnel i (gw_id g) 45) s = Some (r, s')"
    "g' = (case r of Inr (VCount x) \<Rightarrow> goto c (TunnelInstall i h x) g
      | _ \<Rightarrow> leave_loop c (drop_permits c g))"
    by (auto simp: bind_eq_Some_conv)
  then show ?thesis by (auto split: sum.splits op_value.splits)
qed (use assms in auto)

lemma tunnel_run_permits:
  assumes "tunnel_run K t ok c pc (g, s) = Some (g', s')" and c: "c < length (gw_controls g)"
    and pc: "cc_pc (gw_controls g ! c) = pc"
  shows "permits_step (permits_of g) (permits_of g')"
proof (cases pc)
  case (TunnelHostname i h token)
  with assms have "permits_of g' = permits_of g"
    by (auto simp: bind_eq_Some_conv permits_free split: if_splits)
  then show ?thesis by (simp add: permits_step.idle)
next
  case (TunnelBearer i h token)
  have auth: "permits_of (respond c status (authenticated c g)) = permits_of g" for status
    using c pc TunnelBearer by (subst permits_free) (simp_all add: authenticated_def permits_same)
  have fields: "cc_permits (gw_controls (authenticated c g) ! c) = cc_permits (gw_controls g ! c)"
    "gw_lifecycles (authenticated c g) = gw_lifecycles g"
    using c by (simp_all add: authenticated_def)
  from TunnelBearer assms show ?thesis
    by (auto simp: bind_eq_Some_conv Let_def permits_free auth fields split: if_splits
        intro!: permits_acquire permits_step.idle)
next
  case (TunnelClaim i h)
  have "permits_of (goto c (TunnelInstall i h x) g) = permits_of g" for x
    using c pc TunnelClaim by (simp add: goto_def permits_same)
  then show ?thesis
    using claim_run [OF assms(1) [unfolded TunnelClaim]] c pc TunnelClaim
    by (auto simp: permits_step.idle intro!: permits_giveback)
next
  case (TunnelInstall i h generation)
  with assms show ?thesis
    by (auto split: if_splits intro!: permits_giveback permits_spawn)
qed (use assms in auto)

lemma renew_run:
  assumes "renew_lifecycle K t ok l (g, s) = Some (g', s')"
  shows "\<exists>pc. pc \<noteq> LDone \<and> g' = set_task l pc g"
proof (cases ok)
  case True
  let ?x = "gw_arcs g ! lf_arc (gw_tasks g ! l)"
  from True assms obtain r where
    "store_call K t (RenewTunnel (tu_id ?x) (gw_id g) (tu_generation ?x)) s = Some (r, s')"
    "g' = (case r of
      Inr (VBool True) \<Rightarrow> set_task l (LSend (Heartbeat WIRE_VERSION (tu_generation ?x))) g | _ \<Rightarrow> set_task l LEnd g)"
    by (auto simp: renew_lifecycle_def Let_def bind_eq_Some_conv)
  then show ?thesis by (auto split: sum.splits op_value.splits bool.splits)
qed (use assms in \<open>auto simp: renew_lifecycle_def\<close>)

lemma permits_kept:
  "b < length arcs \<Longrightarrow> tu_permits x = tu_permits (arcs ! a) \<Longrightarrow> tu_permits (arcs[a := x] ! b) = tu_permits (arcs ! b)"
  by (cases "a = b") simp_all

lemma select_run:
  assumes "lifecycle_select l action g = Some g'"
  shows "\<exists>pc arcs. pc \<noteq> LDone \<and> g' = set_task l pc (g\<lparr>gw_arcs := arcs\<rparr>) \<and> length arcs = length (gw_arcs g)
    \<and> (\<forall>a < length arcs. tu_permits (arcs ! a) = tu_permits (gw_arcs g ! a))"
proof -
  have same: ?thesis if "g' = set_task l pc g" "pc \<noteq> LDone" for pc
    using that by (intro exI [of _ pc] exI [of _ "gw_arcs g"]) simp
  show ?thesis
  proof (cases action)
  case Message
  let ?x = "lf_arc (gw_tasks g ! l)"
  from assms Message obtain event rest where "tu_queue (gw_arcs g ! ?x) = event # rest"
    "g' = set_task l (LSend event) (g\<lparr>gw_arcs := (gw_arcs g)[?x := (gw_arcs g ! ?x)\<lparr>tu_queue := rest\<rparr>]\<rparr>)"
    by (auto simp: Let_def split: list.splits)
  then show ?thesis
    by (intro exI [of _ "LSend event"] exI [of _ "(gw_arcs g)[?x := (gw_arcs g ! ?x)\<lparr>tu_queue := rest\<rparr>]"])
      (auto simp: permits_kept)
  qed (use assms same [of LEnd] same [of LRenew] in \<open>auto simp: Let_def split: if_splits\<close>)
qed

lemma permits_set_task:
  assumes "l < length (gw_tasks g)" and "lf_pc (gw_tasks g ! l) \<noteq> LDone" and "pc \<noteq> LDone"
  shows "permits_of (set_task l pc g) = permits_of g"
  using assms by (simp add: permits_of_def set_task_def map_update live_def list_update_same_conv)

text \<open>Every step of the gateway is a step of the abstract machine.\<close>

lemma exec_permits:
  assumes "gateway_exec P e (g, s) = Some (g', s')" and "lifecycles_ok g"
  shows "permits_step (permits_of g) (permits_of g')"
proof (cases e)
  case AcceptControl
  have "permits_step (permits_of g) (permits_of g)" by (rule permits_step.idle)
  with AcceptControl assms(1) show ?thesis
    using permits_step.opened [of "gw_lifecycles g" "map (\<lambda>x. (holding (cc_pc x), cc_permits x)) (gw_controls g)"]
    by (auto simp: accept_control_def permits_of_def)
next
  case (ControlRequest c rq)
  with assms(1) show ?thesis
    by (auto simp: control_at_def control_request_def permits_free permits_step.idle split: if_splits option.splits)
next
  case (ControlRun c t ok)
  with assms(1) have c: "c < length (gw_controls g)" and run: "control_run (gp_store P) t ok c (g, s) = Some (g', s')"
    by (auto simp: control_at_def split: if_splits)
  show ?thesis
  proof (cases "\<exists>a apc. cc_pc (gw_controls g ! c) = Attach a apc")
    case True
    then obtain a apc where pc: "cc_pc (gw_controls g ! c) = Attach a apc" by blast
    with run have "attach_run (gp_store P) t ok c a apc (g, s) = Some (g', s')" by (simp add: control_run_def)
    from attach_run_permits [OF this c pc] show ?thesis by (simp add: permits_step.idle)
  next
    case False
    with run have "tunnel_run (gp_store P) t ok c (cc_pc (gw_controls g ! c)) (g, s) = Some (g', s')"
      by (auto simp: control_run_def split: control_pc.splits)
    then show ?thesis by (rule tunnel_run_permits [OF _ c refl])
  qed
next
  case (LifecycleSelect l action)
  with assms(1) have l: "l < length (gw_tasks g)" "lf_pc (gw_tasks g ! l) = LSelect" "lifecycle_select l action g = Some g'"
    by (auto simp: task_at_def split: if_splits)
  with select_run [OF l(3)] show ?thesis by (auto simp: permits_set_task permits_step.idle)
next
  case (LifecycleRenew l t ok)
  with assms(1) have l: "l < length (gw_tasks g)" "lf_pc (gw_tasks g ! l) = LRenew"
    "renew_lifecycle (gp_store P) t ok l (g, s) = Some (g', s')"
    by (auto simp: task_at_def split: if_splits)
  with renew_run [OF l(3)] show ?thesis by (auto simp: permits_set_task permits_step.idle)
next
  case (LifecycleSent l sent)
  with assms(1) show ?thesis
    by (auto simp: task_at_def lifecycle_sent_def permits_set_task permits_step.idle split: if_splits lifecycle_pc.splits)
next
  case (LifecycleEnd l)
  with assms show ?thesis by (auto simp: task_at_def split: if_splits intro: permits_finish)
next
  case (ControlJoined c)
  then show ?thesis
    using assms(1) permits_free(3) [of c "g\<lparr>gw_control_slots := gw_control_slots g + 1\<rparr>" ControlClosed]
    by (auto simp: control_at_def control_joined_def permits_of_def permits_step.idle split: if_splits)
qed (use assms(1) in \<open>auto simp: control_at_def permits_free authentication_deadline_def Let_def browser_current_def
    browser_send_def browser_wait_def bind_eq_Some_conv permits_step.idle
    split: if_splits option.splits browser_pc.splits slot.splits\<close>)

section \<open>Connection slots and streams\<close>

text \<open>A control connection gives its slot back once, when its lifecycles have ended.\<close>

definition slots_of :: "gateway \<Rightarrow> nat \<times> bool list" where
  "slots_of g = (gw_control_slots g, map (\<lambda>x. cc_pc x \<noteq> ControlClosed) (gw_controls g))"

lemma slots_ok_of: "slots_ok g \<longleftrightarrow> (case slots_of g of (n, cs) \<Rightarrow> int n + tally (\<lambda>x. x) cs = int CONTROL_SLOTS)"
  by (simp add: slots_ok_def slots_of_def tally_map)

lemma slots_set_control:
  assumes "c < length (gw_controls g)" and "cc_pc (gw_controls g ! c) \<noteq> ControlClosed"
    and "cc_pc (f (gw_controls g ! c)) \<noteq> ControlClosed"
  shows "slots_of (set_control c f g) = slots_of g"
  using assms by (simp add: slots_of_def) (simp add: set_control_def map_update list_update_same_conv)

lemma slots_fields [simp]:
  "slots_of (g\<lparr>gw_arcs := x1\<rparr>) = slots_of g" "slots_of (g\<lparr>gw_tunnels := x2\<rparr>) = slots_of g"
  "slots_of (g\<lparr>gw_tickets := x3\<rparr>) = slots_of g" "slots_of (g\<lparr>gw_streams := x4\<rparr>) = slots_of g"
  "slots_of (g\<lparr>gw_lifecycles := x5\<rparr>) = slots_of g" "slots_of (g\<lparr>gw_tasks := x6\<rparr>) = slots_of g"
  "slots_of (g\<lparr>gw_browsers := x7\<rparr>) = slots_of g" "slots_of (g\<lparr>gw_instant := x8\<rparr>) = slots_of g"
  "slots_of (g\<lparr>gw_quota := x9\<rparr>) = slots_of g" "slots_of (g\<lparr>gw_ingress_slots := x10\<rparr>) = slots_of g"
  by (simp_all add: slots_of_def)

lemma slots_quiet [simp]:
  "slots_of (set_slot b x g) = slots_of g" "slots_of (drop_ticket tk g) = slots_of g"
  "slots_of (remove_ticket k g) = slots_of g" "slots_of (set_browser b pc g) = slots_of g"
  "slots_of (close_browser b g) = slots_of g" "slots_of (browser_start b g) = slots_of g"
  "slots_of (browser_hello A b reads g) = slots_of g" "slots_of (browser_lookup b h hello g) = slots_of g"
  "slots_of (browser_ticket b h hello a key conn ms g) = slots_of g"
  "slots_of (accept_browser peer g) = slots_of g" "slots_of (set_task l lpc g) = slots_of g"
  by (auto simp: slots_of_def set_slot_def drop_ticket_def remove_ticket_def set_browser_def close_browser_def
      browser_start_def browser_hello_def browser_lookup_def browser_ticket_def accept_browser_def set_task_def Let_def
      split: option.split sum.split prod.split)

lemma slots_control:
  assumes "c < length (gw_controls g)" and "cc_pc (gw_controls g ! c) \<noteq> ControlClosed"
  shows "slots_of (respond c status g) = slots_of g" and "slots_of (leave_loop c g) = slots_of g"
    and "pc \<noteq> ControlClosed \<Longrightarrow> slots_of (goto c pc g) = slots_of g"
  using assms by (simp_all add: respond_def leave_loop_def goto_def slots_set_control)

lemma slots_permits: "slots_of (drop_permits c g) = slots_of g" "slots_of (take_permits c g) = slots_of g"
    "slots_of (authenticated c g) = slots_of g"
  by (cases "c < length (gw_controls g)"; simp add: drop_permits_def take_permits_def authenticated_def slots_of_def
      set_control_def map_update list_update_same_conv list_update_beyond)+

lemma control_pcs [simp]:
  assumes "c < length (gw_controls g)"
  shows "cc_pc (gw_controls (drop_permits c g) ! c) = cc_pc (gw_controls g ! c)"
    and "cc_pc (gw_controls (take_permits c g) ! c) = cc_pc (gw_controls g ! c)"
    and "cc_pc (gw_controls (authenticated c g) ! c) = cc_pc (gw_controls g ! c)"
    and "cc_pc (gw_controls (install_tunnel c i h x g) ! c) = cc_pc (gw_controls g ! c)"
  using assms by (simp_all add: drop_permits_def take_permits_def authenticated_def install_tunnel_def Let_def set_control_def)

lemma control_lengths [simp]:
  "length (gw_controls (drop_permits c g)) = length (gw_controls g)"
  "length (gw_controls (take_permits c g)) = length (gw_controls g)"
  "length (gw_controls (authenticated c g)) = length (gw_controls g)"
  "length (gw_controls (install_tunnel c i h x g)) = length (gw_controls g)"
  by (simp_all add: drop_permits_def take_permits_def authenticated_def install_tunnel_def Let_def set_control_def)

lemma slots_install [simp]: "slots_of (install_tunnel c i h x g) = slots_of g"
  by (simp add: install_tunnel_def Let_def slots_of_def)

lemma control_run_slots:
  assumes "control_run K t ok c (g, s) = Some (g', s')" and c: "c < length (gw_controls g)"
  shows "slots_of g' = slots_of g"
proof (cases "cc_pc (gw_controls g ! c)")
  case (Attach a pc)
  with assms show ?thesis
    by (cases pc) (auto simp: control_run_def bind_eq_Some_conv slots_control slots_permits split: option.splits if_splits)
next
  case (TunnelClaim i h)
  with assms(1) have "tunnel_run K t ok c (TunnelClaim i h) (g, s) = Some (g', s')" by (simp add: control_run_def)
  from claim_run [OF this] TunnelClaim c show ?thesis by (auto simp: slots_control slots_permits)
qed (use assms in \<open>auto simp: control_run_def bind_eq_Some_conv Let_def slots_control slots_permits split: if_splits\<close>)

lemma exec_slots:
  assumes "gateway_exec P e (g, s) = Some (g', s')" and "slots_ok g"
  shows "slots_ok g'"
proof -
  consider "slots_of g' = slots_of g" | "g' = accept_control g" | c where "control_joined c g = Some g'" "c < length (gw_controls g)"
  proof (cases e)
    case (ControlRun c t ok)
    with assms(1) control_run_slots [of "gp_store P" t ok c g s g' s'] that(1) show thesis
      by (auto simp: control_at_def split: if_splits)
  next
    case (LifecycleSelect l action)
    with assms(1) select_run [of l action g g'] that(1) show thesis by (auto split: if_splits)
  next
    case (LifecycleRenew l t ok)
    with assms(1) renew_run [of "gp_store P" t ok l g s g' s'] that(1) show thesis by (auto split: if_splits)
  next
    case (ControlRequest c rq)
    with assms(1) that(1) show thesis
      by (auto simp: control_at_def control_request_def slots_control split: if_splits option.splits)
  next
    case (ControlJoined c)
    with assms(1) that(3) show thesis by (auto simp: control_at_def split: if_splits)
  qed (use assms(1) that(1,2) in \<open>auto simp: control_at_def slots_control slots_permits authentication_deadline_def
      lifecycle_sent_def lifecycle_end_def Let_def browser_current_def browser_send_def browser_wait_def bind_eq_Some_conv
      split: if_splits option.splits browser_pc.splits slot.splits\<close>)
  then show ?thesis
  proof cases
    case 1
    with assms(2) show ?thesis by (simp add: slots_ok_of)
  next
    case 2
    with assms(2) show ?thesis by (auto simp: slots_ok_def accept_control_def of_nat_diff)
  next
    case (3 c)
    with assms(2) show ?thesis
      by (auto simp: slots_ok_def control_joined_def goto_def set_control_def tally_update split: if_splits)
  qed
qed

section \<open>Streams of browsers\<close>

text \<open>What the steps of other tasks leave alone.\<close>

definition browsers_of :: "gateway \<Rightarrow> nat \<times> nat \<times> browser_pc list \<times> nat list" where
  "browsers_of g = (gw_streams g, gw_ingress_slots g, map br_pc (gw_browsers g), map tu_permits (gw_arcs g))"

definition tunnels_ok :: "gateway \<Rightarrow> bool" where
  "tunnels_ok g \<longleftrightarrow> (\<forall>h a. gw_tunnels g h = Some a \<longrightarrow> a < length (gw_arcs g))"

definition browsers_ok :: "nat \<times> nat \<times> browser_pc list \<times> nat list \<Rightarrow> bool" where
  "browsers_ok v = (case v of (n, m, pcs, ps) \<Rightarrow>
     int n + tally holds_stream pcs = int STREAM_LIMIT
     \<and> int m + tally (\<lambda>pc. pc \<noteq> BClosed) pcs = int STREAM_LIMIT
     \<and> (\<forall>a < length ps. int (ps ! a) + tally (\<lambda>pc. arc_of pc = Some a) pcs = int MAX_INSTALLATION_STREAMS)
     \<and> (\<forall>pc \<in> set pcs. \<forall>a. arc_of pc = Some a \<longrightarrow> a < length ps))"

lemma browsers_ok_of: "streams_ok g \<and> arcs_ok g \<longleftrightarrow> browsers_ok (browsers_of g) \<and> tunnels_ok g"
  by (auto simp: streams_ok_def arcs_ok_def browsers_ok_def browsers_of_def tunnels_ok_def tally_map)

text \<open>The steps of a browser connection on this view.\<close>

inductive browsers_step :: "nat \<times> nat \<times> browser_pc list \<times> nat list \<Rightarrow> nat \<times> nat \<times> browser_pc list \<times> nat list \<Rightarrow> bool" where
  quiet: "browsers_step v v"
| arrive: "browsers_step (n, Suc m, pcs, ps) (n, m, pcs @ [BStart], ps)"
| serve: "b < length pcs \<Longrightarrow> pcs ! b = BStart \<Longrightarrow> browsers_step (Suc n, m, pcs, ps) (n, m, pcs[b := BHello], ps)"
| move: "b < length pcs \<Longrightarrow> pcs ! b \<noteq> BStart \<Longrightarrow> pcs ! b \<noteq> BClosed \<Longrightarrow> pc \<noteq> BStart \<Longrightarrow> pc \<noteq> BClosed \<Longrightarrow>
    arc_of pc = arc_of (pcs ! b) \<Longrightarrow> browsers_step (n, m, pcs, ps) (n, m, pcs[b := pc], ps)"
| attach: "b < length pcs \<Longrightarrow> pcs ! b = BLookup h hello \<Longrightarrow> a < length ps \<Longrightarrow> ps ! a = Suc p \<Longrightarrow>
    browsers_step (n, m, pcs, ps) (n, m, pcs[b := BCurrent h hello a], ps[a := p])"
| shut: "b < length pcs \<Longrightarrow> pcs ! b \<noteq> BClosed \<Longrightarrow>
    ps' = (case arc_of (pcs ! b) of None \<Rightarrow> ps | Some a \<Rightarrow> ps[a := Suc (ps ! a)]) \<Longrightarrow>
    browsers_step (n, m, pcs, ps) (n + (if holds_stream (pcs ! b) then 1 else 0), Suc m, pcs[b := BClosed], ps')"
| tunnel: "browsers_step (n, m, pcs, ps) (n, m, pcs, ps @ [MAX_INSTALLATION_STREAMS])"

lemma browsers_step_ok: "browsers_step v v' \<Longrightarrow> browsers_ok v \<Longrightarrow> browsers_ok v'"
proof (induction rule: browsers_step.induct)
  case (shut b pcs ps' ps n m)
  have sub: "set (pcs[b := BClosed]) \<subseteq> insert BClosed (set pcs)" by (simp add: set_update_subset_insert)
  have bound: "a < length ps" if "arc_of (pcs ! b) = Some a" for a
    using shut that by (auto simp: browsers_ok_def)
  show ?case
    using shut sub bound
    by (cases "arc_of (pcs ! b)") (auto simp: browsers_ok_def tally_update nth_list_update holds_stream_def)
next
  case (move b pcs pc n m ps)
  have sub: "set (pcs[b := pc]) \<subseteq> insert pc (set pcs)" by (simp add: set_update_subset_insert)
  have bound: "a < length ps" if "arc_of (pcs ! b) = Some a" for a
    using move that by (auto simp: browsers_ok_def)
  from move sub bound show ?case by (auto simp: browsers_ok_def tally_update holds_stream_def)
next
  case (attach b pcs h hello a ps p n m)
  have sub: "set (pcs[b := BCurrent h hello a]) \<subseteq> insert (BCurrent h hello a) (set pcs)"
    by (simp add: set_update_subset_insert)
  with attach show ?case by (auto simp: browsers_ok_def tally_update nth_list_update holds_stream_def)
next
  case (serve b pcs n m ps)
  have sub: "set (pcs[b := BHello]) \<subseteq> insert BHello (set pcs)" by (simp add: set_update_subset_insert)
  with serve show ?case by (auto simp: browsers_ok_def tally_update holds_stream_def)
next
  case (tunnel n m pcs ps)
  have "tally (\<lambda>pc. arc_of pc = Some (length ps)) pcs = 0"
    using tunnel by (intro tally_zero) (auto simp: browsers_ok_def)
  with tunnel show ?case by (auto simp: browsers_ok_def nth_append less_Suc_eq)
qed (auto simp: browsers_ok_def holds_stream_def)

lemma browsers_of_cong:
  "gw_streams g' = gw_streams g \<Longrightarrow> gw_ingress_slots g' = gw_ingress_slots g \<Longrightarrow>
   map br_pc (gw_browsers g') = map br_pc (gw_browsers g) \<Longrightarrow> map tu_permits (gw_arcs g') = map tu_permits (gw_arcs g) \<Longrightarrow>
   browsers_of g' = browsers_of g"
  by (simp add: browsers_of_def)

lemma set_slot_pcs [simp]: "map br_pc (gw_browsers (set_slot b x g)) = map br_pc (gw_browsers g)"
  by (cases "b < length (gw_browsers g)")
    (simp_all add: set_slot_def map_update list_update_same_conv list_update_beyond)

lemma browsers_quiet [simp]:
  "browsers_of (set_control c f g) = browsers_of g" "browsers_of (goto c pc g) = browsers_of g"
  "browsers_of (respond c status g) = browsers_of g" "browsers_of (leave_loop c g) = browsers_of g"
  "browsers_of (authenticated c g) = browsers_of g" "browsers_of (drop_permits c g) = browsers_of g"
  "browsers_of (take_permits c g) = browsers_of g" "browsers_of (set_slot b x g) = browsers_of g"
  "browsers_of (drop_ticket tk g) = browsers_of g" "browsers_of (remove_ticket k g) = browsers_of g"
  "browsers_of (set_task l lpc g) = browsers_of g" "browsers_of (accept_control g) = browsers_of g"
  "browsers_of (g\<lparr>gw_tickets := x1\<rparr>) = browsers_of g" "browsers_of (g\<lparr>gw_tunnels := x2\<rparr>) = browsers_of g"
  "browsers_of (g\<lparr>gw_control_slots := x3\<rparr>) = browsers_of g" "browsers_of (g\<lparr>gw_instant := x4\<rparr>) = browsers_of g"
  "browsers_of (g\<lparr>gw_quota := x5\<rparr>) = browsers_of g"
proof -
  show slot: "browsers_of (set_slot b x g) = browsers_of g" for b x g
    by (rule browsers_of_cong) (simp_all add: set_slot_pcs, simp_all add: set_slot_def)
  show drop: "browsers_of (drop_ticket tk g) = browsers_of g" for tk g
    by (simp add: drop_ticket_def slot split: option.split)
  show "browsers_of (remove_ticket k g) = browsers_of g"
    by (simp add: remove_ticket_def drop) (simp add: browsers_of_def)
qed (simp_all add: browsers_of_def goto_def respond_def leave_loop_def authenticated_def drop_permits_def
    take_permits_def set_control_def set_task_def accept_control_def)

lemma browsers_set_browser:
  "b < length (gw_browsers g) \<Longrightarrow> browsers_of (set_browser b pc g) =
     (gw_streams g, gw_ingress_slots g, (map br_pc (gw_browsers g))[b := pc], map tu_permits (gw_arcs g))"
  by (simp add: browsers_of_def set_browser_def map_update)

lemma shut_browser:
  assumes "b < length (gw_browsers g)" and "br_pc (gw_browsers g ! b) \<noteq> BClosed"
    and "\<And>a. arc_of (br_pc (gw_browsers g ! b)) = Some a \<Longrightarrow> a < length (gw_arcs g)"
  shows "browsers_step (browsers_of g) (browsers_of (close_browser b g))"
proof -
  let ?pcs = "map br_pc (gw_browsers g)" and ?ps = "map tu_permits (gw_arcs g)"
  have "browsers_of (close_browser b g) = (gw_streams g + (if holds_stream (?pcs ! b) then 1 else 0),
      Suc (gw_ingress_slots g), ?pcs[b := BClosed],
      case arc_of (?pcs ! b) of None \<Rightarrow> ?ps | Some a \<Rightarrow> ?ps[a := Suc (?ps ! a)])"
    using assms by (simp add: close_browser_def Let_def browsers_set_browser map_update split: option.split)
  moreover have "browsers_step (browsers_of g) \<dots>"
    unfolding browsers_of_def using assms(1,2) by (intro browsers_step.shut) simp_all
  ultimately show ?thesis by simp
qed

lemma move_browser:
  assumes "b < length (gw_browsers g)" and "br_pc (gw_browsers g ! b) \<noteq> BStart" "br_pc (gw_browsers g ! b) \<noteq> BClosed"
    and "pc \<noteq> BStart" "pc \<noteq> BClosed" and "arc_of pc = arc_of (br_pc (gw_browsers g ! b))"
  shows "browsers_step (browsers_of g) (browsers_of (set_browser b pc g))"
  using assms browsers_step.move [of b "map br_pc (gw_browsers g)" pc]
  by (simp add: browsers_set_browser) (simp add: browsers_of_def)

lemma lookup_browser:
  assumes "b < length (gw_browsers g)" and "br_pc (gw_browsers g ! b) = BLookup h hello" and "tunnels_ok g"
  shows "browsers_step (browsers_of g) (browsers_of (browser_lookup b h hello g))"
proof (cases "\<exists>a. gw_tunnels g h = Some a \<and> tu_permits (gw_arcs g ! a) \<noteq> 0")
  case True
  then obtain a p where a: "gw_tunnels g h = Some a" "tu_permits (gw_arcs g ! a) = Suc p"
    using not0_implies_Suc by blast
  moreover have "a < length (gw_arcs g)" using a assms(3) by (simp add: tunnels_ok_def)
  ultimately show ?thesis
    using assms(1,2) browsers_step.attach [of b "map br_pc (gw_browsers g)" h hello a "map tu_permits (gw_arcs g)" p]
    by (simp add: browser_lookup_def browsers_set_browser map_update) (simp add: browsers_of_def)
next
  case False
  then have "browser_lookup b h hello g = close_browser b g"
    by (auto simp: browser_lookup_def split: option.split)
  then show ?thesis using shut_browser [OF assms(1)] assms(2) by simp
qed

lemma accept_browser_step: "browsers_step (browsers_of g) (browsers_of (accept_browser peer g))"
proof -
  obtain ok q where q: "allow_at peer (gw_instant g) (gw_quota g) = (ok, q)" by fastforce
  show ?thesis
    using browsers_step.quiet [of "browsers_of g"]
      browsers_step.arrive [of "gw_streams g" "gw_ingress_slots g - 1" "map br_pc (gw_browsers g)" "map tu_permits (gw_arcs g)"]
    by (auto simp: accept_browser_def q Let_def) (auto simp: browsers_of_def)
qed

lemma start_browser:
  assumes "b < length (gw_browsers g)" and "br_pc (gw_browsers g ! b) = BStart"
  shows "browsers_step (browsers_of g) (browsers_of (browser_start b g))"
proof (cases "gw_streams g")
  case 0
  then show ?thesis using shut_browser [OF assms(1)] assms(2) by (simp add: browser_start_def)
next
  case (Suc n)
  then show ?thesis
    using assms browsers_step.serve [of b "map br_pc (gw_browsers g)" n]
    by (simp add: browser_start_def browsers_set_browser) (simp add: browsers_of_def)
qed

lemma browser_steps:
  assumes b: "browser_at g b = Some pc" and ok: "browsers_ok (browsers_of g)"
  shows "pc = BHello \<Longrightarrow> browsers_step (browsers_of g) (browsers_of (browser_hello A b reads g))"
    and "pc = BCurrent h hello a \<Longrightarrow> browser_current t fine b h hello a (g, s) = Some (g', s') \<Longrightarrow>
      browsers_step (browsers_of g) (browsers_of g')"
    and "pc = BTicket h hello a \<Longrightarrow> browsers_step (browsers_of g) (browsers_of (browser_ticket b h hello a key conn ms g))"
    and "pc = BSend h hello a key deadline event \<Longrightarrow> browser_send b sent h hello a key deadline event g = Some g' \<Longrightarrow>
      browsers_step (browsers_of g) (browsers_of g')"
    and "pc = BWait h hello a key deadline \<Longrightarrow> browser_wait b elapsed h hello a key deadline g = Some g' \<Longrightarrow>
      browsers_step (browsers_of g) (browsers_of g')"
    and "pc = BBridge h hello a c at \<Longrightarrow> browsers_step (browsers_of g) (browsers_of (close_browser b g))"
proof -
  have pc: "b < length (gw_browsers g)" "br_pc (gw_browsers g ! b) = pc"
    using b by (auto simp: browser_at_def split: if_splits)
  have bound: "a < length (gw_arcs g)" if "arc_of pc = Some a" for a
    using ok pc that by (auto simp: browsers_ok_def browsers_of_def)
  have shut: "browsers_step (browsers_of g) (browsers_of (close_browser b g'))"
    if "pc \<noteq> BClosed" "browsers_of g' = browsers_of g" for g'
  proof -
    have "map br_pc (gw_browsers g') = map br_pc (gw_browsers g)" "length (gw_arcs g') = length (gw_arcs g)"
      using that(2) by (auto simp: browsers_of_def dest: map_eq_imp_length_eq)
    moreover from this(1) have "length (gw_browsers g') = length (gw_browsers g)"
      "br_pc (gw_browsers g' ! b) = br_pc (gw_browsers g ! b)"
      using pc(1) map_eq_imp_length_eq [of br_pc "gw_browsers g'" br_pc "gw_browsers g"] by (simp, metis nth_map)
    ultimately show ?thesis using shut_browser [of b g'] pc that bound by simp
  qed
  have move: "browsers_step (browsers_of g) (browsers_of (set_browser b pc' g'))"
    if "pc \<noteq> BClosed" "pc \<noteq> BStart" "pc' \<noteq> BClosed" "pc' \<noteq> BStart" "arc_of pc' = arc_of pc" "browsers_of g' = browsers_of g"
    for pc' g'
  proof -
    have "map br_pc (gw_browsers g') = map br_pc (gw_browsers g)" using that(6) by (simp add: browsers_of_def)
    moreover from this have "length (gw_browsers g') = length (gw_browsers g)"
      "br_pc (gw_browsers g' ! b) = br_pc (gw_browsers g ! b)"
      using pc(1) map_eq_imp_length_eq [of br_pc "gw_browsers g'" br_pc "gw_browsers g"] by (simp, metis nth_map)
    ultimately show ?thesis using move_browser [of b g' pc'] pc that by simp
  qed
  have same: "browsers_of (g\<lparr>gw_arcs := (gw_arcs g)[a := (gw_arcs g ! a)\<lparr>tu_queue := q\<rparr>]\<rparr>) = browsers_of g" for a q
    by (cases "a < length (gw_arcs g)")
      (simp_all add: browsers_of_def map_update list_update_same_conv list_update_beyond)
  show "browsers_step (browsers_of g) (browsers_of (browser_hello A b reads g))" if "pc = BHello"
    using that by (auto simp: browser_hello_def intro!: shut move split: sum.split)
  show "browsers_step (browsers_of g) (browsers_of g')"
    if "pc = BCurrent h hello a" "browser_current t fine b h hello a (g, s) = Some (g', s')"
    using that by (auto simp: browser_current_def bind_eq_Some_conv split: if_splits intro!: shut move)
  show "browsers_step (browsers_of g) (browsers_of (browser_ticket b h hello a key conn ms g))" if "pc = BTicket h hello a"
    using that by (auto simp: browser_ticket_def Let_def intro!: move)
  show "browsers_step (browsers_of g) (browsers_of g')"
    if "pc = BSend h hello a key deadline event" "browser_send b sent h hello a key deadline event g = Some g'"
    using that by (auto simp: browser_send_def same split: if_splits intro!: shut move)
  show "browsers_step (browsers_of g) (browsers_of g')"
    if "pc = BWait h hello a key deadline" "browser_wait b elapsed h hello a key deadline g = Some g'"
    using that by (auto simp: browser_wait_def split: if_splits slot.splits intro!: shut move)
  show "browsers_step (browsers_of g) (browsers_of (close_browser b g))" if "pc = BBridge h hello a c at"
    using that by (auto intro!: shut)
qed

lemma install_browsers:
  "browsers_step (browsers_of g) (browsers_of (install_tunnel c i h x g))"
proof -
  have "map tu_permits ((gw_arcs g)[a := (gw_arcs g ! a)\<lparr>tu_cancelled := True\<rparr>]) = map tu_permits (gw_arcs g)" for a
    by (cases "a < length (gw_arcs g)") (simp_all add: map_update list_update_same_conv list_update_beyond)
  then have "browsers_of (install_tunnel c i h x g) = (gw_streams g, gw_ingress_slots g, map br_pc (gw_browsers g),
      map tu_permits (gw_arcs g) @ [MAX_INSTALLATION_STREAMS])"
    by (simp add: browsers_of_def install_tunnel_def Let_def split: option.split)
  then show ?thesis
    using browsers_step.tunnel by (simp add: browsers_of_def)
qed

lemma control_run_browsers:
  assumes "control_run K t ok c (g, s) = Some (g', s')"
  shows "browsers_step (browsers_of g) (browsers_of g')"
proof (cases "cc_pc (gw_controls g ! c)")
  case (Attach a pc)
  with assms have "browsers_of g' = browsers_of g"
    by (cases pc) (auto simp: control_run_def bind_eq_Some_conv split: option.splits if_splits)
  then show ?thesis by (simp add: browsers_step.quiet)
next
  case (TunnelClaim i h)
  with assms have "tunnel_run K t ok c (TunnelClaim i h) (g, s) = Some (g', s')" by (simp add: control_run_def)
  from claim_run [OF this] show ?thesis by (auto simp: browsers_step.quiet)
qed (use assms in \<open>auto simp: control_run_def bind_eq_Some_conv Let_def browsers_step.quiet split: if_splits
    intro: install_browsers\<close>)

lemma exec_browsers:
  assumes "gateway_exec P e (g, s) = Some (g', s')" and "browsers_ok (browsers_of g)" and "tunnels_ok g"
  shows "browsers_step (browsers_of g) (browsers_of g')"
proof (cases e)
  case (LifecycleSelect l action)
  with assms(1) obtain pc arcs where g': "g' = set_task l pc (g\<lparr>gw_arcs := arcs\<rparr>)" "length arcs = length (gw_arcs g)"
    "\<forall>a < length arcs. tu_permits (arcs ! a) = tu_permits (gw_arcs g ! a)"
    using select_run [of l action g g'] by (auto split: if_splits)
  then have "map tu_permits arcs = map tu_permits (gw_arcs g)" by (intro nth_equalityI) simp_all
  with g' have "browsers_of g' = browsers_of g" by (simp add: browsers_of_def set_task_def)
  then show ?thesis by (simp add: browsers_step.quiet)
next
  case (LifecycleRenew l t ok)
  with assms(1) renew_run [of "gp_store P" t ok l g s g' s'] show ?thesis
    by (auto simp: browsers_step.quiet split: if_splits)
qed (use assms in \<open>auto simp: control_request_def authentication_deadline_def control_joined_def lifecycle_sent_def
      lifecycle_end_def Let_def browsers_step.quiet split: if_splits option.splits browser_pc.splits
      intro: control_run_browsers accept_browser_step browser_steps
      intro!: start_browser lookup_browser simp: browser_at_def\<close>)

end
