(* ===== verification/Gateway_Properties.thy ===== *)
theory Gateway_Properties
  imports Gateway_Capacity "HOL-Library.Code_Target_Nat"
begin

text \<open>
  What the gateway guarantees over whole runs, in any interleaving of its tasks with each
  other and with the rest of the relay: whom a browser reaches, when a stream may be handed
  over, how tunnels replace one another, and how much the gateway takes on at a time.
\<close>

section \<open>The gateway as a step-wise system\<close>

definition gateway_ok :: "'a gw_params \<Rightarrow> system \<Rightarrow> bool" where
  "gateway_ok P sys \<longleftrightarrow> routing_ok (k_prims (gp_store P)) sys
     \<and> lifecycles_ok (fst sys) \<and> slots_ok (fst sys) \<and> streams_ok (fst sys) \<and> arcs_ok (fst sys)"

definition system_evolves :: "system \<Rightarrow> system \<Rightarrow> bool" where
  "system_evolves sys sys' \<longleftrightarrow> gw_id (fst sys') = gw_id (fst sys)
     \<and> state_fences (snd sys) (snd sys')"

lemma tunnels_ok_routing: "routing_ok P (g, s) \<Longrightarrow> tunnels_ok g"
  by (cases s) (auto simp: routing_ok_def tunnels_ok_def arc_ok_def)

lemma gateway_ok_step:
  assumes "gateway_step P sys e sys'" and "gateway_ok P sys"
  shows "gateway_ok P sys'"
proof -
  obtain g s where sys: "sys = (g, s)" by (cases sys)
  obtain g' s' where sys': "sys' = (g', s')" by (cases sys')
  from assms(1) have exec: "gateway_exec P e (g, s) = Some (g', s')" by (simp add: gateway_step_def sys sys')
  have routing: "routing_ok (k_prims (gp_store P)) (g', s')"
    using routing_exec [OF exec] assms(2) by (simp add: gateway_ok_def sys)
  have "lifecycles_ok g'"
    using permits_step_ok [OF exec_permits [OF exec]] assms(2) by (simp add: gateway_ok_def sys lifecycles_permits)
  moreover have "slots_ok g'" using exec_slots [OF exec] assms(2) by (simp add: gateway_ok_def sys)
  moreover have "browsers_ok (browsers_of g) \<and> tunnels_ok g"
    using assms(2) browsers_ok_of [of g] by (simp add: gateway_ok_def sys)
  then have "browsers_ok (browsers_of g') \<and> tunnels_ok g'"
    using browsers_step_ok [OF exec_browsers [OF exec]] tunnels_ok_routing [OF routing] by blast
  ultimately show ?thesis using routing browsers_ok_of [of g'] by (simp add: gateway_ok_def sys')
qed

lemma gateway_ok_new: "store_ok d \<Longrightarrow> gateway_ok P (gateway_new gid now, (t, d))"
  by (simp add: gateway_ok_def routing_new)
    (simp add: gateway_new_def lifecycles_ok_def slots_ok_def streams_ok_def arcs_ok_def)

section \<open>When a stream is handed over\<close>

definition slot_of :: "gateway \<Rightarrow> nat \<Rightarrow> slot" where
  "slot_of g b = br_slot (gw_browsers g ! b)"

lemma slot_of_fields [simp]:
  "slot_of (set_control c f g) b = slot_of g b"
  "slot_of (g\<lparr>gw_arcs := x1\<rparr>) b = slot_of g b" "slot_of (g\<lparr>gw_tunnels := x2\<rparr>) b = slot_of g b"
  "slot_of (g\<lparr>gw_tickets := x3\<rparr>) b = slot_of g b" "slot_of (g\<lparr>gw_streams := x4\<rparr>) b = slot_of g b"
  "slot_of (g\<lparr>gw_lifecycles := x5\<rparr>) b = slot_of g b" "slot_of (g\<lparr>gw_tasks := x6\<rparr>) b = slot_of g b"
  "slot_of (g\<lparr>gw_control_slots := x7\<rparr>) b = slot_of g b" "slot_of (g\<lparr>gw_instant := x8\<rparr>) b = slot_of g b"
  "slot_of (g\<lparr>gw_controls := x11\<rparr>) b = slot_of g b"
  "slot_of (g\<lparr>gw_quota := x9\<rparr>) b = slot_of g b" "slot_of (g\<lparr>gw_ingress_slots := x10\<rparr>) b = slot_of g b"
  by (simp_all add: slot_of_def)

lemma slot_of_set_browser [simp]: "slot_of (set_browser b' pc g) b = slot_of g b"
  by (cases "b' < length (gw_browsers g)"; cases "b' = b")
    (simp_all add: slot_of_def set_browser_def list_update_beyond)

lemma slot_of_quiet [simp]:
  "slot_of (goto c pc g) b = slot_of g b" "slot_of (respond c status g) b = slot_of g b"
  "slot_of (leave_loop c g) b = slot_of g b" "slot_of (authenticated c g) b = slot_of g b"
  "slot_of (drop_permits c g) b = slot_of g b" "slot_of (take_permits c g) b = slot_of g b"
  "slot_of (install_tunnel c i h x g) b = slot_of g b" "slot_of (set_task l lpc g) b = slot_of g b"
  "slot_of (accept_control g) b = slot_of g b" "slot_of (close_browser b' g) b = slot_of g b"
  "slot_of (browser_start b' g) b = slot_of g b" "slot_of (browser_hello A b' reads g) b = slot_of g b"
  "slot_of (browser_lookup b' h hello g) b = slot_of g b" "slot_of (control_request P c rq g) b = slot_of g b"
  "slot_of (lifecycle_sent l sent g) b = slot_of g b" "slot_of (lifecycle_end l g) b = slot_of g b"
proof -
  show close: "slot_of (close_browser b' g) b = slot_of g b" for b' g
    by (simp add: close_browser_def Let_def)
  show "slot_of (browser_start b' g) b = slot_of g b" "slot_of (browser_hello A b' reads g) b = slot_of g b"
    "slot_of (browser_lookup b' h hello g) b = slot_of g b"
    by (auto simp: browser_start_def browser_hello_def browser_lookup_def close split: sum.split option.split)
qed (auto simp: goto_def respond_def leave_loop_def authenticated_def drop_permits_def take_permits_def
    install_tunnel_def set_task_def accept_control_def control_request_def lifecycle_sent_def lifecycle_end_def Let_def
    split: option.split)

lemma slot_of_drop: "slot_of (drop_ticket tk g) b \<in> {slot_of g b, SlotDropped} \<or> length (gw_browsers g) \<le> b"
  by (cases "\<exists>x. tk = Some x \<and> tk_claim x = b")
    (auto simp: slot_of_def drop_ticket_def set_slot_def nth_list_update split: option.split)

lemma slot_of_remove: "slot_of (remove_ticket k g) b \<in> {slot_of g b, SlotDropped} \<or> length (gw_browsers g) \<le> b"
  using slot_of_drop [of "gw_tickets g k" "g\<lparr>gw_tickets := (gw_tickets g)(k := None)\<rparr>" b]
  by (simp add: remove_ticket_def)

lemma attach_delivers:
  assumes "attach_run K t ok c a pc (g, s) = Some (g', s')" and "b < length (gw_browsers g)"
    and "slot_of g' b = SlotSent c' at" and "slot_of g b \<noteq> SlotSent c' at"
  shows "ok \<and> c' = c \<and> at = a \<and> lease_current g s' (at_id a) (at_generation a)"
proof (cases pc)
  case (AStillCurrent tk)
  have "slot_of (set_slot (tk_claim tk) (SlotSent c a) g) b \<in> {slot_of g b, SlotSent c a}"
    using assms(2) by (cases "tk_claim tk = b") (auto simp: slot_of_def set_slot_def)
  with AStillCurrent assms slot_of_drop [of "Some tk" g b] show ?thesis
    by (auto simp: bind_eq_Some_conv split: if_splits)
next
  case (AOwnerAgain tk)
  with assms slot_of_drop [of "Some tk" g b] show ?thesis by (auto split: if_splits)
qed (use assms in \<open>auto simp: bind_eq_Some_conv split: if_splits option.splits\<close>)

lemma exec_delivers:
  assumes exec: "gateway_exec P e (g, s) = Some (g', s')" and b: "b < length (gw_browsers g)"
    and sent: "slot_of g' b = SlotSent c at" and new: "slot_of g b \<noteq> SlotSent c at"
  shows "\<exists>t pc. e = ControlRun c t True \<and> cc_pc (gw_controls g ! c) = Attach at pc
    \<and> lease_current g s' (at_id at) (at_generation at)"
proof -
  have keep: "slot_of (drop_ticket tk g) b \<noteq> SlotSent c at" "slot_of (remove_ticket k g) b \<noteq> SlotSent c at" for tk k
    using slot_of_drop [of tk g b] slot_of_remove [of k g b] b new by auto
  show ?thesis
  proof (cases e)
    case (ControlRun c' t ok)
    with exec have c: "c' < length (gw_controls g)" and run: "control_run (gp_store P) t ok c' (g, s) = Some (g', s')"
      by (auto simp: control_at_def split: if_splits)
    show ?thesis
    proof (cases "\<exists>a pc. cc_pc (gw_controls g ! c') = Attach a pc")
      case True
      then obtain a pc where pc: "cc_pc (gw_controls g ! c') = Attach a pc" by blast
      with run have run: "attach_run (gp_store P) t ok c' a pc (g, s) = Some (g', s')" by (simp add: control_run_def)
      from ControlRun pc attach_delivers [OF run b sent new] show ?thesis by auto
    next
      case False
      with run have run: "tunnel_run (gp_store P) t ok c' (cc_pc (gw_controls g ! c')) (g, s) = Some (g', s')"
        by (auto simp: control_run_def split: control_pc.splits)
      have "slot_of g' b = slot_of g b"
      proof (cases "cc_pc (gw_controls g ! c')")
        case (TunnelClaim i h)
        from claim_run [OF run [unfolded TunnelClaim]] show ?thesis by auto
      qed (use run False in \<open>auto simp: bind_eq_Some_conv Let_def split: if_splits\<close>)
      with sent new show ?thesis by simp
    qed
  next
    case (LifecycleSelect l action)
    with exec select_run [of l action g g'] sent new show ?thesis by (auto split: if_splits)
  next
    case (LifecycleRenew l t ok)
    with exec renew_run [of "gp_store P" t ok l g s g' s'] sent new show ?thesis by (auto split: if_splits)
  next
    case (AcceptBrowser peer)
    with exec sent new b show ?thesis
      by (auto simp: accept_browser_def Let_def slot_of_def nth_append split: prod.splits if_splits)
  next
    case (BrowserTicket b' key conn ms)
    have "slot_of (drop_ticket tk (g\<lparr>gw_tickets := x\<rparr>)) b \<noteq> SlotSent c at" for tk x
      using slot_of_drop [of tk "g\<lparr>gw_tickets := x\<rparr>" b] b new by auto
    with BrowserTicket exec sent show ?thesis
      by (auto simp: browser_ticket_def Let_def split: option.splits browser_pc.splits)
  qed (use exec sent new keep in \<open>auto simp: authentication_deadline_def control_joined_def Let_def
      browser_current_def browser_send_def browser_wait_def bind_eq_Some_conv
      split: if_splits option.splits browser_pc.splits slot.splits\<close>)
qed

section \<open>The store and the identity of the gateway\<close>

lemma id_quiet [simp]:
  "gw_id (set_control c f g) = gw_id g" "gw_id (goto c pc g) = gw_id g" "gw_id (respond c status g) = gw_id g"
  "gw_id (leave_loop c g) = gw_id g" "gw_id (authenticated c g) = gw_id g" "gw_id (drop_permits c g) = gw_id g"
  "gw_id (take_permits c g) = gw_id g" "gw_id (set_slot b x g) = gw_id g" "gw_id (drop_ticket tk g) = gw_id g"
  "gw_id (remove_ticket k g) = gw_id g" "gw_id (set_task l lpc g) = gw_id g" "gw_id (set_browser b bpc g) = gw_id g"
  "gw_id (close_browser b g) = gw_id g" "gw_id (install_tunnel c i h y g) = gw_id g" "gw_id (accept_control g) = gw_id g"
  "gw_id (accept_browser peer g) = gw_id g" "gw_id (control_request P c rq g) = gw_id g"
  "gw_id (lifecycle_end l g) = gw_id g" "gw_id (browser_start b g) = gw_id g"
  "gw_id (browser_hello A b reads g) = gw_id g" "gw_id (browser_lookup b h hello g) = gw_id g"
  "gw_id (browser_ticket b h hello a key conn ms g) = gw_id g"
  by (simp_all add: set_control_def goto_def respond_def leave_loop_def authenticated_def drop_permits_def take_permits_def
      set_slot_def drop_ticket_def remove_ticket_def set_task_def set_browser_def close_browser_def install_tunnel_def
      accept_control_def accept_browser_def control_request_def lifecycle_end_def browser_start_def browser_hello_def
      browser_lookup_def browser_ticket_def Let_def split: option.split sum.split prod.split)

lemma state_fences_refl [simp]: "state_fences s s"
  by (simp add: state_fences_def)

lemma store_call_fences: "store_call K t op s = Some (r, s') \<Longrightarrow> store_ok (snd s) \<Longrightarrow> state_fences s s'"
  using store_call_later [of K t op s r s'] store_call_step [of K t op s r s']
  by (cases s; cases s') (auto simp: state_fences_def db_later_def dest: store_step_time)

lemma at_time_fences: "at_time t s = Some s' \<Longrightarrow> state_fences s s'"
  by (auto simp: at_time_def state_fences_def split: if_splits)

lemma control_run_store:
  assumes "control_run K t ok c (g, s) = Some (g', s')" and "store_ok (snd s)"
  shows "gw_id g' = gw_id g \<and> state_fences s s'"
proof (cases "cc_pc (gw_controls g ! c)")
  case (Attach a pc)
  with assms show ?thesis
    by (cases pc) (auto simp: control_run_def bind_eq_Some_conv split: option.splits if_splits
        dest!: at_time_fences)
next
  case (TunnelClaim i h)
  with assms(1) have run: "tunnel_run K t ok c (TunnelClaim i h) (g, s) = Some (g', s')" by (simp add: control_run_def)
  have "s' = s \<or> (\<exists>r. store_call K t (ClaimTunnel i (gw_id g) 45) s = Some (r, s'))"
    using run by (cases ok) (auto simp: bind_eq_Some_conv)
  then have "state_fences s s'" using assms(2) by (auto intro: store_call_fences)
  with claim_run [OF run] show ?thesis by auto
qed (use assms in \<open>auto simp: control_run_def bind_eq_Some_conv Let_def split: if_splits
    dest!: at_time_fences\<close>)

lemma exec_store:
  assumes "gateway_exec P e (g, s) = Some (g', s')" and "store_ok (snd s)"
  shows "gw_id g' = gw_id g \<and> state_fences s s'"
proof (cases e)
  case (ControlRun c t ok)
  with assms control_run_store show ?thesis by (auto split: if_splits)
next
  case (StoreEvent t op)
  with assms show ?thesis by (auto intro: store_call_fences)
next
  case (LifecycleSelect l action)
  with assms(1) select_run [of l action g g'] show ?thesis by (auto simp: split: if_splits)
next
  case (LifecycleRenew l t ok)
  with assms(1) have run: "renew_lifecycle (gp_store P) t ok l (g, s) = Some (g', s')" by (simp split: if_splits)
  let ?x = "gw_arcs g ! lf_arc (gw_tasks g ! l)"
  have "s' = s \<or> (\<exists>r. store_call (gp_store P) t (RenewTunnel (tu_id ?x) (gw_id g) (tu_generation ?x)) s = Some (r, s'))"
    using run by (cases ok) (auto simp: renew_lifecycle_def Let_def bind_eq_Some_conv)
  then have "state_fences s s'" using assms(2) by (auto intro: store_call_fences)
  with renew_run [OF run] show ?thesis by auto
qed (use assms(1) in \<open>auto simp: authentication_deadline_def control_joined_def lifecycle_sent_def Let_def
      browser_current_def browser_send_def browser_wait_def bind_eq_Some_conv
      split: if_splits option.splits browser_pc.splits slot.splits dest!: at_time_fences\<close>)

interpretation relay: stepwise "gateway_step P" "gateway_ok P" system_evolves for P
proof unfold_locales
  fix s e s'
  show "gateway_step P s e s' \<Longrightarrow> gateway_ok P s \<Longrightarrow> gateway_ok P s'" by (rule gateway_ok_step)
  show "gateway_step P s e s' \<Longrightarrow> gateway_ok P s \<Longrightarrow> system_evolves s s'"
    using exec_store [of P e "fst s" "snd s" "fst s'" "snd s'"] routing_db [of _ "fst s" "snd s"]
    by (auto simp: gateway_step_def gateway_ok_def system_evolves_def)
  show "system_evolves s s" by (simp add: system_evolves_def state_fences_def)
  fix s'' show "system_evolves s s' \<Longrightarrow> system_evolves s' s'' \<Longrightarrow> system_evolves s s''"
    by (auto simp: system_evolves_def intro: fencing.evolves_trans)
qed

lemma exec_later:
  assumes "gateway_exec P e (g, s) = Some (g', s')" and "gateway_ok P (g, s)"
  shows "db_later (snd s) (snd s')"
proof -
  have "store_ok (snd s)" "store_ok (snd s')"
    using assms(2) gateway_ok_step [of P "(g, s)" e "(g', s')"] assms(1)
    by (auto simp: gateway_ok_def gateway_step_def dest: routing_db)
  with exec_store [OF assms(1)] show ?thesis by (simp add: db_later_def state_fences_def fences_def)
qed

lemma hostname_unique:
  assumes "store_ok d" and "r \<in> set (installations d)" "r' \<in> set (installations d)" and "in_hostname r' = in_hostname r"
  shows "r' = r"
proof -
  have "unique_key in_hostname (installations d)" using store_okD(1) [OF assms(1)] by (simp add: ident_ok_def)
  from unique_keyD [OF this assms(3,2)] show ?thesis using assms(4) by simp
qed

lemma lease_unique:
  assumes "store_ok d" and "l \<in> set (tunnel_leases d)" "l' \<in> set (tunnel_leases d)" and "tl_installation l' = tl_installation l"
  shows "l' = l"
proof -
  have "unique_key tl_installation (tunnel_leases d)" using assms(1) by (simp add: store_ok_def leases_ok_def)
  from unique_keyD [OF this assms(3,2)] show ?thesis using assms(4) by simp
qed

lemma served_unique: "served d i h \<Longrightarrow> served d j h \<Longrightarrow> store_ok d \<Longrightarrow> i = j"
  by (auto simp: served_def dest: hostname_unique)

section \<open>How the table of tunnels changes\<close>

lemma tunnels_quiet [simp]:
  "gw_tunnels (goto c pc g) = gw_tunnels g" "gw_tunnels (respond c status g) = gw_tunnels g"
  "gw_tunnels (leave_loop c g) = gw_tunnels g" "gw_tunnels (authenticated c g) = gw_tunnels g"
  "gw_tunnels (drop_permits c g) = gw_tunnels g" "gw_tunnels (take_permits c g) = gw_tunnels g"
  "gw_tunnels (set_slot b x g) = gw_tunnels g" "gw_tunnels (drop_ticket tk g) = gw_tunnels g"
  "gw_tunnels (remove_ticket k g) = gw_tunnels g" "gw_tunnels (set_task l lpc g) = gw_tunnels g"
  "gw_tunnels (set_browser b bpc g) = gw_tunnels g" "gw_tunnels (close_browser b g) = gw_tunnels g"
  "gw_tunnels (accept_control g) = gw_tunnels g" "gw_tunnels (accept_browser peer g) = gw_tunnels g"
  "gw_tunnels (control_request P c rq g) = gw_tunnels g" "gw_tunnels (browser_start b g) = gw_tunnels g"
  "gw_tunnels (browser_hello A b reads g) = gw_tunnels g" "gw_tunnels (browser_lookup b h hello g) = gw_tunnels g"
  "gw_tunnels (browser_ticket b h hello a key conn ms g) = gw_tunnels g"
  by (simp_all add: goto_def respond_def leave_loop_def authenticated_def drop_permits_def take_permits_def
      set_slot_def drop_ticket_def remove_ticket_def set_task_def set_browser_def close_browser_def
      accept_control_def accept_browser_def control_request_def browser_start_def browser_hello_def
      browser_lookup_def browser_ticket_def Let_def split: option.split sum.split prod.split)

definition installs :: "gateway \<Rightarrow> gateway \<Rightarrow> bool" where
  "installs g g' \<longleftrightarrow> (\<exists>c i h x. g' = respond c 200 (install_tunnel c i h x g)
     \<and> generation_can_replace (map_option (\<lambda>a. tu_generation (gw_arcs g ! a)) (gw_tunnels g h)) x)"

lemma control_run_tunnels:
  assumes "control_run K t ok c (g, s) = Some (g', s')"
  shows "gw_tunnels g' = gw_tunnels g \<or> installs g g'"
proof (cases "cc_pc (gw_controls g ! c)")
  case (Attach a pc)
  with assms show ?thesis
    by (cases pc) (auto simp: control_run_def bind_eq_Some_conv split: option.splits if_splits)
next
  case (TunnelClaim i h)
  with assms have "tunnel_run K t ok c (TunnelClaim i h) (g, s) = Some (g', s')" by (simp add: control_run_def)
  from claim_run [OF this] show ?thesis by auto
next
  case (TunnelInstall i h x)
  with assms show ?thesis by (auto simp: control_run_def installs_def split: if_splits)
qed (use assms in \<open>auto simp: control_run_def bind_eq_Some_conv Let_def split: if_splits\<close>)

lemma exec_tunnels:
  assumes "gateway_exec P e (g, s) = Some (g', s')"
  shows "gw_tunnels g' = gw_tunnels g \<or> (\<exists>h. gw_tunnels g' = (gw_tunnels g)(h := None)) \<or> installs g g'"
proof (cases e)
  case (ControlRun c t ok)
  with assms control_run_tunnels [of "gp_store P" t ok c g s g' s'] show ?thesis by (auto split: if_splits)
next
  case (LifecycleSelect l action)
  with assms select_run [of l action g g'] show ?thesis by (auto split: if_splits)
next
  case (LifecycleRenew l t ok)
  with assms renew_run [of "gp_store P" t ok l g s g' s'] show ?thesis by (auto split: if_splits)
next
  case (LifecycleEnd l)
  with assms show ?thesis by (auto simp: lifecycle_end_def Let_def split: if_splits)
qed (use assms in \<open>auto simp: authentication_deadline_def control_joined_def lifecycle_sent_def Let_def
      browser_current_def browser_send_def browser_wait_def bind_eq_Some_conv
      split: if_splits option.splits browser_pc.splits slot.splits\<close>)

section \<open>Executing a run\<close>

fun gateway_run :: "'a gw_params \<Rightarrow> gw_event list \<Rightarrow> system \<Rightarrow> system option" where
  "gateway_run P [] sys = Some sys"
| "gateway_run P (e # es) sys = Option.bind (gateway_exec P e sys) (gateway_run P es)"

lemma gateway_run_runs: "gateway_run P es sys = Some sys' \<longleftrightarrow> runs (gateway_step P) sys es sys'"
  by (induction es arbitrary: sys) (auto simp: bind_eq_Some_conv gateway_step_def intro: runs.intros)

text \<open>The gateway \<open>eu\<close> serves the installation of \<open>example_db\<close>.\<close>

definition example_host :: string where
  "example_host = ''aaaaaaaaaaaaaaaa2345672345.relay.bloom.directory''"

definition example_acceptor :: "bytes acceptor" where
  "example_acceptor = \<lparr>ac_default = [], ac_read_tls = (\<lambda>a bs. Inr (a @ bs)),
     ac_accept = (\<lambda>a. if length a < 3 then (Inr None, a) else (Inr (Some (Some example_host)), a))\<rparr>"

definition example_gateway_params :: "bytes gw_params" where
  "example_gateway_params = \<lparr>gp_store = example_params, gp_parse_uuid = (\<lambda>_. Some 1), gp_acceptor = example_acceptor\<rparr>"

definition example_request :: "http_method \<Rightarrow> request" where
  "example_request m = \<lparr>rq_method = m, rq_path = ''/v1/tunnel'', rq_authority = Some example_host,
     rq_header = (\<lambda>n. if n = ''x-bloom-version'' then Some ''1''
        else if n = ''x-bloom-installation'' then Some ''00000000-0000-0000-0000-000000000001''
        else if n = ''x-bloom-hostname'' then Some example_host
        else if n = ''x-bloom-generation'' then Some ''5''
        else if n = ''x-bloom-ticket'' then Some ''k''
        else if n = ''authorization'' then Some (''Bearer '' @ example_token) else None)\<rparr>"

definition example_events :: "gw_event list" where
  "example_events =
     [AcceptControl, ControlRequest 0 (example_request MPost),
      ControlRun 0 (seconds 7) True, ControlRun 0 (seconds 7) True, ControlRun 0 (seconds 8) True,
      ControlRun 0 (seconds 8) True,
      AcceptBrowser (V4 1), BrowserStart 0, BrowserHello 0 [Inr [22], Inr [3, 1]], BrowserLookup 0,
      BrowserCurrent 0 (seconds 9) True, BrowserTicket 0 ''k'' 7 0, BrowserSend 0 True,
      ControlRequest 0 (example_request MConnect),
      ControlRun 0 (seconds 9) True, ControlRun 0 (seconds 9) True, ControlRun 0 (seconds 9) True,
      ControlRun 0 (seconds 9) True, ControlRun 0 (seconds 9) True, ControlRun 0 (seconds 9) True]"

definition example_start :: system where
  "example_start = (gateway_new ''eu'' 0, (seconds 6, example_db))"


definition example_handover :: gw_event where
  "example_handover = ControlRun 0 (seconds 9) True"

definition sent_to :: "slot \<Rightarrow> nat \<Rightarrow> bool" where
  "sent_to x c = (case x of SlotSent c' a \<Rightarrow> c' = c \<and> at_id a = 1 | _ \<Rightarrow> False)"

definition bridged :: "browser_pc \<Rightarrow> bytes \<Rightarrow> bool" where
  "bridged pc bs = (case pc of BBridge h hello arc c a \<Rightarrow> hello = bs | _ \<Rightarrow> False)"

lemma example_observed:
  "case gateway_run example_gateway_params example_events example_start of
     None \<Rightarrow> False
   | Some (g, s) \<Rightarrow>
       length (gw_browsers g) = 1 \<and> slot_of g 0 = SlotEmpty \<and> map lf_conn (gw_tasks g) = [0]
       \<and> gw_tunnels g example_host = Some 0
       \<and> (case gateway_exec example_gateway_params example_handover (g, s) of
            None \<Rightarrow> False
          | Some (g', s') \<Rightarrow>
              sent_to (slot_of g' 0) 0
              \<and> (case gateway_exec example_gateway_params (BrowserWait 0 False) (g', s') of
                   None \<Rightarrow> False
                 | Some (g'', s'') \<Rightarrow>
                     length (gw_browsers g'') = 1 \<and> bridged (br_pc (gw_browsers g'' ! 0)) [22, 3, 1]))"
  by code_simp

lemma gateway_example:
  obtains g t d g' t' d' g'' t'' d'' c a where
    "runs (gateway_step example_gateway_params) (gateway_new ''eu'' 0, (seconds 6, example_db)) example_events (g, (t, d))"
    "0 < length (gw_browsers g)" "slot_of g 0 = SlotEmpty" "gw_tunnels g example_host = Some 0"
    "gateway_step example_gateway_params (g, (t, d)) example_handover (g', (t', d'))"
    "slot_of g' 0 = SlotSent c a" "at_id a = 1"
    "gateway_step example_gateway_params (g', (t', d')) (BrowserWait 0 False) (g'', (t'', d''))"
    "0 < length (gw_browsers g'')" "bridged (br_pc (gw_browsers g'' ! 0)) [22, 3, 1]"
proof -
  from example_observed obtain g t d where g: "gateway_run example_gateway_params example_events example_start = Some (g, (t, d))"
    by (auto split: option.splits)
  from example_observed g obtain g' t' d' where g': "gateway_exec example_gateway_params example_handover (g, (t, d)) = Some (g', (t', d'))"
    by (auto split: option.splits)
  from example_observed g g' obtain g'' t'' d''
    where g'': "gateway_exec example_gateway_params (BrowserWait 0 False) (g', (t', d')) = Some (g'', (t'', d''))"
    by (auto split: option.splits)
  note facts = example_observed [unfolded g option.case prod.case g' g'']
  then obtain c a where sent: "slot_of g' 0 = SlotSent c a" "at_id a = 1"
    by (auto simp: sent_to_def split: slot.splits)
  show thesis
  proof (rule that [of g t d g' t' d' c a g'' t'' d''])
    show "runs (gateway_step example_gateway_params) (gateway_new ''eu'' 0, (seconds 6, example_db)) example_events (g, (t, d))"
      using g by (simp add: gateway_run_runs example_start_def)
    show "gateway_step example_gateway_params (g, (t, d)) example_handover (g', (t', d'))"
      "gateway_step example_gateway_params (g', (t', d')) (BrowserWait 0 False) (g'', (t'', d''))"
      using g' g'' by (simp_all only: gateway_step_def)
  qed (use facts sent in simp_all)
qed

section \<open>Properties\<close>

lemma reachable_gateway:
  assumes "store_ok d" and "runs (gateway_step P) (gateway_new gid now, (t, d)) es (g, (t', d'))"
  shows "gateway_ok P (g, (t', d'))" and "store_ok d'" and "gw_id g = gid"
proof -
  note start = gateway_ok_new [OF assms(1)]
  show ok: "gateway_ok P (g, (t', d'))" by (rule relay.runs_invariant [OF assms(2) start])
  then show "store_ok d'" by (auto simp: gateway_ok_def dest: routing_db)
  show "gw_id g = gid" using relay.runs_evolves [OF assms(2) start] by (simp add: system_evolves_def gateway_new_def)
qed

text \<open>C1. A browser's bytes reach only the owner of the name it asked for. In every state of a running
  gateway, a browser connection that is bridged to a broker asked for a valid hostname; the one
  installation that has this hostname is the one the broker's stream was attached for; and the
  stream was authenticated with a tunnel token issued to that installation.\<close>

theorem browser_reaches_owner:
  assumes "store_ok d" and "runs (gateway_step P) (gateway_new gid now, (t, d)) es (g, (t', d'))"
    and "b < length (gw_browsers g)" and "br_pc (gw_browsers g ! b) = BBridge h hello arc c a"
  shows "validate_hostname h = Inr ()
    \<and> (\<exists>r \<in> set (installations d'). in_hostname r = h \<and> in_id r = at_id a
         \<and> (\<forall>r' \<in> set (installations d'). in_hostname r' = h \<longrightarrow> r' = r))
    \<and> (\<exists>cr \<in> set (credentials d'). cr_installation cr = at_id a \<and> cr_scope cr = ''tunnel''
         \<and> cr_token_hash cr = p_sha256 (k_prims (gp_store P)) (as_bytes (at_token a)))"
proof -
  note reach = reachable_gateway [OF assms(1,2)]
  from reach(1) have "browser_ok (k_prims (gp_store P)) d' g b"
    using assms(3) routing_browser_ok [of "k_prims (gp_store P)" g "(t', d')" b] by (simp add: gateway_ok_def)
  then have att: "attached (k_prims (gp_store P)) d' a" "h = at_host a"
    using assms(4) by (auto simp: browser_ok_def)
  then obtain r where r: "r \<in> set (installations d')" "in_id r = at_id a" "in_hostname r = h"
    by (auto simp: attached_def served_def)
  moreover have "r' = r" if "r' \<in> set (installations d')" "in_hostname r' = h" for r'
    using hostname_unique [OF reach(2) r(1) that(1)] that(2) r(3) by simp
  ultimately have "\<exists>r \<in> set (installations d'). in_hostname r = h \<and> in_id r = at_id a
         \<and> (\<forall>r' \<in> set (installations d'). in_hostname r' = h \<longrightarrow> r' = r)" by blast
  with att show ?thesis by (simp add: attached_def known_bearer_def)
qed

theorem browser_reaches_owner_witness:
  "\<exists>es g t d h arc c a.
     runs (gateway_step example_gateway_params) (gateway_new ''eu'' 0, (seconds 6, example_db)) es (g, (t, d))
     \<and> br_pc (gw_browsers g ! 0) = BBridge h [22, 3, 1] arc c a
     \<and> (\<exists>r \<in> set (installations d). in_hostname r = h \<and> in_id r = at_id a)"
proof -
  obtain g t d g' t' d' g'' t'' d'' c a where run:
    "runs (gateway_step example_gateway_params) (gateway_new ''eu'' 0, (seconds 6, example_db)) example_events (g, (t, d))"
    "gateway_step example_gateway_params (g, (t, d)) example_handover (g', (t', d'))"
    "gateway_step example_gateway_params (g', (t', d')) (BrowserWait 0 False) (g'', (t'', d''))"
    and b: "0 < length (gw_browsers g'')" "bridged (br_pc (gw_browsers g'' ! 0)) [22, 3, 1]"
    by (rule gateway_example)
  have all: "runs (gateway_step example_gateway_params) (gateway_new ''eu'' 0, (seconds 6, example_db))
      (example_events @ [example_handover, BrowserWait 0 False]) (g'', (t'', d''))"
    by (rule runs_append [OF run(1)]) (use run(2,3) in \<open>auto intro: runs.intros\<close>)
  from b(2) obtain h arc c a where pc: "br_pc (gw_browsers g'' ! 0) = BBridge h [22, 3, 1] arc c a"
    by (auto simp: bridged_def split: browser_pc.splits)
  from browser_reaches_owner [OF example_ok all b(1) pc] all pc show ?thesis by blast
qed



text \<open>C10. The tunnel of a host is replaced only by a newer one of the same installation: when a step of
  a running gateway puts another tunnel in the place of a host's tunnel, the new one has a larger
  generation, both belong to the same installation, and the old one has been told to stop.\<close>

theorem tunnel_replaced_by_newer:
  assumes "store_ok d0" and "runs (gateway_step P) (gateway_new gid now, (t0, d0)) es (g, s)"
    and "gateway_step P (g, s) e (g', s')"
    and "gw_tunnels g h = Some a" and "gw_tunnels g' h = Some a'" and "a' \<noteq> a"
  shows "tu_generation (gw_arcs g' ! a) < tu_generation (gw_arcs g' ! a')
    \<and> tu_id (gw_arcs g' ! a) = tu_id (gw_arcs g' ! a') \<and> tu_cancelled (gw_arcs g' ! a)"
proof -
  have exec: "gateway_exec P e (g, s) = Some (g', s')" using assms(3) by (simp add: gateway_step_def)
  have ok: "gateway_ok P (g, s)" by (rule relay.runs_invariant [OF assms(2) gateway_ok_new [OF assms(1)]])
  then have ok': "gateway_ok P (g', s')" by (rule gateway_ok_step [OF assms(3)])
  have a: "a < length (gw_arcs g)" using ok assms(4) by (auto simp: gateway_ok_def dest: routing_arc_ok arc_ok_bound)
  from exec_tunnels [OF exec] assms(4-6) obtain c i h' x where g': "g' = respond c 200 (install_tunnel c i h' x g)"
    and newer: "generation_can_replace (map_option (\<lambda>a. tu_generation (gw_arcs g ! a)) (gw_tunnels g h')) x"
    by (auto simp: installs_def split: if_splits)
  have arcs: "gw_arcs g' = gw_arcs (install_tunnel c i h' x g)" "gw_tunnels g' = gw_tunnels (install_tunnel c i h' x g)"
    by (simp_all add: g' respond_def)
  have h: "h' = h" "a' = length (gw_arcs g)"
    using assms(4-6) arcs(2) by (auto simp: install_tunnel_def Let_def split: if_splits)
  have new: "gw_arcs g' ! a' = \<lparr>tu_id = i, tu_generation = x, tu_queue = [], tu_cancelled = False,
      tu_permits = MAX_INSTALLATION_STREAMS\<rparr>"
    and old: "gw_arcs g' ! a = (gw_arcs g ! a)\<lparr>tu_cancelled := True\<rparr>"
    using arcs(1) assms(4) h a by (simp_all add: install_tunnel_def Let_def nth_append)
  have lt: "tu_generation (gw_arcs g ! a) < x" using newer assms(4) h by (simp add: generation_can_replace_def)
  have "arc_ok (snd s) (gw_arcs g) h a" "arc_ok (snd s') (gw_arcs g') h a'" "db_later (snd s) (snd s')"
    using ok ok' assms(4,5) exec_later [OF exec ok] by (auto simp: gateway_ok_def intro: routing_arc_ok)
  then have "served (snd s') (tu_id (gw_arcs g ! a)) h" "served (snd s') i h" "store_ok (snd s')"
    using new served_later by (auto simp: arc_ok_def db_later_def)
  then have "tu_id (gw_arcs g ! a) = i" by (rule served_unique)
  with lt new old show ?thesis by simp
qed

text \<open>The installation of the example opens its tunnel a second time.\<close>

definition example_again :: "gw_event list" where
  "example_again = take 6 example_events @
     [ControlRequest 0 (example_request MPost), ControlRun 0 (seconds 9) True, ControlRun 0 (seconds 9) True,
      ControlRun 0 (seconds 9) True]"

lemma example_again_observed:
  "case gateway_run example_gateway_params example_again example_start of
     None \<Rightarrow> False
   | Some (g, s) \<Rightarrow>
       gw_tunnels g example_host = Some 0
       \<and> (case gateway_exec example_gateway_params (ControlRun 0 (seconds 9) True) (g, s) of
            None \<Rightarrow> False
          | Some (g', s') \<Rightarrow> gw_tunnels g' example_host = Some 1)"
  by code_simp

theorem tunnel_replaced_by_newer_witness:
  "\<exists>g s g' s'. gateway_step example_gateway_params (g, s) (ControlRun 0 (seconds 9) True) (g', s')
     \<and> gw_tunnels g example_host = Some 0 \<and> gw_tunnels g' example_host = Some 1
     \<and> tu_generation (gw_arcs g' ! 0) < tu_generation (gw_arcs g' ! 1) \<and> tu_cancelled (gw_arcs g' ! 0)"
proof -
  let ?e = "ControlRun 0 (seconds 9) True"
  from example_again_observed obtain g s where g: "gateway_run example_gateway_params example_again example_start = Some (g, s)"
    by (auto split: option.splits)
  from example_again_observed g obtain g' s' where g': "gateway_exec example_gateway_params ?e (g, s) = Some (g', s')"
    by (auto split: option.splits)
  note facts = example_again_observed [unfolded g option.case prod.case g']
  have run: "runs (gateway_step example_gateway_params) (gateway_new ''eu'' 0, (seconds 6, example_db)) example_again (g, s)"
    using g by (simp add: gateway_run_runs example_start_def)
  have step: "gateway_step example_gateway_params (g, s) ?e (g', s')" using g' by (simp only: gateway_step_def)
  from tunnel_replaced_by_newer [OF example_ok run step, of example_host 0 1] facts
  have "gw_tunnels g example_host = Some 0" "gw_tunnels g' example_host = Some 1"
    "tu_generation (gw_arcs g' ! 0) < tu_generation (gw_arcs g' ! 1)" "tu_cancelled (gw_arcs g' ! 0)" by auto
  with step show ?thesis by blast
qed

lemma tally_strict:
  assumes "\<And>x. x \<in> set xs \<Longrightarrow> p x \<Longrightarrow> q x" and "x \<in> set xs" "q x" "\<not> p x"
  shows "tally p xs < tally q xs"
  using assms
proof (induction xs)
  case (Cons y ys)
  have le: "tally p ys \<le> tally q ys" if "\<And>x. x \<in> set ys \<Longrightarrow> p x \<Longrightarrow> q x" for ys
    using that by (induction ys) (auto simp: tally_def)
  show ?case
  proof (cases "x = y")
    case True
    with Cons.prems le [of ys] show ?thesis by (auto simp: tally_def)
  next
    case False
    with Cons show ?thesis by (auto simp: tally_def)
  qed
qed simp

lemma stream_left:
  assumes "int n + tally (\<lambda>x. holds_stream (br_pc x)) xs = m" and "int k + tally (\<lambda>x. br_pc x \<noteq> BClosed) xs = m"
    and "BStart \<in> br_pc ` set xs"
  shows "0 < n"
proof -
  from assms(3) obtain x where "x \<in> set xs" "br_pc x = BStart" by auto
  then have "tally (\<lambda>x. holds_stream (br_pc x)) xs < tally (\<lambda>x. br_pc x \<noteq> BClosed) xs"
    by (intro tally_strict [of xs _ _ x]) (auto simp: holds_stream_def)
  with assms(1,2) show ?thesis by simp
qed

lemma tally_int: "tally p xs = int (length (filter p xs))"
  by (simp add: tally_def)

text \<open>C23. The gateway never takes on more than its limits, whatever its tasks do: at most 5000 tunnel
  lifecycles, 256 of them on one control connection, 512 control connections, 2048 browser
  connections, 128 of them on one tunnel. Two buffers for each of the 2048 connections fit the
  buffer budget, and an admitted browser connection always finds a stream permit.\<close>

theorem gateway_limits:
  assumes "store_ok d" and "runs (gateway_step P) (gateway_new gid now, (t, d)) es (g, s)"
  shows "length (filter live (gw_tasks g)) \<le> MAX_TUNNEL_LIFECYCLES
    \<and> length (filter (\<lambda>l. lf_conn l = c \<and> live l) (gw_tasks g)) \<le> MAX_TUNNEL_LIFECYCLES_PER_CONNECTION
    \<and> length (filter (\<lambda>x. cc_pc x \<noteq> ControlClosed) (gw_controls g)) \<le> CONTROL_SLOTS
    \<and> length (filter (\<lambda>x. br_pc x \<noteq> BClosed) (gw_browsers g)) \<le> STREAM_LIMIT
    \<and> length (filter (\<lambda>x. arc_of (br_pc x) = Some a) (gw_browsers g)) \<le> MAX_INSTALLATION_STREAMS
    \<and> STREAM_LIMIT * (2 * BUFFER_PER_DIRECTION) \<le> BUFFER_BUDGET
    \<and> (BStart \<in> br_pc ` set (gw_browsers g) \<longrightarrow> 0 < gw_streams g)"
proof -
  have ok: "gateway_ok P (g, s)" by (rule relay.runs_invariant [OF assms(2) gateway_ok_new [OF assms(1)]])
  then have l: "lifecycles_ok g" and c: "slots_ok g" and b: "streams_ok g" and a: "arcs_ok g" by (simp_all add: gateway_ok_def)
  have "int (gw_lifecycles g) + tally (\<lambda>x. holding (cc_pc x)) (gw_controls g) + tally live (gw_tasks g)
      = int MAX_TUNNEL_LIFECYCLES"
    using l by (simp add: lifecycles_ok_def)
  then have "tally live (gw_tasks g) \<le> int MAX_TUNNEL_LIFECYCLES"
    using tally_nonneg [of "\<lambda>x. holding (cc_pc x)" "gw_controls g"] by linarith
  moreover have "tally (\<lambda>l. lf_conn l = c \<and> live l) (gw_tasks g) \<le> int MAX_TUNNEL_LIFECYCLES_PER_CONNECTION"
  proof (cases "c < length (gw_controls g)")
    case True
    with l have "int (cc_permits (gw_controls g ! c)) + of_bool (holding (cc_pc (gw_controls g ! c)))
        + tally (\<lambda>l. lf_conn l = c \<and> live l) (gw_tasks g) = int MAX_TUNNEL_LIFECYCLES_PER_CONNECTION"
      by (simp add: lifecycles_ok_def)
    then show ?thesis by (simp add: of_bool_def split: if_splits)
  next
    case False
    with l have "tally (\<lambda>l. lf_conn l = c \<and> live l) (gw_tasks g) = 0" by (intro tally_zero) (auto simp: lifecycles_ok_def)
    then show ?thesis by simp
  qed
  moreover have "tally (\<lambda>x. cc_pc x \<noteq> ControlClosed) (gw_controls g) \<le> int CONTROL_SLOTS" using c by (simp add: slots_ok_def)
  moreover have "tally (\<lambda>x. br_pc x \<noteq> BClosed) (gw_browsers g) \<le> int STREAM_LIMIT" using b by (simp add: streams_ok_def)
  moreover have "tally (\<lambda>x. arc_of (br_pc x) = Some a) (gw_browsers g) \<le> int MAX_INSTALLATION_STREAMS" for a
  proof (cases "a < length (gw_arcs g)")
    case True
    with a have "int (tu_permits (gw_arcs g ! a)) + tally (\<lambda>x. arc_of (br_pc x) = Some a) (gw_browsers g)
        = int MAX_INSTALLATION_STREAMS" by (simp add: arcs_ok_def)
    then show ?thesis by simp
  next
    case False
    with a have "tally (\<lambda>x. arc_of (br_pc x) = Some a) (gw_browsers g) = 0" by (intro tally_zero) (auto simp: arcs_ok_def)
    then show ?thesis by simp
  qed
  moreover have "STREAM_LIMIT * (2 * BUFFER_PER_DIRECTION) \<le> BUFFER_BUDGET" by (simp add: STREAM_LIMIT_def limit_defs)
  moreover have "0 < gw_streams g" if "BStart \<in> br_pc ` set (gw_browsers g)"
    using b that by (auto simp: streams_ok_def intro: stream_left)
  ultimately show ?thesis by (auto simp: tally_int)
qed

theorem gateway_limits_witness:
  "\<exists>g s. runs (gateway_step example_gateway_params) (gateway_new ''eu'' 0, (seconds 6, example_db)) example_events (g, s)
     \<and> gw_browsers g \<noteq> [] \<and> length (filter live (gw_tasks g)) \<le> MAX_TUNNEL_LIFECYCLES"
proof -
  obtain g t d where run:
    "runs (gateway_step example_gateway_params) (gateway_new ''eu'' 0, (seconds 6, example_db)) example_events (g, (t, d))"
    "0 < length (gw_browsers g)"
    by (rule gateway_example)
  from gateway_limits [OF example_ok run(1)] run show ?thesis by blast
qed

text \<open>C24. The lifecycle permits implement an abstract machine in which a control connection takes a pair
  of permits, hands the pair to a tunnel it starts or gives it back, and a tunnel that ends gives
  it back: every step of the gateway is one step of that machine or leaves it where it is, on
  error paths as well.\<close>

theorem permits_refinement:
  assumes "store_ok d" and "runs (gateway_step P) (gateway_new gid now, (t, d)) es (g, s)"
    and "gateway_step P (g, s) e (g', s')"
  shows "permits_step (permits_of g) (permits_of g')"
proof -
  have "gateway_ok P (g, s)" by (rule relay.runs_invariant [OF assms(2) gateway_ok_new [OF assms(1)]])
  with assms(3) show ?thesis by (auto simp: gateway_ok_def gateway_step_def intro: exec_permits)
qed

theorem permits_refinement_witness:
  "\<exists>g s g' s'. gateway_step example_gateway_params (g, s) example_handover (g', s')
     \<and> permits_step (permits_of g) (permits_of g')"
proof -
  obtain g t d g' t' d' where run:
    "runs (gateway_step example_gateway_params) (gateway_new ''eu'' 0, (seconds 6, example_db)) example_events (g, (t, d))"
    "gateway_step example_gateway_params (g, (t, d)) example_handover (g', (t', d'))"
    by (rule gateway_example)
  from permits_refinement [OF example_ok run] run(2) show ?thesis by blast
qed

text \<open>C26. The ingress quota: over arrivals in order of time, the gateway admits at most 10000
  connections in any minute, and at most 240 from any one address. The counters restart with a
  window, so a minute can see the limits of two windows, 5000 and 120 each, and never more.\<close>

theorem ingress_quota_bound:
  assumes "sorted (start # map snd rs)"
  shows "length (within T (admitted rs (ingress_quota_new start))) \<le> 10000
    \<and> length (from_source a (within T (admitted rs (ingress_quota_new start)))) \<le> 240"
proof -
  have new: "iq_start (ingress_quota_new start) = start" "unat (iq_total (ingress_quota_new start)) \<le> 5000"
    "unat (source_count (ingress_quota_new start) a) \<le> 120"
    by (simp_all add: ingress_quota_new_def source_count_def)
  from all_sources.taken_bound [of "ingress_quota_new start" rs T] one_source.taken_bound [of "ingress_quota_new start" rs a T]
  show ?thesis
    using assms new by (simp add: all_sources.taken_def one_source.taken_def from_source_def case_prod_unfold)
qed

theorem ingress_quota_bound_witness:
  "length (admitted [(V4 1, 0), (V4 2, secs 59), (V4 1, secs 61)] (ingress_quota_new 0)) = 3
   \<and> length (within 0 (admitted [(V4 1, 0), (V4 2, secs 59), (V4 1, secs 61)] (ingress_quota_new 0))) \<le> 10000"
proof -
  have "sorted (0 # map snd [(V4 1, 0), (V4 2, secs 59), (V4 1, secs 61)])" by code_simp
  from ingress_quota_bound [OF this, of 0 "V4 1"]
  have "length (within 0 (admitted [(V4 1, 0), (V4 2, secs 59), (V4 1, secs 61)] (ingress_quota_new 0))) \<le> 10000" by blast
  moreover have "length (admitted [(V4 1, 0), (V4 2, secs 59), (V4 1, secs 61)] (ingress_quota_new 0)) = 3" by code_simp
  ultimately show ?thesis by blast
qed



text \<open>C27. Sending on an HTTP/2 stream keeps the bytes: the frames that went out are non-empty, at most
  16384 bytes long and together a prefix of the bytes to send, all of them when the sending
  succeeds. It does succeed if the stream takes every frame and keeps granting capacity: one
  positive grant per byte is always enough.\<close>

theorem send_data_delivers:
  assumes "send_data accepts polls capacity bytes [] = (outcome, frames)"
  shows "prefix (concat frames) bytes \<and> (\<forall>f \<in> set frames. f \<noteq> [] \<and> length f \<le> FRAME_LIMIT)
    \<and> (outcome = Sent \<longrightarrow> concat frames = bytes)
    \<and> ((\<forall>n. accepts n) \<and> (\<forall>p \<in> set polls. \<exists>n > 0. p = Capacity n) \<and> length bytes \<le> length polls \<longrightarrow> outcome = Sent)"
  using send_data_frames [OF assms] send_data_sends [of accepts polls bytes capacity "[]"] assms by auto

theorem send_data_delivers_witness:
  "fst (send_data (\<lambda>_. True) [Capacity 2, Capacity 1, Capacity 5] 0 [1, 2, 3] []) = Sent
   \<and> concat (snd (send_data (\<lambda>_. True) [Capacity 2, Capacity 1, Capacity 5] 0 [1, 2, 3] [])) = [1, 2, 3]"
proof -
  obtain outcome frames where run: "send_data (\<lambda>_. True) [Capacity 2, Capacity 1, Capacity 5] 0 [1, 2, 3] [] = (outcome, frames)"
    by fastforce
  from send_data_delivers [OF run] run show ?thesis by simp
qed

end
