(* ===== verification/Control_Messages.thy ===== *)
theory Control_Messages
  imports Protocol
begin

text \<open>
  The bodies of the control requests and their answers
  (\<^verbatim>\<open>crates/bloom-relay-protocol/src/lib.rs\<close>), as the control API and its clients exchange
  them. JSON is the encoding of another crate: a handler receives the decoded message.
\<close>

record bootstrap_challenge_message =
  bm_version :: u16
  bm_nonce :: string
  bm_expires_at_ms :: u64

record allocate_request =
  aq_admin_public_key :: string
  aq_bootstrap_nonce :: string
  aq_operation_id :: uuid

record credential_issue_request =
  ci_scope :: scope
  ci_token_sha256 :: string
  ci_validity_seconds :: u32

record credential_issue_receipt =
  cir_version :: u16
  cir_scope :: scope
  cir_generation :: u64
  cir_operation_id :: uuid
  cir_expires_at_ms :: u64

record credential_renew_request =
  rn_version :: u16
  rn_installation_id :: uuid
  rn_scope :: scope
  rn_generation :: u64
  rn_operation_id :: uuid
  rn_nonce :: string
  rn_expires_at_ms :: u64
  rn_new_token_sha256 :: string

record acme_account_request =
  aa_account_uri :: string

record installation_status_request =
  is_installation_id :: uuid

record retire_request =
  rt_installation_id :: uuid

record dns_challenge_ensure_request =
  de_version :: u16
  de_installation_id :: uuid
  de_txt_value :: string

record dns_challenge_state =
  ds_version :: u16
  ds_revision :: u64
  ds_expires_at_ms :: u64

text \<open>The scopes of bearers, with the names of the credential table.\<close>

definition bearer_scopes :: "scope set" where
  "bearer_scopes = {Tunnel, DnsChallenge}"

definition scope_name :: "scope \<Rightarrow> string" where
  "scope_name s = (if s = Tunnel then ''tunnel'' else ''dns_challenge'')"

lemma scope_name_inject:
  "s \<in> bearer_scopes \<Longrightarrow> s' \<in> bearer_scopes \<Longrightarrow> scope_name s = scope_name s' \<longleftrightarrow> s = s'"
  by (auto simp: bearer_scopes_def scope_name_def)

end
