(* ===== verification/Client_Addr.thy ===== *)
theory Client_Addr
  imports Relay_Prelude
begin

text \<open>
  The client address the control API's quotas are keyed on
  (\<^verbatim>\<open>crates/bloom-relay-control/src/client_addr.rs\<close>): the TCP peer, or the client that the
  PROXY protocol v2 header of the connection names. The property relates the reader to a writer
  of such headers.
\<close>

section \<open>Big-endian numbers\<close>

definition be_value :: "bytes \<Rightarrow> int" where
  "be_value bs = foldl (\<lambda>acc b. acc * 256 + uint b) 0 bs"

text \<open>\<^verbatim>\<open>from_be_bytes\<close>.\<close>

definition from_be :: "bytes \<Rightarrow> 'a::len word" where
  "from_be bs = word_of_int (be_value bs)"

lemma foldl_be: "foldl (\<lambda>acc b. acc * 256 + uint b) a bs = a * 256 ^ length bs + be_value bs"
proof (induction bs arbitrary: a)
  case (Cons b bs)
  from Cons [of "a * 256 + uint b"] Cons [of "uint b"] show ?case by (simp add: be_value_def algebra_simps)
qed (simp add: be_value_def)

lemma be_value_Cons: "be_value (b # bs) = uint b * 256 ^ length bs + be_value bs"
  by (simp add: be_value_def foldl_be [of "uint b"])

lemma be_bytes_Suc: "be_bytes (Suc n) w = ucast (drop_bit (8 * n) w) # be_bytes n w"
  by (simp add: be_bytes_def)

lemma be_value_be_bytes: "be_value (be_bytes n w) = uint w mod 256 ^ n"
proof (induction n)
  case (Suc n)
  have "uint (ucast (drop_bit (8 * n) w) :: u8) = uint w div 256 ^ n mod 256"
    by (simp only: unsigned_ucast_eq unsigned_drop_bit_eq) (simp add: drop_bit_eq_div take_bit_eq_mod power_mult)
  moreover have "uint w mod (256 ^ n * 256) = 256 ^ n * (uint w div 256 ^ n mod 256) + uint w mod 256 ^ n"
    by (rule zmod_zmult2_eq) simp
  ultimately show ?case using Suc by (simp add: be_bytes_Suc be_value_Cons mult.commute)
qed (simp add: be_bytes_def be_value_def)

lemma from_be_be_bytes:
  fixes w :: "'a::len word"
  assumes "LENGTH('a) \<le> 8 * n"
  shows "from_be (be_bytes n w) = w"
proof -
  have "(2 :: int) ^ LENGTH('a) \<le> 2 ^ (8 * n)" by (rule power_increasing [OF assms]) simp
  then have "(2 :: int) ^ LENGTH('a) \<le> 256 ^ n" by (simp add: power_mult)
  moreover have "uint w < 2 ^ LENGTH('a)" by (rule unsigned_less)
  ultimately have "uint w < 256 ^ n" by linarith
  then show ?thesis by (simp add: from_be_def be_value_be_bytes)
qed

section \<open>The reader\<close>

record socket_addr =
  sa_ip :: ip_addr
  sa_port :: u16

definition SIGNATURE :: bytes where
  "SIGNATURE = [13, 10, 13, 10, 0, 13, 10, 81, 85, 73, 84, 10]"

definition MAX_BODY :: nat where
  "MAX_BODY = 512"

datatype accept_error = UnexpectedEof | AcceptTimedOut | InvalidData string

text \<open>\<^verbatim>\<open>Ipv6Addr::to_canonical\<close>: an IPv4-mapped address is the IPv4 address.\<close>

definition to_canonical :: "128 word \<Rightarrow> ip_addr" where
  "to_canonical w = (if drop_bit 32 w = 0xffff then V4 (ucast w) else V6 w)"

definition body_length :: "bytes \<Rightarrow> accept_error + nat" where
  "body_length hdr =
     (if take 12 hdr \<noteq> SIGNATURE
      then Inl (InvalidData ''connection did not start with a PROXY v2 header'')
      else let len = unat (from_be [hdr ! 14, hdr ! 15] :: u16)
        in if len > MAX_BODY then Inl (InvalidData ''PROXY v2 header too long'') else Inr len)"

definition parse_proxy :: "bytes \<Rightarrow> bytes \<Rightarrow> accept_error + socket_addr option" where
  "parse_proxy hdr body =
     (case body_length hdr of
        Inl e \<Rightarrow> Inl e
      | Inr len \<Rightarrow>
          if len \<noteq> length body then Inl (InvalidData ''PROXY v2 header length mismatch'')
          else if drop_bit 4 (hdr ! 12) \<noteq> 2 then Inl (InvalidData ''unsupported PROXY protocol version'')
          else if take_bit 4 (hdr ! 12) = 0 then Inr None
          else if take_bit 4 (hdr ! 12) \<noteq> 1 then Inl (InvalidData ''unsupported PROXY v2 command'')
          else if hdr ! 13 = 0x11 \<and> length body \<ge> 12
          then Inr (Some \<lparr>sa_ip = V4 (from_be [body ! 0, body ! 1, body ! 2, body ! 3]),
                 sa_port = from_be [body ! 8, body ! 9]\<rparr>)
          else if hdr ! 13 = 0x21 \<and> length body \<ge> 36
          then Inr (Some \<lparr>sa_ip = to_canonical (from_be (take 16 body)),
                 sa_port = from_be [body ! 32, body ! 33]\<rparr>)
          else Inl (InvalidData ''PROXY v2 header is not TCP over IPv4 or IPv6''))"

text \<open>
  \<^verbatim>\<open>read_exact\<close> on the bytes the peer sends; \<open>short\<close> is what happens when they run out, the
  end of the stream or the five-second timeout.
\<close>

definition read_exact :: "accept_error \<Rightarrow> nat \<Rightarrow> bytes \<Rightarrow> accept_error + bytes \<times> bytes" where
  "read_exact short n stream = (if n \<le> length stream then Inr (take n stream, drop n stream) else Inl short)"

definition read_proxy_v2 :: "accept_error \<Rightarrow> bytes \<Rightarrow> accept_error + socket_addr option \<times> bytes" where
  "read_proxy_v2 short stream =
     (case read_exact short 16 stream of
        Inl e \<Rightarrow> Inl e
      | Inr (hdr, stream) \<Rightarrow>
          (case body_length hdr of
             Inl e \<Rightarrow> Inl e
           | Inr len \<Rightarrow>
               (case read_exact short len stream of
                  Inl e \<Rightarrow> Inl e
                | Inr (body, stream) \<Rightarrow>
                    (case parse_proxy hdr body of Inl e \<Rightarrow> Inl e | Inr x \<Rightarrow> Inr (x, stream)))))"

text \<open>\<^verbatim>\<open>std::env::var\<close>.\<close>

datatype env_var = Value string | NotPresent | NotUnicode

definition is_loopback :: "ip_addr \<Rightarrow> bool" where
  "is_loopback ip = (case ip of V4 w \<Rightarrow> drop_bit 24 w = 127 | V6 w \<Rightarrow> w = 1)"

text \<open>The acceptor is its \<^verbatim>\<open>proxy_v2\<close> flag; \<open>None\<close> is a refused configuration.\<close>

definition acceptor_from_env :: "env_var \<Rightarrow> ip_addr \<Rightarrow> bool option" where
  "acceptor_from_env var bind =
     (case var of
        NotPresent \<Rightarrow> Some False
      | Value v \<Rightarrow>
          if v = '''' \<or> v = ''none'' then Some False
          else if v = ''v2'' \<and> is_loopback bind then Some True
          else None
      | NotUnicode \<Rightarrow> None)"

definition accept_client ::
  "bool \<Rightarrow> accept_error \<Rightarrow> socket_addr \<Rightarrow> bytes \<Rightarrow> accept_error + socket_addr \<times> bytes" where
  "accept_client proxy_v2 short peer stream =
     (if proxy_v2
      then (case read_proxy_v2 short stream of
              Inl e \<Rightarrow> Inl e
            | Inr (client, stream) \<Rightarrow> Inr (case client of Some a \<Rightarrow> a | None \<Rightarrow> peer, stream))
      else Inr (peer, stream))"

section \<open>A writer of headers\<close>

text \<open>
  What a proxy writes by the PROXY protocol specification for a TCP connection from
  \<open>src\<close> to \<open>dst\<close> of the same family, with optional further data \<open>tlvs\<close>.
\<close>

fun proxy_addresses :: "ip_addr \<Rightarrow> ip_addr \<Rightarrow> u8 \<times> bytes" where
  "proxy_addresses (V4 a) (V4 b) = (0x11, be_bytes 4 a @ be_bytes 4 b)"
| "proxy_addresses (V6 a) (V6 b) = (0x21, be_bytes 16 a @ be_bytes 16 b)"
| "proxy_addresses _ _ = (0, [])"

definition proxy_header :: "socket_addr \<Rightarrow> socket_addr \<Rightarrow> bytes \<Rightarrow> bytes" where
  "proxy_header src dst tlvs =
     (let (family, addrs) = proxy_addresses (sa_ip src) (sa_ip dst);
          body = addrs @ be_bytes 2 (sa_port src) @ be_bytes 2 (sa_port dst) @ tlvs
      in SIGNATURE @ [0x21, family] @ be_bytes 2 (of_nat (length body) :: u16) @ body)"

fun same_family :: "ip_addr \<Rightarrow> ip_addr \<Rightarrow> bool" where
  "same_family (V4 _) (V4 _) = True"
| "same_family (V6 _) (V6 _) = True"
| "same_family _ _ = False"

fun canonical :: "ip_addr \<Rightarrow> ip_addr" where
  "canonical (V4 a) = V4 a"
| "canonical (V6 a) = to_canonical a"

lemma be_bytes_2: "be_bytes 2 w = [be_bytes 2 w ! 0, be_bytes 2 w ! 1]"
  by (simp add: be_bytes_def numeral_2_eq_2)

lemma be_bytes_4: "be_bytes 4 w = [be_bytes 4 w ! 0, be_bytes 4 w ! 1, be_bytes 4 w ! 2, be_bytes 4 w ! 3]"
  by (simp add: be_bytes_def eval_nat_numeral)

lemma from_be_pair: "from_be [be_bytes 2 w ! 0, be_bytes 2 w ! 1] = (w :: u16)"
  using from_be_be_bytes [of 2 w] be_bytes_2 [of w] by simp

lemma from_be_quad:
  "from_be [be_bytes 4 w ! 0, be_bytes 4 w ! 1, be_bytes 4 w ! 2, be_bytes 4 w ! 3] = (w :: u32)"
  using from_be_be_bytes [of 4 w] be_bytes_4 [of w] by simp

text \<open>The header in one piece, for a body of admissible length.\<close>

lemma read_framed:
  assumes "length body \<le> MAX_BODY"
  shows "read_proxy_v2 short (SIGNATURE @ [0x21, family] @ be_bytes 2 (of_nat (length body) :: u16) @ body @ rest)
    = (case parse_proxy (SIGNATURE @ [0x21, family] @ be_bytes 2 (of_nat (length body) :: u16)) body of
         Inl e \<Rightarrow> Inl e | Inr x \<Rightarrow> Inr (x, rest))"
    and "body_length (SIGNATURE @ [0x21, family] @ be_bytes 2 (of_nat (length body) :: u16)) = Inr (length body)"
proof -
  let ?hdr = "SIGNATURE @ [0x21, family] @ be_bytes 2 (of_nat (length body) :: u16)"
  have len: "length ?hdr = 16" "?hdr ! 14 = be_bytes 2 (of_nat (length body) :: u16) ! 0"
    "?hdr ! 15 = be_bytes 2 (of_nat (length body) :: u16) ! 1" "take 12 ?hdr = SIGNATURE"
    by (simp_all add: SIGNATURE_def nth_append)
  have "unat (of_nat (length body) :: u16) = length body"
    using assms by (simp add: unsigned_of_nat take_bit_nat_eq_self MAX_BODY_def)
  then show body: "body_length ?hdr = Inr (length body)"
    using assms unfolding body_length_def len from_be_pair by (simp add: Let_def)
  have "read_exact short 16 (?hdr @ body @ rest) = Inr (?hdr, body @ rest)"
    using len(1) by (simp add: read_exact_def SIGNATURE_def)
  then show "read_proxy_v2 short (SIGNATURE @ [0x21, family] @ be_bytes 2 (of_nat (length body) :: u16) @ body @ rest)
    = (case parse_proxy ?hdr body of Inl e \<Rightarrow> Inl e | Inr x \<Rightarrow> Inr (x, rest))"
    using body by (simp add: read_proxy_v2_def read_exact_def [of short "length body"] split: sum.split)
qed

lemma read_proxy_header:
  assumes "same_family (sa_ip src) (sa_ip dst)" and "length tlvs \<le> MAX_BODY - 36"
  shows "read_proxy_v2 short (proxy_header src dst tlvs @ rest)
    = Inr (Some \<lparr>sa_ip = canonical (sa_ip src), sa_port = sa_port src\<rparr>, rest)"
proof (cases "sa_ip src")
  case (V4 a)
  with assms(1) obtain b where b: "sa_ip dst = V4 b" by (cases "sa_ip dst") auto
  let ?body = "(be_bytes 4 a @ be_bytes 4 b) @ be_bytes 2 (sa_port src) @ be_bytes 2 (sa_port dst) @ tlvs"
  have len: "length ?body \<le> MAX_BODY" using assms(2) by (simp add: MAX_BODY_def)
  have nth: "?body ! 0 = be_bytes 4 a ! 0" "?body ! 1 = be_bytes 4 a ! 1" "?body ! 2 = be_bytes 4 a ! 2"
    "?body ! 3 = be_bytes 4 a ! 3" "?body ! 8 = be_bytes 2 (sa_port src) ! 0" "?body ! 9 = be_bytes 2 (sa_port src) ! 1"
    by (simp_all add: nth_append)
  have "parse_proxy (SIGNATURE @ [0x21, 0x11] @ be_bytes 2 (of_nat (length ?body) :: u16)) ?body
      = Inr (Some \<lparr>sa_ip = V4 a, sa_port = sa_port src\<rparr>)"
    unfolding parse_proxy_def read_framed(2) [OF len] sum.case nth from_be_pair from_be_quad
    by (simp add: SIGNATURE_def nth_append)
  with read_framed(1) [OF len, of short "0x11" rest] V4 b show ?thesis
    by (simp add: proxy_header_def)
next
  case (V6 a)
  with assms(1) obtain b where b: "sa_ip dst = V6 b" by (cases "sa_ip dst") auto
  let ?body = "(be_bytes 16 a @ be_bytes 16 b) @ be_bytes 2 (sa_port src) @ be_bytes 2 (sa_port dst) @ tlvs"
  have len: "length ?body \<le> MAX_BODY" using assms(2) by (simp add: MAX_BODY_def)
  have nth: "?body ! 32 = be_bytes 2 (sa_port src) ! 0" "?body ! 33 = be_bytes 2 (sa_port src) ! 1"
    by (simp_all add: nth_append)
  have "from_be (take 16 ?body) = a" using from_be_be_bytes [of 16 a] by simp
  then have "parse_proxy (SIGNATURE @ [0x21, 0x21] @ be_bytes 2 (of_nat (length ?body) :: u16)) ?body
      = Inr (Some \<lparr>sa_ip = to_canonical a, sa_port = sa_port src\<rparr>)"
    unfolding parse_proxy_def read_framed(2) [OF len] sum.case nth from_be_pair
    by (simp add: SIGNATURE_def nth_append)
  with read_framed(1) [OF len, of short "0x21" rest] V6 b show ?thesis
    by (simp add: proxy_header_def)
qed

text \<open>C36. A PROXY v2 header names the client: the header a proxy writes for a TCP connection, with up to
  476 bytes of further data, is read as the client's address and port (an IPv4-mapped address as
  IPv4), and the bytes behind it are left for TLS.\<close>

theorem proxy_header_roundtrip:
  assumes "same_family (sa_ip src) (sa_ip dst)" and "length tlvs \<le> MAX_BODY - 36"
  shows "accept_client True short peer (proxy_header src dst tlvs @ rest)
    = Inr (\<lparr>sa_ip = canonical (sa_ip src), sa_port = sa_port src\<rparr>, rest)"
  using read_proxy_header [OF assms] by (simp add: accept_client_def)

definition example_client :: socket_addr where
  "example_client = \<lparr>sa_ip = V4 0xCB007107, sa_port = 51000\<rparr>"

theorem proxy_header_roundtrip_witness:
  "accept_client True UnexpectedEof \<lparr>sa_ip = V4 0x7F000001, sa_port = 4000\<rparr>
     (proxy_header example_client \<lparr>sa_ip = V4 0x7F000001, sa_port = 443\<rparr> [] @ [22, 3, 1])
   = Inr (example_client, [22, 3, 1])"
proof -
  have "same_family (sa_ip example_client) (sa_ip \<lparr>sa_ip = V4 0x7F000001, sa_port = 443\<rparr>)"
    by (simp add: example_client_def)
  from proxy_header_roundtrip [OF this, of "[]"] show ?thesis by (simp add: example_client_def)
qed

text \<open>C37. Nothing but a well-formed header gives a client an address of its choice: when the acceptor
  that expects PROXY headers returns, the connection began with the signature, version 2 and a
  command of LOCAL, for which the address is the TCP peer, or PROXY; it has read exactly the
  header with its declared length of at most 512 bytes.\<close>

theorem proxy_header_required:
  assumes "accept_client True short peer stream = Inr (client, rest)"
  shows "\<exists>hdr body. stream = hdr @ body @ rest \<and> length hdr = 16 \<and> length body \<le> MAX_BODY
    \<and> take 12 hdr = SIGNATURE \<and> length body = unat (from_be [hdr ! 14, hdr ! 15] :: u16)
    \<and> (hdr ! 12 = 0x20 \<and> client = peer \<or> hdr ! 12 = 0x21 \<and> hdr ! 13 \<in> {0x11, 0x21})"
proof -
  from assms obtain x where read: "read_proxy_v2 short stream = Inr (x, rest)"
    and client: "client = (case x of Some a \<Rightarrow> a | None \<Rightarrow> peer)"
    by (auto simp: accept_client_def split: sum.splits)
  define hdr where "hdr = take 16 stream"
  from read obtain len where len: "body_length hdr = Inr len" and long: "16 + len \<le> length stream"
    and x: "parse_proxy hdr (take len (drop 16 stream)) = Inr x" and rest: "rest = drop len (drop 16 stream)"
    by (auto simp: read_proxy_v2_def read_exact_def hdr_def split: sum.splits if_splits)
  define body where "body = take len (drop 16 stream)"
  have hdr: "stream = hdr @ body @ rest" "length hdr = 16" "length body = len"
    using long unfolding hdr_def body_def rest by (simp_all del: drop_drop)
  note x = x [folded body_def]
  have nibbles: "w = 0x20" if "drop_bit 4 w = 2" "take_bit 4 w = 0" for w :: u8
    using that bits_ident [of 4 w] by simp
  have nibbles': "w = 0x21" if "drop_bit 4 w = 2" "take_bit 4 w = 1" for w :: u8
    using that bits_ident [of 4 w] by simp
  from x len hdr(3) have "hdr ! 12 = 0x20 \<and> x = None \<or> hdr ! 12 = 0x21 \<and> hdr ! 13 \<in> {0x11, 0x21}"
    by (auto simp: parse_proxy_def split: if_splits intro: nibbles nibbles')
  with hdr len client show ?thesis
    by (intro exI [of _ hdr] exI [of _ body]) (auto simp: body_length_def Let_def split: if_splits)
qed

theorem proxy_header_required_witness:
  "\<exists>hdr body. SIGNATURE @ [0x20, 0, 0, 0, 22, 3, 1] = hdr @ body @ [22, 3, 1] \<and> length hdr = 16 \<and> hdr ! 12 = 0x20"
proof -
  have run: "accept_client True UnexpectedEof example_client (SIGNATURE @ [0x20, 0, 0, 0, 22, 3, 1])
      = Inr (example_client, [22, 3, 1])" by code_simp
  from proxy_header_required [OF run] obtain hdr body where h:
    "SIGNATURE @ [0x20, 0, 0, 0, 22, 3, 1] = hdr @ body @ [22, 3, 1]" "length hdr = 16" by blast
  from h(2) have "hdr ! 12 = (hdr @ body @ [22, 3, 1]) ! 12" by (simp add: nth_append)
  also have "\<dots> = 0x20" unfolding h(1) [symmetric] by (simp add: SIGNATURE_def)
  finally show ?thesis using h by blast
qed

end
