(* ===== verification/Receipt_Signer.thy ===== *)
theory Receipt_Signer
  imports Protocol Client_Addr Store_Installations
begin

text \<open>
  The signer of allocation receipts (\<^verbatim>\<open>crates/bloom-relay-control/src/receipt_signer.rs\<close>): a
  local seed or an AWS KMS key, its choice from the environment, and the signature that is
  checked against the public key before it is returned. Ed25519 and KMS are parameters. The
  lemmas give the shape of every signature that leaves the signer, and what a signer that passed
  start-up is.
\<close>

section \<open>Parameters\<close>

text \<open>
  What KMS answers to \<^verbatim>\<open>GetPublicKey\<close>: \<open>kk_ed25519\<close> is \<^verbatim>\<open>key_spec\<close> being
  \<^verbatim>\<open>ECC_NIST_EDWARDS25519\<close>, \<open>kk_sign_verify\<close> is \<^verbatim>\<open>key_usage\<close> being \<^verbatim>\<open>SIGN_VERIFY\<close>.
\<close>

record kms_key =
  kk_ed25519 :: bool
  kk_sign_verify :: bool
  kk_public_key :: "bytes option"

text \<open>
  \<open>sg_public\<close> and \<open>sg_sign\<close> are \<^verbatim>\<open>SigningKey::verifying_key\<close> and \<^verbatim>\<open>SigningKey::sign\<close> of a seed;
  \<open>sg_get_public_key\<close> and \<open>sg_kms_sign\<close> are the two KMS requests, by the key's ARN, where an
  outer \<open>None\<close> is a failed request and an inner one an answer without the field.
\<close>

record signer_prims =
  sg_public :: "bytes \<Rightarrow> bytes"
  sg_sign :: "bytes \<Rightarrow> bytes \<Rightarrow> bytes"
  sg_get_public_key :: "string \<Rightarrow> kms_key option"
  sg_kms_sign :: "string \<Rightarrow> bytes \<Rightarrow> bytes option option"

datatype signer_error =
    NotKmsArn
  | GetPublicKeyFailed
  | NotEd25519Key
  | NoPublicKey
  | NotEd25519Spki
  | NotAPoint
  | KeyPathUnset
  | KeyFileUnreadable
  | WrongSeedLength
  | UnexpectedPublicKey
  | KmsSignFailed
  | NoSignature
  | MalformedSignature
  | SignatureRejected

section \<open>The signer\<close>

definition ED25519_SPKI_PREFIX :: bytes where
  "ED25519_SPKI_PREFIX = [0x30, 0x2a, 0x30, 0x05, 0x06, 0x03, 0x2b, 0x65, 0x70, 0x03, 0x21, 0x00]"

datatype receipt_signer = Local bytes | Kms string bytes

fun public_key :: "signer_prims \<Rightarrow> receipt_signer \<Rightarrow> bytes" where
  "public_key S (Local seed) = sg_public S seed"
| "public_key S (Kms key_arn public) = public"

definition signer_kms :: "prims \<Rightarrow> signer_prims \<Rightarrow> string \<Rightarrow> signer_error + receipt_signer" where
  "signer_kms P S key_arn =
     (case sg_get_public_key S key_arn of
        None \<Rightarrow> Inl GetPublicKeyFailed
      | Some out \<Rightarrow>
          if \<not> kk_ed25519 out \<or> \<not> kk_sign_verify out then Inl NotEd25519Key
          else (case kk_public_key out of
            None \<Rightarrow> Inl NoPublicKey
          | Some der \<Rightarrow>
              (case strip_prefix ED25519_SPKI_PREFIX der of
                 None \<Rightarrow> Inl NotEd25519Spki
               | Some raw \<Rightarrow>
                   if length raw \<noteq> 32 then Inl NotEd25519Spki
                   else if \<not> p_key_ok P raw then Inl NotAPoint
                   else Inr (Kms key_arn raw))))"

definition signature_of :: "signer_prims \<Rightarrow> receipt_signer \<Rightarrow> bytes \<Rightarrow> signer_error + bytes" where
  "signature_of S signer message =
     (case signer of
        Local seed \<Rightarrow> Inr (sg_sign S seed message)
      | Kms key_arn _ \<Rightarrow>
          (case sg_kms_sign S key_arn message of
             None \<Rightarrow> Inl KmsSignFailed
           | Some None \<Rightarrow> Inl NoSignature
           | Some (Some bs) \<Rightarrow> if length bs \<noteq> 64 then Inl MalformedSignature else Inr bs))"

definition signer_sign :: "prims \<Rightarrow> signer_prims \<Rightarrow> receipt_signer \<Rightarrow> bytes \<Rightarrow> signer_error + bytes" where
  "signer_sign P S signer message =
     (case signature_of S signer message of
        Inl e \<Rightarrow> Inl e
      | Inr sig \<Rightarrow>
          if p_verify P (public_key S signer) message sig then Inr sig else Inl SignatureRejected)"

section \<open>Configuration\<close>

text \<open>\<^verbatim>\<open>str::split\<close> at one character.\<close>

fun split_at :: "char \<Rightarrow> string \<Rightarrow> string list" where
  "split_at c [] = [[]]"
| "split_at c (x # xs) =
     (if x = c then [] # split_at c xs
      else (case split_at c xs of [] \<Rightarrow> [[x]] | p # ps \<Rightarrow> (x # p) # ps))"

definition kms_region :: "string \<Rightarrow> signer_error + string" where
  "kms_region key_arn =
     (case split_at (CHR '':'') key_arn of
        [a, _, k, region, _, key] \<Rightarrow>
          if a = ''arn'' \<and> k = ''kms'' \<and> region \<noteq> [] \<and> strip_prefix ''key/'' key \<noteq> None
          then Inr region else Inl NotKmsArn
      | _ \<Rightarrow> Inl NotKmsArn)"

text \<open>\<^verbatim>\<open>env::var(..).ok().filter(|v| !v.is_empty())\<close>.\<close>

definition set_var :: "env_var \<Rightarrow> string option" where
  "set_var v = (case v of Value s \<Rightarrow> if s = [] then None else Some s | _ \<Rightarrow> None)"

text \<open>\<^verbatim>\<open>str::trim\<close>, on ASCII text.\<close>

definition is_space :: "char \<Rightarrow> bool" where
  "is_space c \<longleftrightarrow> byte_of c = 32 \<or> 9 \<le> byte_of c \<and> byte_of c \<le> 13"

definition trim :: "string \<Rightarrow> string" where
  "trim s = trim_end_matches is_space (dropWhile is_space s)"

definition configured_signer ::
  "prims \<Rightarrow> signer_prims \<Rightarrow> (string \<Rightarrow> bytes option) \<Rightarrow> env_var \<Rightarrow> env_var \<Rightarrow> signer_error + receipt_signer" where
  "configured_signer P S read_file kms_arn key_path =
     (case set_var kms_arn of
        Some key_arn \<Rightarrow>
          (case kms_region key_arn of Inl e \<Rightarrow> Inl e | Inr _ \<Rightarrow> signer_kms P S key_arn)
      | None \<Rightarrow>
          (case key_path of
             Value path \<Rightarrow>
               (case read_file path of
                  None \<Rightarrow> Inl KeyFileUnreadable
                | Some seed \<Rightarrow> if length seed \<noteq> 32 then Inl WrongSeedLength else Inr (Local seed))
           | _ \<Rightarrow> Inl KeyPathUnset))"

text \<open>
  \<^verbatim>\<open>ReceiptSigner::from_env\<close>, on the values of its three variables and the files of the host.
\<close>

definition signer_from_env ::
  "prims \<Rightarrow> signer_prims \<Rightarrow> (string \<Rightarrow> bytes option) \<Rightarrow> env_var \<Rightarrow> env_var \<Rightarrow> env_var
     \<Rightarrow> signer_error + receipt_signer" where
  "signer_from_env P S read_file kms_arn key_path expected_public =
     (case configured_signer P S read_file kms_arn key_path of
        Inl e \<Rightarrow> Inl e
      | Inr signer \<Rightarrow>
          (case set_var expected_public of
             None \<Rightarrow> Inr signer
           | Some expected \<Rightarrow>
               if hex_encode (public_key S signer) \<noteq> to_ascii_lowercase (trim expected)
               then Inl UnexpectedPublicKey else Inr signer))"

section \<open>Facts\<close>

text \<open>The documented sizes of Ed25519: 32-byte public keys that decode, 64-byte signatures.\<close>

definition ed25519_local :: "prims \<Rightarrow> signer_prims \<Rightarrow> bool" where
  "ed25519_local P S \<longleftrightarrow>
     (\<forall>seed. length (sg_public S seed) = 32 \<and> p_key_ok P (sg_public S seed))
     \<and> (\<forall>seed m. length (sg_sign S seed m) = 64)"

definition signer_ok :: "prims \<Rightarrow> signer_prims \<Rightarrow> receipt_signer \<Rightarrow> bool" where
  "signer_ok P S signer \<longleftrightarrow>
     length (public_key S signer) = 32 \<and> p_key_ok P (public_key S signer)"

lemma signer_sign_Inr:
  assumes "ed25519_local P S" and "signer_sign P S signer m = Inr sig"
  shows "length sig = 64 \<and> p_verify P (public_key S signer) m sig"
  using assms
  by (auto simp: signer_sign_def signature_of_def ed25519_local_def
      split: sum.splits if_splits receipt_signer.splits option.splits)

lemma configured_signer_ok:
  assumes "ed25519_local P S" and "configured_signer P S read_file arn path = Inr signer"
  shows "signer_ok P S signer"
  using assms
  by (auto simp: configured_signer_def signer_kms_def signer_ok_def ed25519_local_def
      split: sum.splits if_splits option.splits env_var.splits)

lemma signer_from_env_ok:
  assumes "ed25519_local P S" and "signer_from_env P S read_file arn path expected = Inr signer"
  shows "signer_ok P S signer"
  using assms configured_signer_ok [OF assms(1)]
  by (auto simp: signer_from_env_def split: sum.splits if_splits option.splits)

text \<open>Splitting inverts joining: the pieces are the text between the separators.\<close>

lemma split_at_nonempty [simp]: "split_at c s \<noteq> []"
  by (induction s) (auto split: list.split)

fun join_at :: "char \<Rightarrow> string list \<Rightarrow> string" where
  "join_at c [] = []"
| "join_at c [p] = p"
| "join_at c (p # ps) = p @ [c] @ join_at c ps"

lemma join_at_Cons: "ps \<noteq> [] \<Longrightarrow> join_at c (p # ps) = p @ [c] @ join_at c ps"
  by (cases ps) auto

lemma join_split_at: "join_at c (split_at c s) = s"
proof (induction s)
  case (Cons x xs)
  then show ?case
    by (cases "split_at c xs") (auto simp: join_at_Cons split: list.splits, metis append_Cons join_at.simps(2) join_at_Cons)
qed simp

lemma split_at_piece: "c \<notin> set p \<Longrightarrow> split_at c (p @ c # s) = p # split_at c s"
  by (induction p) auto

lemma split_at_last: "c \<notin> set p \<Longrightarrow> split_at c p = [p]"
  by (induction p) auto

lemma kms_region_Inr:
  "kms_region arn = Inr region \<Longrightarrow> region \<noteq> []
    \<and> (\<exists>part account key. arn = ''arn:'' @ part @ '':kms:'' @ region @ '':'' @ account @ '':key/'' @ key)"
proof -
  assume *: "kms_region arn = Inr region"
  then obtain part account key where
    "split_at (CHR '':'') arn = [''arn'', part, ''kms'', region, account, ''key/'' @ key]" "region \<noteq> []"
    unfolding kms_region_def by (auto simp: strip_prefix_Some split: list.splits if_splits)
  with join_split_at [of "CHR '':''" arn]
  have "arn = ''arn:'' @ part @ '':kms:'' @ region @ '':'' @ account @ '':key/'' @ key" by simp
  with \<open>region \<noteq> []\<close> show ?thesis by blast
qed

end
