(* ===== verification/Control_Api.thy ===== *)
theory Control_Api
  imports Control_Messages Receipt_Signer Store_Steps
begin

text \<open>
  The control API (\<^verbatim>\<open>crates/bloom-relay-control/src/main.rs\<close>): its configuration, the
  authorization of administrators and of DNS bearers, every handler, and the periodic sweep. A
  handler is a function on the world of the store. Between its calls of the store the other
  processes of the relay run (\<open>cx_between\<close>); a call may find the database down or lose the
  answer of a committed transaction.
\<close>

section \<open>Errors\<close>

datatype api_error = ApiError nat error_code bool

definition unauthorized :: api_error where
  "unauthorized = ApiError 401 CodeUnauthorized False"

definition unavailable :: api_error where
  "unavailable = ApiError 503 CodeDependencyUnavailable True"

definition invalid :: api_error where
  "invalid = ApiError 400 CodeInvalidRequest False"

definition conflict :: "bool \<Rightarrow> api_error" where
  "conflict retryable = ApiError 409 CodeConflict retryable"

definition gone :: api_error where
  "gone = ApiError 410 CodeExpiredOrReplayed False"

definition too_many_requests :: api_error where
  "too_many_requests = ApiError 429 CodeQuotaExceeded True"

section \<open>Calls of the store\<close>

datatype fate = Served | Down | Lost

text \<open>
  What surrounds one request: for its \<open>k\<close>-th call of the store, what the other processes do
  before it, its fate, the time of its transaction and the answers of the disk; and the \<open>k\<close>-th
  reading of the host's clock, \<^verbatim>\<open>now_ms()\<close>.
\<close>

record 'r exchange =
  cx_between :: "nat \<Rightarrow> 'r world \<Rightarrow> 'r world"
  cx_fate :: "nat \<Rightarrow> fate"
  cx_now :: "nat \<Rightarrow> timestamp"
  cx_faults :: "nat \<Rightarrow> faults"
  cx_ms :: "nat \<Rightarrow> u64"

type_synonym ('r, 'a) api = "'r world \<Rightarrow> (api_error + 'a) \<times> 'r world"

definition reject :: "api_error \<Rightarrow> ('r, 'a) api" where
  "reject e w = (Inl e, w)"

definition answer :: "'a \<Rightarrow> ('r, 'a) api" where
  "answer a w = (Inr a, w)"

text \<open>Sequencing with the \<^verbatim>\<open>?\<close> operator.\<close>

definition continue :: "('r, 'a) api \<Rightarrow> ('a \<Rightarrow> ('r, 'b) api) \<Rightarrow> ('r, 'b) api" where
  "continue m f w = (case m w of (Inl e, w') \<Rightarrow> (Inl e, w') | (Inr a, w') \<Rightarrow> f a w')"

text \<open>A call of the store with its \<^verbatim>\<open>map_err\<close>.\<close>

definition ask ::
  "'r exchange \<Rightarrow> nat \<Rightarrow> (store_error \<Rightarrow> api_error)
     \<Rightarrow> (timestamp \<Rightarrow> faults \<Rightarrow> 'r world \<Rightarrow> (store_error + 'a) \<times> 'r world) \<Rightarrow> ('r, 'a) api" where
  "ask cx k err f w =
     (let w = cx_between cx k w in
      case cx_fate cx k of
        Down \<Rightarrow> (Inl (err SUnavailable), w)
      | Lost \<Rightarrow> (Inl (err SUnavailable), snd (f (cx_now cx k) (cx_faults cx k) w))
      | Served \<Rightarrow>
          (case f (cx_now cx k) (cx_faults cx k) w of
             (Inl e, w') \<Rightarrow> (Inl (err e), w')
           | (Inr a, w') \<Rightarrow> (Inr a, w')))"

text \<open>The functions of other crates the API calls, with the canonical JSON of each signed body.\<close>

record api_prims =
  a_prims :: prims
  a_b32 :: "bytes \<Rightarrow> string"
  a_signer :: signer_prims
  a_hex_decode :: "string \<Rightarrow> bytes option"
  a_parse_uuid :: "string \<Rightarrow> uuid option"
  a_jcs_allocate :: "allocate_request \<Rightarrow> bytes option"
  a_jcs_issue :: "credential_issue_request \<Rightarrow> bytes option"
  a_jcs_acme :: "acme_account_request \<Rightarrow> bytes option"
  a_jcs_status :: "installation_status_request \<Rightarrow> bytes option"
  a_jcs_retire :: "retire_request \<Rightarrow> bytes option"

record 'r app_state =
  st_store :: "'r store_cfg"
  st_signer :: receipt_signer
  st_audience :: string
  st_placement :: string

text \<open>The headers as \<^verbatim>\<open>get(..).and_then(|v| v.to_str().ok())\<close> reads them.\<close>

type_synonym headers = "string \<Rightarrow> string option"

definition api_bearer :: "headers \<Rightarrow> string option" where
  "api_bearer headers = Option.bind (headers ''authorization'') (strip_prefix ''Bearer '')"

section \<open>Configuration\<close>

definition parse_acme_environment :: "string option \<Rightarrow> protocol_error + acme_environment" where
  "parse_acme_environment configured =
     acme_environment_from_str (case configured of None \<Rightarrow> ''production'' | Some v \<Rightarrow> v)"

definition acme_environment_from_env :: "env_var \<Rightarrow> protocol_error + acme_environment" where
  "acme_environment_from_env configured =
     (case configured of
        Value value \<Rightarrow> parse_acme_environment (Some value)
      | NotPresent \<Rightarrow> parse_acme_environment None
      | NotUnicode \<Rightarrow> Inl InvalidAcmeEnvironment)"

datatype windows_error = NotSeconds string | NotAsciiDigits string | OutOfRange

definition seconds_from_env :: "string \<Rightarrow> env_var \<Rightarrow> duration \<Rightarrow> windows_error + duration" where
  "seconds_from_env name value fallback =
     (case value of
        NotPresent \<Rightarrow> Inr fallback
      | Value raw \<Rightarrow>
          (case parse_u64 (as_bytes raw) of
             None \<Rightarrow> Inl (NotSeconds name)
           | Some n \<Rightarrow> Inr (from_secs (uint n)))
      | NotUnicode \<Rightarrow> Inl (NotAsciiDigits name))"

definition credential_windows_from_env :: "env_var \<Rightarrow> env_var \<Rightarrow> windows_error + credential_windows" where
  "credential_windows_from_env validity renewal_grace =
     (case seconds_from_env ''BLOOM_RELAY_CREDENTIAL_VALIDITY_SECONDS'' validity
             (cw_validity windows_default) of
        Inl e \<Rightarrow> Inl e
      | Inr validity \<Rightarrow>
          (case seconds_from_env ''BLOOM_RELAY_CREDENTIAL_RENEWAL_GRACE_SECONDS'' renewal_grace
                  (cw_renewal_grace windows_default) of
             Inl e \<Rightarrow> Inl e
           | Inr renewal_grace \<Rightarrow>
               (case windows_new validity renewal_grace of
                  Inl _ \<Rightarrow> Inl OutOfRange
                | Inr windows \<Rightarrow> Inr windows)))"

section \<open>Authorization\<close>

definition authenticate_dns ::
  "api_prims \<Rightarrow> 'r exchange \<Rightarrow> nat \<Rightarrow> headers \<Rightarrow> uuid \<Rightarrow> u64 option \<Rightarrow> ('r, u64) api" where
  "authenticate_dns A cx k headers i generation =
     (case api_bearer headers of
        None \<Rightarrow> reject unauthorized
      | Some bearer \<Rightarrow>
          continue (ask cx k (\<lambda>_. unavailable) (\<lambda>now fl w.
            (Inr (authenticate_bearer_with_state (a_prims A) now (w_db w) i ''dns_challenge'' bearer), w)))
          (\<lambda>found. case found of
             Some (observed, DnsReady) \<Rightarrow>
               if generation \<noteq> None \<and> generation \<noteq> Some observed then reject unauthorized
               else answer observed
           | Some (_, PendingDns) \<Rightarrow> reject (conflict True)
           | _ \<Rightarrow> reject unauthorized))"

text \<open>\<^verbatim>\<open>authorize_admin\<close>; \<open>jcs\<close> is \<^verbatim>\<open>serde_jcs::to_vec\<close> at the type of the body.\<close>

definition authorize_admin ::
  "api_prims \<Rightarrow> ('b \<Rightarrow> bytes option) \<Rightarrow> 'r app_state \<Rightarrow> 'r exchange \<Rightarrow> 'b signed_request \<Rightarrow> action
     \<Rightarrow> ('r, unit) api" where
  "authorize_admin A jcs st cx request act =
     (let i = ac_installation_id (sr_claims request) in
      continue (ask cx 0 (\<lambda>_. unavailable) (\<lambda>now fl w. (admin_public_key (w_db w) i, w)))
      (\<lambda>found. case found of
         None \<Rightarrow> reject unauthorized
       | Some key \<Rightarrow>
           if \<not> p_key_ok (a_prims A) key then reject unavailable
           else (case jcs (sr_body request) of
             None \<Rightarrow> reject invalid
           | Some body \<Rightarrow>
               (case claims_verify (a_prims A) (sr_claims request) body (sr_signature request) key
                       (SurfaceAdmin, act) (st_audience st) (cx_ms cx 0) of
                  Inl _ \<Rightarrow> reject unauthorized
                | Inr _ \<Rightarrow>
                    continue (ask cx 1 (\<lambda>_. unavailable) (\<lambda>now fl. consume_nonce now i (ac_nonce (sr_claims request))))
                    (\<lambda>fresh. if \<not> fresh then reject gone else answer ())))))"

section \<open>Administrator requests\<close>

definition api_installation_status ::
  "api_prims \<Rightarrow> 'r app_state \<Rightarrow> 'r exchange \<Rightarrow> installation_status_request signed_request
     \<Rightarrow> ('r, allocation) api" where
  "api_installation_status A st cx request =
     (if is_installation_id (sr_body request) \<noteq> ac_installation_id (sr_claims request) then reject unauthorized
      else continue (authorize_admin A (a_jcs_status A) st cx request InstallationStatus) (\<lambda>_.
        continue (ask cx 2 (\<lambda>_. unavailable) (\<lambda>now fl w.
          (Inr (allocation_status (w_db w) (is_installation_id (sr_body request))), w)))
        (\<lambda>found. case found of None \<Rightarrow> reject unauthorized | Some a \<Rightarrow> answer a)))"

text \<open>The handlers that answer with a status alone return it, 202 or 204.\<close>

definition conflict_or_unavailable :: "store_error \<Rightarrow> api_error" where
  "conflict_or_unavailable e = (if e = SConflict then conflict False else unavailable)"

definition api_retire_installation ::
  "api_prims \<Rightarrow> 'r app_state \<Rightarrow> 'r exchange \<Rightarrow> retire_request signed_request \<Rightarrow> ('r, nat) api" where
  "api_retire_installation A st cx request =
     (if rt_installation_id (sr_body request) \<noteq> ac_installation_id (sr_claims request) then reject unauthorized
      else continue (authorize_admin A (a_jcs_retire A) st cx request RetireInstallation) (\<lambda>_.
        continue (ask cx 2 conflict_or_unavailable (\<lambda>now fl.
          retire (a_prims A) (st_store st) fl now (rt_installation_id (sr_body request))
            (ac_operation_id (sr_claims request))))
        (\<lambda>_. answer 202)))"

definition invalid_or_conflict :: "store_error \<Rightarrow> api_error" where
  "invalid_or_conflict e =
     (if e = SInvalidRequest then invalid else if e = SConflict then conflict False else unavailable)"

definition api_register_acme_account ::
  "api_prims \<Rightarrow> 'r app_state \<Rightarrow> 'r exchange \<Rightarrow> acme_account_request signed_request \<Rightarrow> ('r, nat) api" where
  "api_register_acme_account A st cx request =
     continue (authorize_admin A (a_jcs_acme A) st cx request RegisterAcmeAccount) (\<lambda>_.
       continue (ask cx 2 invalid_or_conflict (\<lambda>now fl.
         register_acme_account (st_store st) fl now (ac_installation_id (sr_claims request))
           (aa_account_uri (sr_body request))))
       (\<lambda>_. answer 202))"

text \<open>\<^verbatim>\<open>hex::decode\<close> into 32 bytes.\<close>

definition token_hash :: "api_prims \<Rightarrow> string \<Rightarrow> bytes option" where
  "token_hash A hex =
     (case a_hex_decode A hex of None \<Rightarrow> None | Some h \<Rightarrow> if length h = 32 then Some h else None)"

definition api_issue_credential ::
  "api_prims \<Rightarrow> 'r app_state \<Rightarrow> 'r exchange \<Rightarrow> credential_issue_request signed_request
     \<Rightarrow> ('r, credential_issue_receipt) api" where
  "api_issue_credential A st cx request =
     (if ci_scope (sr_body request) \<notin> bearer_scopes then reject invalid
      else continue (authorize_admin A (a_jcs_issue A) st cx request IssueCredential) (\<lambda>_.
        case token_hash A (ci_token_sha256 (sr_body request)) of
          None \<Rightarrow> reject invalid
        | Some hash \<Rightarrow>
            continue (ask cx 2 (\<lambda>_. unavailable) (\<lambda>now fl.
              issue_bearer (a_prims A) (st_store st) fl now (ac_installation_id (sr_claims request))
                (ac_operation_id (sr_claims request)) (scope_name (ci_scope (sr_body request))) hash
                (as_i32 (ci_validity_seconds (sr_body request)))))
            (\<lambda>(generation, expires_at_ms).
              answer \<lparr>cir_version = WIRE_VERSION, cir_scope = ci_scope (sr_body request),
                cir_generation = generation, cir_operation_id = ac_operation_id (sr_claims request),
                cir_expires_at_ms = expires_at_ms\<rparr>)))"

section \<open>Bearer requests\<close>

definition ensure_error :: "store_error \<Rightarrow> api_error" where
  "ensure_error e =
     (if e = SInvalidRequest then invalid
      else if e = SUnauthorized then unauthorized
      else if e = SConflict then conflict True
      else unavailable)"

definition api_ensure_dns_challenge ::
  "api_prims \<Rightarrow> 'r app_state \<Rightarrow> 'r exchange \<Rightarrow> headers \<Rightarrow> dns_challenge_ensure_request
     \<Rightarrow> ('r, dns_challenge_state) api" where
  "api_ensure_dns_challenge A st cx headers request =
     (if de_version request \<noteq> WIRE_VERSION then reject invalid
      else continue (authenticate_dns A cx 0 headers (de_installation_id request) None) (\<lambda>generation.
        continue (ask cx 1 ensure_error (\<lambda>now fl.
          ensure_challenge_value (st_store st) fl now (de_installation_id request) generation
            (de_txt_value request)))
        (\<lambda>(revision, expires_at_ms).
          answer \<lparr>ds_version = WIRE_VERSION, ds_revision = revision, ds_expires_at_ms = expires_at_ms\<rparr>)))"

definition api_dns_challenge_ready ::
  "api_prims \<Rightarrow> 'r exchange \<Rightarrow> headers \<Rightarrow> uuid \<Rightarrow> u64 \<Rightarrow> string \<Rightarrow> ('r, nat) api" where
  "api_dns_challenge_ready A cx headers i revision value =
     continue (authenticate_dns A cx 0 headers i None) (\<lambda>_.
       continue (ask cx 1 (\<lambda>e. if e = SInvalidRequest then invalid else unavailable) (\<lambda>now fl w.
         (challenge_value_ready now (w_db w) i value revision, w)))
       (\<lambda>ready. answer (if ready then 204 else 202)))"

definition api_record_certificate ::
  "api_prims \<Rightarrow> 'r app_state \<Rightarrow> 'r exchange \<Rightarrow> headers \<Rightarrow> certificate_metadata \<Rightarrow> ('r, nat) api" where
  "api_record_certificate A st cx headers certificate =
     (case Option.bind (headers ''x-bloom-installation'') (a_parse_uuid A) of
        None \<Rightarrow> reject invalid
      | Some i \<Rightarrow>
          continue (authenticate_dns A cx 0 headers i None) (\<lambda>_.
            continue (ask cx 1 invalid_or_conflict (\<lambda>now fl.
              record_expected_certificate (st_store st) fl i certificate))
            (\<lambda>_. answer 202)))"

definition renew_error :: "store_error \<Rightarrow> api_error" where
  "renew_error e =
     (if e = SConflict then conflict False else if e = SUnauthorized then unauthorized else unavailable)"

definition api_renew_credential ::
  "api_prims \<Rightarrow> 'r app_state \<Rightarrow> 'r exchange \<Rightarrow> headers \<Rightarrow> credential_renew_request
     \<Rightarrow> ('r, credential_issue_receipt) api" where
  "api_renew_credential A st cx headers request =
     (if rn_version request \<noteq> WIRE_VERSION
         \<or> rn_scope request \<notin> bearer_scopes
         \<or> rn_expires_at_ms request \<le> cx_ms cx 0
         \<or> rn_expires_at_ms request > saturating_add (cx_ms cx 1) 60000
         \<or> length (rn_nonce request) < 16
         \<or> length (rn_nonce request) > 128
      then reject invalid
      else (case api_bearer headers of
        None \<Rightarrow> reject unauthorized
      | Some bearer \<Rightarrow>
          (case token_hash A (rn_new_token_sha256 request) of
             None \<Rightarrow> reject invalid
           | Some hash \<Rightarrow>
               continue (ask cx 0 renew_error (\<lambda>now fl.
                 renew_bearer (a_prims A) (st_store st) fl now (rn_installation_id request)
                   (rn_operation_id request) (scope_name (rn_scope request)) (rn_generation request)
                   bearer hash))
               (\<lambda>(generation, expires_at_ms).
                 answer \<lparr>cir_version = WIRE_VERSION, cir_scope = rn_scope request,
                   cir_generation = generation, cir_operation_id = rn_operation_id request,
                   cir_expires_at_ms = expires_at_ms\<rparr>))))"

section \<open>Enrollment\<close>

text \<open>\<open>random\<close> is what \<^verbatim>\<open>OsRng\<close> fills in.\<close>

definition api_challenge ::
  "api_prims \<Rightarrow> 'r app_state \<Rightarrow> 'r exchange \<Rightarrow> bytes \<Rightarrow> socket_addr
     \<Rightarrow> ('r, bootstrap_challenge_message) api" where
  "api_challenge A st cx random source =
     (let nonce = p_b64_encode (a_prims A) random in
      continue (ask cx 0 (\<lambda>_. unavailable) (\<lambda>now fl.
        create_bootstrap_challenge (st_store st) fl now nonce (sa_ip source)))
      (\<lambda>created. if \<not> created then reject too_many_requests
        else answer \<lparr>bm_version = WIRE_VERSION, bm_nonce = nonce, bm_expires_at_ms = cx_ms cx 0 + 60000\<rparr>))"

definition decoded_key :: "prims \<Rightarrow> string \<Rightarrow> bytes option" where
  "decoded_key P encoded =
     (case p_b64_decode P encoded of
        None \<Rightarrow> None
      | Some key \<Rightarrow> if length key = 32 \<and> p_key_ok P key then Some key else None)"

text \<open>The last part of \<^verbatim>\<open>enroll\<close>: the receipt of an allocation and its signature.\<close>

definition sign_receipt ::
  "api_prims \<Rightarrow> 'r app_state \<Rightarrow> allocation \<Rightarrow> uuid \<Rightarrow> bytes \<Rightarrow> u64 \<Rightarrow> ('r, allocation_receipt) api" where
  "sign_receipt A st a op key issued_at_ms =
     (let receipt = \<lparr>ar_allocation = a, ar_operation_id = op,
            ar_admin_key_sha256 = sha256_hex (a_prims A) key, ar_issued_at_ms = issued_at_ms,
            ar_signature = ''''\<rparr>
      in case signed_bytes (a_prims A) receipt of
        Inl _ \<Rightarrow> reject unavailable
      | Inr message \<Rightarrow>
          (case signer_sign (a_prims A) (a_signer A) (st_signer st) message of
             Inl _ \<Rightarrow> reject unavailable
           | Inr sig \<Rightarrow> answer (receipt\<lparr>ar_signature := p_b64_encode (a_prims A) sig\<rparr>)))"

text \<open>\<open>i\<close> and \<open>random\<close> are the identifier and the label bytes \<^verbatim>\<open>Store::allocate\<close> draws.\<close>

definition api_enroll ::
  "api_prims \<Rightarrow> 'r app_state \<Rightarrow> 'r exchange \<Rightarrow> uuid \<Rightarrow> bytes \<Rightarrow> socket_addr
     \<Rightarrow> allocate_request signed_request \<Rightarrow> ('r, allocation_receipt) api" where
  "api_enroll A st cx i random source request =
     (case decoded_key (a_prims A) (aq_admin_public_key (sr_body request)) of
        None \<Rightarrow> reject invalid
      | Some key \<Rightarrow>
          (case a_jcs_allocate A (sr_body request) of
             None \<Rightarrow> reject invalid
           | Some body \<Rightarrow>
               if ac_installation_id (sr_claims request) \<noteq> 0
                  \<or> ac_operation_id (sr_claims request) \<noteq> aq_operation_id (sr_body request)
                  \<or> ac_nonce (sr_claims request) \<noteq> aq_bootstrap_nonce (sr_body request)
               then reject unauthorized
               else (case claims_verify (a_prims A) (sr_claims request) body (sr_signature request) key
                            (SurfaceAdmin, Enroll) (st_audience st) (cx_ms cx 0) of
                 Inl _ \<Rightarrow> reject unauthorized
               | Inr _ \<Rightarrow>
                   continue (ask cx 0 (\<lambda>_. unavailable) (\<lambda>now fl.
                     consume_bootstrap_challenge now (aq_bootstrap_nonce (sr_body request)) (sa_ip source)))
                   (\<lambda>consumed. if \<not> consumed then reject gone
                     else continue (ask cx 1 conflict_or_unavailable (\<lambda>now fl.
                       allocate (a_b32 A) (st_store st) fl now i random (aq_operation_id (sr_body request)) key
                         (st_placement st)))
                     (\<lambda>a. sign_receipt A st a (aq_operation_id (sr_body request)) key (cx_ms cx 1))))))"

section \<open>The periodic sweep\<close>

text \<open>
  One round of the sweeper: each of the three statements runs, whatever became of the one before.
  \<open>now\<close> and \<open>fl\<close> give the times and the disk of each. The certificate gauge it also reads is
  telemetry.
\<close>

definition sweep_round ::
  "'r store_cfg \<Rightarrow> (nat \<Rightarrow> nat \<Rightarrow> faults) \<Rightarrow> (nat \<Rightarrow> nat \<Rightarrow> timestamp) \<Rightarrow> 'r world \<Rightarrow> 'r world" where
  "sweep_round cfg fl now w =
     (let w = snd (expire_pending_allocations cfg (fl 0) (now 0) 100 w);
          w = snd (expire_challenge_values cfg (fl 1) (now 1) 100 w)
      in snd (prune_bootstrap_and_nonces cfg (fl 2 0) (now 2 0) (now 2 1) 1000 w))"

end
