(* ===== verification/Store_Nonces.thy ===== *)
theory Store_Nonces
  imports Store_Properties
begin

text \<open>
  Three tables over histories: a replay nonce stays in its table until a prune after its expiry;
  a hostname is reserved only by an allocation, so that the hostnames of every reachable
  database have the form the protocol requires; and the operation of a retirement is recorded
  only with the retirement, so that a repeated one is final too.
\<close>

section \<open>Who writes the three tables\<close>

fun writes_nonces :: "store_op \<Rightarrow> bool" where
  "writes_nonces (ConsumeNonce i n) = True"
| "writes_nonces (Prune t l) = True"
| "writes_nonces _ = False"

fun writes_operations :: "store_op \<Rightarrow> bool" where
  "writes_operations (IssueBearer i op scope th validity) = True"
| "writes_operations (RenewBearer i op scope g token th) = True"
| "writes_operations (Retire i op) = True"
| "writes_operations (Relocate i op placement) = True"
| "writes_operations _ = False"

fun writes_reservations :: "store_op \<Rightarrow> bool" where
  "writes_reservations (Allocate i random op key placement) = True"
| "writes_reservations _ = False"

text \<open>What the shared statements leave alone.\<close>

definition side_tables :: "db \<Rightarrow> used_nonce list \<times> reservation list \<times> operation list" where
  "side_tables d = (used_nonces d, reservations d, operations d)"

lemma helper_side [simp]:
  "side_tables (insert_audit i aop event d) = side_tables d"
  "side_tables (insert_outbox now i kind payload d) = side_tables d"
  "side_tables (remove_jobs now i d) = side_tables d"
  "side_tables (delete_lease i d) = side_tables d"
  "side_tables (delete_challenges i d) = side_tables d"
  "side_tables (revoke now q d) = side_tables d"
  "side_tables (upsert_lease l d) = side_tables d"
  "side_tables (ensure_state i d) = side_tables d"
  "side_tables (refresh_value now i txt d) = side_tables d"
  "side_tables (bump_fence n d) = side_tables d"
  "side_tables (insert_checkpoint now source d) = side_tables d"
  "side_tables (move_checkpoint now source position d) = side_tables d"
  by (simp_all add: side_tables_def insert_audit_def insert_outbox_def remove_jobs_def delete_lease_def
      delete_challenges_def revoke_def upsert_lease_def ensure_state_def refresh_value_def bump_fence_def
      insert_checkpoint_def move_checkpoint_def Let_def)

lemma update_side [simp]:
  "side_tables (installations_update f d) = side_tables d"
  "side_tables (credentials_update h d) = side_tables d"
  "side_tables (tunnel_leases_update l d) = side_tables d"
  "side_tables (challenge_values_update v d) = side_tables d"
  "side_tables (challenge_states_update cs d) = side_tables d"
  "side_tables (certificates_update ce d) = side_tables d"
  "side_tables (outbox_update ob d) = side_tables d"
  "side_tables (audit_update au d) = side_tables d"
  "side_tables (fence_update fe d) = side_tables d"
  "side_tables (bootstrap_challenges_update bc d) = side_tables d"
  "side_tables (ct_observations_update co d) = side_tables d"
  "side_tables (ct_alerts_update ca d) = side_tables d"
  "side_tables (ct_health_alerts_update ch d) = side_tables d"
  "side_tables (ct_checkpoints_update cp d) = side_tables d"
  "side_tables (next_alert_id_update na d) = side_tables d"
  "side_tables (next_health_id_update nh d) = side_tables d"
  by (simp_all add: side_tables_def)

text \<open>A transaction that records an operation, and only that, in the three tables.\<close>

definition records :: "(operation \<Rightarrow> bool) \<Rightarrow> db \<Rightarrow> db \<Rightarrow> bool" where
  "records p d d' \<longleftrightarrow> used_nonces d' = used_nonces d \<and> reservations d' = reservations d
     \<and> (operations d' = operations d \<or> (\<exists>x. p x \<and> operations d' = operations d @ [x]))"

abbreviation not_retire :: "operation \<Rightarrow> bool" where
  "not_retire x \<equiv> op_kind x \<noteq> ''retire''"

lemma credential_records:
  "issue_bearer_tx P cw now i op scope th validity d = Inr (x, d') \<Longrightarrow> records not_retire d d'"
  "renew_bearer_tx P cw now i op scope g token th d = Inr (x, d') \<Longrightarrow> records not_retire d d'"
  by (erule issue_bearer_tx_Inr; auto dest!: place_credential_Inr(4)
        simp: records_def revoke_def receipt_operation_def)
    (erule renew_bearer_tx_Inr; auto dest!: place_credential_Inr(4)
        simp: records_def revoke_def receipt_operation_def)

lemma relocate_records: "relocate_tx P now i op placement d = Inr (x, d') \<Longrightarrow> records not_retire d d'"
  by (erule relocate_tx_Inr) (auto simp: records_def insert_audit_def insert_outbox_def delete_lease_def)

lemma retire_records:
  assumes "retire_tx P now i op d = Inr (x, d')"
  shows "records (\<lambda>x. op_installation x = i) d d'"
  using assms by (cases rule: retire_tx_Inr)
    (auto simp: records_def insert_audit_def insert_outbox_def delete_lease_def delete_challenges_def remove_jobs_def)

lemma installation_side:
  "register_acme_tx env now i uri d = Inr (x, d') \<Longrightarrow> side_tables d' = side_tables d"
  "mark_dns_ready_tx i d = Inr (x, d') \<Longrightarrow> side_tables d' = side_tables d"
  "expire_pending_tx now i d = Inr (y, d') \<Longrightarrow> side_tables d' = side_tables d"
  by (erule register_acme_tx_Inr mark_dns_ready_tx_Inr expire_pending_tx_Inr; simp)+

lemma lease_side:
  "claim_tunnel_tx now i gateway ttl d = Inr (n, d') \<Longrightarrow> side_tables d' = side_tables d"
  "renew_lease now i gateway g d = Inr (x, d') \<Longrightarrow> side_tables d' = side_tables d"
  by (auto simp: claim_tunnel_tx_def renew_lease_def txn_Inr split: if_splits elim!: advance_installation_cases)

lemma challenge_side:
  "ensure_challenge_tx now i g txt d = Inr (x, d') \<Longrightarrow> side_tables d' = side_tables d"
  "expire_values_tx now i d = Inr (y, d') \<Longrightarrow> side_tables d' = side_tables d"
  "reconciled_tx i r d = Inr (y, d') \<Longrightarrow> side_tables d' = side_tables d"
  subgoal by (erule ensure_challenge_tx_Inr) (auto elim!: add_value_Inr simp: challenge_set_changed_Inr)
  subgoal by (erule expire_values_tx_Inr) (auto simp: challenge_set_changed_Inr)
  subgoal by (auto simp: reconciled_tx_def Let_def split: if_splits option.splits)
  done

lemma bootstrap_side:
  "insert_challenge now nonce source d = Inr (x, d') \<Longrightarrow> side_tables d' = side_tables d"
  "consume_challenge now nonce source d = Inr (x, d') \<Longrightarrow> side_tables d' = side_tables d"
  "complete_tx now j d = Inr (y, d') \<Longrightarrow> side_tables d' = side_tables d"
  "defer_tx now j d = Inr (y, d') \<Longrightarrow> side_tables d' = side_tables d"
  by (auto simp: insert_challenge_def consume_challenge_def complete_tx_def defer_tx_def Let_def split: if_splits)

lemma ct_side:
  "ensure_ct_source_tx now source d = Inr (x, d') \<Longrightarrow> side_tables d' = side_tables d"
  "mark_ct_feed_healthy_tx now source position d = Inr (x, d') \<Longrightarrow> side_tables d' = side_tables d"
  "mark_ct_alert_delivered_tx now j d = Inr (x, d') \<Longrightarrow> side_tables d' = side_tables d"
  "queue_ct_lag_alert_tx now source d = Inr (x, d') \<Longrightarrow> side_tables d' = side_tables d"
  "mark_ct_lag_alert_delivered_tx now j d = Inr (x, d') \<Longrightarrow> side_tables d' = side_tables d"
  "record_certificate_tx i m d = Inr (x, d') \<Longrightarrow> side_tables d' = side_tables d"
  "observe_ct_tx now source position host fingerprint d = Inr (y, d') \<Longrightarrow> side_tables d' = side_tables d"
  by (auto simp: ensure_ct_source_tx_def mark_ct_feed_healthy_tx_def mark_ct_alert_delivered_tx_def
      queue_ct_lag_alert_tx_def mark_ct_lag_alert_delivered_tx_def record_certificate_tx_def observe_ct_tx_def
      insert_certificate_def insert_observation_def alert_unexpected_def insert_alert_def Let_def txn_Inr
      split: if_splits option.splits sum.splits)

lemmas side_lemmas = installation_side lease_side challenge_side bootstrap_side ct_side

lemma perform_side:
  assumes "perform K t op d = Inr (v, d')"
    and "\<not> writes_nonces op" and "\<not> writes_reservations op" and "\<not> writes_operations op"
  shows "side_tables d' = side_tables d"
  using assms by (cases op) (auto simp: tx_value_Inr split: if_splits dest: side_lemmas)

lemma perform_records:
  assumes "perform K t op d = Inr (v, d')" and "writes_operations op"
  shows "\<exists>p. records p d d' \<and> (\<forall>x. p x \<longrightarrow> not_retire x \<or> (\<exists>oid. op = Retire (op_installation x) oid))"
proof (cases "\<exists>i oid. op = Retire i oid")
  case True
  then obtain i oid where op: "op = Retire i oid" by blast
  with assms(1) have "records (\<lambda>x. op_installation x = i) d d'"
    by (auto simp: tx_value_Inr dest: retire_records)
  with op show ?thesis by (intro exI [of _ "\<lambda>x. op_installation x = i"]) simp
next
  case False
  with assms have "records not_retire d d'"
    by (cases op) (auto simp: tx_value_Inr dest: credential_records relocate_records)
  then show ?thesis by blast
qed

section \<open>Replay nonces\<close>

abbreviation nonce_key :: "used_nonce \<Rightarrow> uuid \<times> string" where
  "nonce_key n \<equiv> (un_installation n, un_nonce n)"

definition nonces_ok :: "db \<Rightarrow> bool" where
  "nonces_ok d \<longleftrightarrow> unique_key nonce_key (used_nonces d)"

text \<open>The statements that prune nonces ran at or before \<open>t\<close>.\<close>

definition prunes_by :: "timestamp \<Rightarrow> store_event list \<Rightarrow> bool" where
  "prunes_by t es \<longleftrightarrow> list_all (\<lambda>(_, op, _). case op of Prune t' _ \<Rightarrow> t' \<le> t | _ \<Rightarrow> True) es"

lemma insert_nonce_keeps:
  assumes "insert_nonce now i nonce d = Inr (x, d')"
  shows "nonces_ok d \<Longrightarrow> nonces_ok d'" and "set (used_nonces d) \<subseteq> set (used_nonces d')"
  using assms by (auto simp: insert_nonce_def Let_def nonces_ok_def split: if_splits)

lemma expired_nonces_mem:
  assumes "k \<in> set (expired_nonces t limit d)"
  obtains m where "m \<in> set (used_nonces d)" "un_expires_at m < t" "nonce_key m = k"
proof -
  from assms obtain m where
    m: "m \<in> set (select_limit (\<lambda>n. un_expires_at n < t) un_expires_at (nat limit) (used_nonces d))" "nonce_key m = k"
    by (auto simp: expired_nonces_def)
  from in_select_limit [OF m(1)] m(2) show thesis by (intro that) auto
qed

lemma prune_keeps:
  assumes "prune_rows now t limit d = Inr (x, d')"
  shows "nonces_ok d \<Longrightarrow> nonces_ok d'"
    and "n \<in> set (used_nonces d) \<Longrightarrow> t \<le> un_expires_at n \<Longrightarrow> nonces_ok d \<Longrightarrow> n \<in> set (used_nonces d')"
proof -
  from assms have d': "used_nonces d' = delete_rows (\<lambda>n. nonce_key n \<in> set (expired_nonces t limit d)) (used_nonces d)"
    by (auto simp: prune_rows_def Let_def split: if_splits)
  then show "nonces_ok d \<Longrightarrow> nonces_ok d'" by (simp add: nonces_ok_def unique_key_delete)
  assume n: "n \<in> set (used_nonces d)" "t \<le> un_expires_at n" "nonces_ok d"
  have "nonce_key n \<notin> set (expired_nonces t limit d)"
  proof
    assume "nonce_key n \<in> set (expired_nonces t limit d)"
    then obtain m where m: "m \<in> set (used_nonces d)" "un_expires_at m < t" "nonce_key m = nonce_key n"
      by (rule expired_nonces_mem)
    with unique_keyD [of nonce_key "used_nonces d" m n] n show False by (simp add: nonces_ok_def)
  qed
  with n(1) show "n \<in> set (used_nonces d')" by (simp add: d')
qed

lemma allocate_nonces: "allocate_tx b32 now i random op key placement d = Inr (a, d') \<Longrightarrow> used_nonces d' = used_nonces d"
  by (cases "operation_installation d op")
    (simp_all add: allocate_fresh [OF _ refl] allocate_replay insert_audit_def insert_outbox_def)

lemma perform_nonces:
  assumes "perform K t op d = Inr (v, d')" and "nonces_ok d"
  shows "nonces_ok d'"
    and "n \<in> set (used_nonces d) \<Longrightarrow> (\<And>t' l. op = Prune t' l \<Longrightarrow> t' \<le> un_expires_at n) \<Longrightarrow> n \<in> set (used_nonces d')"
proof -
  have "nonces_ok d' \<and> (n \<in> set (used_nonces d) \<longrightarrow> (\<forall>t' l. op = Prune t' l \<longrightarrow> t' \<le> un_expires_at n)
      \<longrightarrow> n \<in> set (used_nonces d'))"
  proof (cases "writes_nonces op \<or> writes_reservations op")
    case False
    then have "used_nonces d' = used_nonces d"
      using perform_side [OF assms(1)] perform_records [OF assms(1)]
      by (cases "writes_operations op") (auto simp: side_tables_def records_def)
    with assms(2) show ?thesis by (simp add: nonces_ok_def)
  next
    case True
    then show ?thesis
      using assms insert_nonce_keeps prune_keeps allocate_nonces
      by (cases op) (fastforce simp: tx_value_Inr nonces_ok_def)+
  qed
  then show "nonces_ok d'" and "n \<in> set (used_nonces d) \<Longrightarrow> (\<And>t' l. op = Prune t' l \<Longrightarrow> t' \<le> un_expires_at n)
      \<Longrightarrow> n \<in> set (used_nonces d')" by blast+
qed

lemma runs_nonces:
  "store_runs K s es s' \<Longrightarrow> nonces_ok (snd s) \<Longrightarrow> nonces_ok (snd s')
    \<and> (\<forall>n \<in> set (used_nonces (snd s)). prunes_by (un_expires_at n) es \<longrightarrow> n \<in> set (used_nonces (snd s')))"
proof (induction rule: runs.induct)
  case (runs_cons s e s' es s'')
  from runs_cons.hyps(1) show ?case
  proof (cases rule: store_step.cases)
    case (committed t op d v d' now)
    with perform_nonces [OF committed(4)] runs_cons show ?thesis
      by (auto simp: prunes_by_def split: store_op.splits)
  qed (use runs_cons in \<open>auto simp: prunes_by_def\<close>)
qed simp

text \<open>A nonce whose row is still kept is refused.\<close>

lemma kept_nonce_refused:
  "n \<in> set (used_nonces d) \<Longrightarrow> insert_nonce now (un_installation n) (un_nonce n) d \<noteq> Inr (True, d')"
  by (auto simp: insert_nonce_def Let_def key_free_def list_ex_iff split: if_splits)

section \<open>Hostnames\<close>

text \<open>
  The documented behaviour of unpadded base-32 on 16 bytes: 26 characters from the capital
  letters and the digits.
\<close>

definition base32_labels :: "(bytes \<Rightarrow> string) \<Rightarrow> bool" where
  "base32_labels b32 \<longleftrightarrow> (\<forall>bs. length bs = 16 \<longrightarrow> length (b32 bs) = 26
     \<and> list_all (\<lambda>c. is_ascii_uppercase c \<or> is_ascii_digit c) (b32 bs))"

definition hostnames_ok :: "db \<Rightarrow> bool" where
  "hostnames_ok d \<longleftrightarrow> list_all (\<lambda>v. validate_hostname (rv_hostname v) = Inr ()) (reservations d)"

text \<open>An allocation draws 16 random bytes for its label.\<close>

fun draws_label :: "store_event \<Rightarrow> bool" where
  "draws_label (t, Allocate i random op key placement, res) \<longleftrightarrow> length random = 16"
| "draws_label _ \<longleftrightarrow> True"

lemma lowercase_of_uppercase:
  "is_ascii_uppercase c \<Longrightarrow> is_ascii_lowercase (char_of (byte_of c + 32))"
  by (simp add: ascii_defs)

lemma random_hostname_ok:
  assumes "base32_labels b32" and "length random = 16"
  shows "validate_hostname (random_hostname b32 random) = Inr ()"
proof -
  have "list_all (\<lambda>c. is_ascii_lowercase c \<or> is_ascii_digit c) (to_ascii_lowercase (b32 random))"
    using assms by (auto simp: base32_labels_def to_ascii_lowercase_def list_all_iff lowercase_of_uppercase)
  moreover have "strip_suffix RELAY_SUFFIX (random_hostname b32 random) = Some (to_ascii_lowercase (b32 random))"
    by (simp add: strip_suffix_Some random_hostname_def RELAY_SUFFIX_def)
  ultimately show ?thesis
    using assms by (simp add: validate_hostname_def base32_labels_def to_ascii_lowercase_def)
qed

lemma perform_hostnames:
  assumes "perform K t op d = Inr (v, d')" and "hostnames_ok d" and "base32_labels (k_b32 K)" and "draws_label (t, op, res)"
  shows "hostnames_ok d'"
proof (cases "writes_reservations op")
  case True
  then obtain i random oid key placement where op: "op = Allocate i random oid key placement" by (cases op) auto
  with assms obtain a where tx: "allocate_tx (k_b32 K) t i random oid key placement d = Inr (a, d')"
    by (auto simp: tx_value_Inr)
  show ?thesis
  proof (cases "operation_installation d oid")
    case None
    from tx assms op show ?thesis
      unfolding allocate_fresh [OF None refl]
      by (auto simp: hostnames_ok_def insert_audit_def insert_outbox_def new_installation_def random_hostname_ok)
  qed (use tx assms in \<open>simp add: allocate_replay\<close>)
next
  case False
  have "reservations d' = reservations d"
  proof (cases "writes_nonces op")
    case True
    with assms(1) show ?thesis
      by (cases op) (auto simp: tx_value_Inr insert_nonce_def prune_rows_def Let_def split: if_splits)
  next
    case quiet: False
    with False show ?thesis
      using perform_side [OF assms(1)] perform_records [OF assms(1)]
      by (cases "writes_operations op") (auto simp: side_tables_def records_def)
  qed
  with assms(2) show ?thesis by (simp add: hostnames_ok_def)
qed

lemma runs_hostnames:
  "store_runs K s es s' \<Longrightarrow> base32_labels (k_b32 K) \<Longrightarrow> list_all draws_label es \<Longrightarrow> hostnames_ok (snd s)
    \<Longrightarrow> hostnames_ok (snd s')"
proof (induction rule: runs.induct)
  case (runs_cons s e s' es s'')
  from runs_cons.hyps(1) show ?case
    by (cases rule: store_step.cases) (use runs_cons in \<open>auto dest: perform_hostnames\<close>)
qed simp

text \<open>The rows of installations have the reserved hostnames.\<close>

lemma installation_hostname_ok:
  assumes "store_ok d" and "hostnames_ok d" and "r \<in> set (installations d)"
  shows "validate_hostname (in_hostname r) = Inr ()"
proof -
  have "map (\<lambda>v. (rv_hostname v, rv_installation v)) (reservations d) = map (\<lambda>r. (in_hostname r, in_id r)) (installations d)"
    using assms(1) by (simp only: store_ok_def ident_ok_def)
  then have "(in_hostname r, in_id r) \<in> (\<lambda>v. (rv_hostname v, rv_installation v)) ` set (reservations d)"
    using assms(3) by (metis (no_types, lifting) image_eqI list.set_map)
  with assms(2) show ?thesis by (auto simp: hostnames_ok_def list_all_iff)
qed

section \<open>Recorded retirements\<close>

definition retirements_ok :: "db \<Rightarrow> bool" where
  "retirements_ok d \<longleftrightarrow> (\<forall>x \<in> set (operations d). op_kind x = ''retire''
     \<longrightarrow> row_with (installations d) (op_installation x) (\<lambda>r. in_state r = Retired))"

lemma retire_retires:
  assumes "retire_tx P now i op d = Inr (x, d')" and "retirements_ok d"
  shows "row_with (installations d') i (\<lambda>r. in_state r = Retired)"
  using assms(1)
proof (cases rule: retire_tx_Inr)
  case (replay r)
  then have "r \<in> set (operations d)" by (auto simp: find_operation_def dest: fetch_optional_Some)
  with replay assms(2) show ?thesis by (auto simp: retirements_ok_def)
next
  case (again op_row r)
  then show ?thesis by (auto simp: row_with_def)
next
  case (fresh r op_row)
  let ?r = "(retire_row now r)\<lparr>in_generation := in_generation r + 1\<rparr>"
  from fresh have "?r \<in> set (installations d')"
    by (auto simp: set_update_rows insert_audit_def delete_challenges_def remove_jobs_def
        insert_outbox_def delete_lease_def)
  with fresh(3) show ?thesis unfolding row_with_def by (intro bexI [of _ ?r]) (simp_all add: retire_row_def)
qed

lemma retired_row_evolves:
  assumes "evolves d d'" and "row_with (installations d) i (\<lambda>r. in_state r = Retired)"
  shows "row_with (installations d') i (\<lambda>r. in_state r = Retired)"
  using assms by (fastforce simp: evolves_def rows_evolve_def row_with_def row_evolves_def)

lemma allocate_operations:
  assumes "allocate_tx b32 now i random op key placement d = Inr (a, d')"
  shows "operations d' = operations d \<or> (\<exists>x. not_retire x \<and> operations d' = operations d @ [x])"
  using assms by (cases "operation_installation d op")
    (auto simp: allocate_fresh [OF _ refl] allocate_replay insert_audit_def insert_outbox_def allocate_operation_def)

lemma perform_operations:
  assumes "perform K t op d = Inr (v, d')" and "x \<in> set (operations d')" and "\<not> not_retire x"
  shows "x \<in> set (operations d) \<or> (\<exists>oid. op = Retire (op_installation x) oid)"
proof (cases "writes_operations op")
  case True
  from perform_records [OF assms(1) this] assms(2,3) show ?thesis by (auto simp: records_def)
next
  case False
  show ?thesis
  proof (cases "writes_nonces op \<or> writes_reservations op")
    case True
    with assms allocate_operations show ?thesis
      by (cases op) (fastforce simp: tx_value_Inr insert_nonce_def prune_rows_def Let_def split: if_splits)+
  qed (use perform_side [OF assms(1)] False assms(2) in \<open>simp add: side_tables_def\<close>)
qed

lemma step_retirements:
  assumes "perform K t op d = Inr (v, d')" and "retirements_ok d"
  shows "retirements_ok d'"
  unfolding retirements_ok_def
proof (intro ballI impI)
  fix x assume x: "x \<in> set (operations d')" "op_kind x = ''retire''"
  then consider "x \<in> set (operations d)" | oid where "op = Retire (op_installation x) oid"
    using perform_operations [OF assms(1), of x] by blast
  then show "row_with (installations d') (op_installation x) (\<lambda>r. in_state r = Retired)"
  proof cases
    case 1
    with x assms(2) perform_evolves [OF assms(1)] show ?thesis
      by (auto simp: retirements_ok_def intro: retired_row_evolves)
  next
    case 2
    with assms(1,2) show ?thesis by (auto simp: tx_value_Inr intro: retire_retires)
  qed
qed

lemma runs_retirements:
  "store_runs K s es s' \<Longrightarrow> retirements_ok (snd s) \<Longrightarrow> retirements_ok (snd s')"
proof (induction rule: runs.induct)
  case (runs_cons s e s' es s'')
  from runs_cons.hyps(1) show ?case
  proof (cases rule: store_step.cases)
    case (committed t op d v d' now)
    with runs_cons step_retirements [OF committed(4)] show ?thesis by simp
  qed (use runs_cons in simp)
qed simp

end
