(* ===== verification/Control_Properties.thy ===== *)
theory Control_Properties
  imports Control_Api Store_Nonces
begin

text \<open>
  The promises of the control API, composed with the store, the receipt signer and the
  protocol's checks: who may act, that a signed request acts once, that a receipt convinces the
  enrolled client, that an issued bearer authenticates, and that retirement is final.
\<close>

section \<open>Answers of composed calls\<close>

named_theorems api \<open>when a computation of the API answers\<close>

lemma ask_Inr [api]:
  "ask cx k err f w = (Inr a, w') \<longleftrightarrow>
     cx_fate cx k = Served \<and> f (cx_now cx k) (cx_faults cx k) (cx_between cx k w) = (Inr a, w')"
  by (auto simp: ask_def Let_def split: fate.splits prod.splits sum.splits)

lemma continue_Inr [api]:
  "continue m f w = (Inr b, w') \<longleftrightarrow> (\<exists>a w1. m w = (Inr a, w1) \<and> f a w1 = (Inr b, w'))"
  by (auto simp: continue_def split: prod.splits sum.splits)

lemma reject_Inr [api]: "reject e w = (Inr a, w') \<longleftrightarrow> False"
  by (simp add: reject_def)

lemma answer_Inr [api]: "answer a w = (Inr b, w') \<longleftrightarrow> b = a \<and> w' = w"
  by (auto simp: answer_def)

lemma if_api [api]:
  "(if c then f else g) w = (Inr a, w') \<longleftrightarrow> (c \<and> f w = (Inr a, w') \<or> \<not> c \<and> g w = (Inr a, w'))"
  by simp

lemma case_api [api]:
  "(case x of None \<Rightarrow> f | Some c \<Rightarrow> g c) w = (Inr a, w') \<longleftrightarrow>
     (x = None \<and> f w = (Inr a, w') \<or> (\<exists>c. x = Some c \<and> g c w = (Inr a, w')))"
  "(case y of Inl e \<Rightarrow> h e | Inr c \<Rightarrow> k c) w = (Inr a, w') \<longleftrightarrow>
     ((\<exists>e. y = Inl e \<and> h e w = (Inr a, w')) \<or> (\<exists>c. y = Inr c \<and> k c w = (Inr a, w')))"
  "(case z of (b, c) \<Rightarrow> l b c) w = (Inr a, w') \<longleftrightarrow> l (fst z) (snd z) w = (Inr a, w')"
  by (auto split: option.split sum.split prod.split)

section \<open>Administrators\<close>

lemma consume_nonce_True:
  "consume_nonce now i nonce w = (Inr True, w') \<longleftrightarrow>
     insert_nonce now i nonce (w_db w) = Inr (True, w_db w') \<and> w' = w\<lparr>w_db := w_db w'\<rparr>"
  by (auto simp: consume_nonce_def autocommit_def split: sum.splits prod.splits)

lemma insert_nonce_True:
  "insert_nonce now i nonce d = Inr (True, d') \<longleftrightarrow>
     16 \<le> length nonce \<and> length nonce \<le> 128 \<and> find_installation d i \<noteq> None
     \<and> (i, nonce) \<notin> nonce_key ` set (used_nonces d)
     \<and> d' = d\<lparr>used_nonces := used_nonces d @ [\<lparr>un_installation = i, un_nonce = nonce, un_expires_at = now + minutes 5\<rparr>]\<rparr>"
  by (auto simp: insert_nonce_def Let_def key_free_def list_ex_iff not_le not_less)

lemma admin_public_key_Inr:
  "admin_public_key d i = Inr found \<longleftrightarrow>
     (find_installation d i = None \<and> found = None
      \<or> (\<exists>r. find_installation d i = Some r \<and> length (in_admin_key r) = 32 \<and> found = Some (in_admin_key r)))"
  by (auto simp: admin_public_key_def split: option.splits)

text \<open>The check of an administrator's signature, on the database of the first call.\<close>

definition signed_by_admin ::
  "api_prims \<Rightarrow> ('b \<Rightarrow> bytes option) \<Rightarrow> 'r app_state \<Rightarrow> 'r exchange \<Rightarrow> 'b signed_request \<Rightarrow> action \<Rightarrow> 'r world \<Rightarrow> bool" where
  "signed_by_admin A jcs st cx request act w \<longleftrightarrow>
     (\<exists>r body. find_installation (w_db (cx_between cx 0 w)) (ac_installation_id (sr_claims request)) = Some r
        \<and> length (in_admin_key r) = 32 \<and> p_key_ok (a_prims A) (in_admin_key r)
        \<and> jcs (sr_body request) = Some body
        \<and> claims_verify (a_prims A) (sr_claims request) body (sr_signature request) (in_admin_key r)
            (SurfaceAdmin, act) (st_audience st) (cx_ms cx 0) = Inr ())"

text \<open>The database in which an administrator's nonce is consumed.\<close>

definition nonce_world :: "'r exchange \<Rightarrow> 'r world \<Rightarrow> 'r world" where
  "nonce_world cx w = cx_between cx 1 (cx_between cx 0 w)"

lemma authorize_admin_Inr:
  "authorize_admin A jcs st cx request act w = (Inr (), w') \<longleftrightarrow>
     cx_fate cx 0 = Served \<and> cx_fate cx 1 = Served \<and> signed_by_admin A jcs st cx request act w
     \<and> consume_nonce (cx_now cx 1) (ac_installation_id (sr_claims request)) (ac_nonce (sr_claims request))
         (nonce_world cx w) = (Inr True, w')"
  by (auto simp: authorize_admin_def Let_def api admin_public_key_Inr signed_by_admin_def nonce_world_def)

text \<open>
  The handlers behind an administrator's signature share one shape: a check of the request, the
  authorization, and the work. What follows from the shape is proved once for all of them.
\<close>

locale admin_endpoint =
  fixes A :: api_prims and jcs :: "'b \<Rightarrow> bytes option" and st :: "'r app_state" and act :: action
    and handler :: "'r exchange \<Rightarrow> 'b signed_request \<Rightarrow> ('r, 'a) api"
    and well_formed :: "'b signed_request \<Rightarrow> bool" and refusal :: api_error
    and work :: "'r exchange \<Rightarrow> 'b signed_request \<Rightarrow> ('r, 'a) api"
  assumes shape: "handler cx request =
    (if well_formed request then continue (authorize_admin A jcs st cx request act) (\<lambda>_. work cx request)
     else reject refusal)"
begin

lemma answered:
  assumes "handler cx request w = (Inr a, w')"
  shows "signed_by_admin A jcs st cx request act w"
    and "\<exists>w1. authorize_admin A jcs st cx request act w = (Inr (), w1) \<and> work cx request w1 = (Inr a, w')"
  using assms by (auto simp: shape api authorize_admin_Inr split: if_splits)

lemma refused:
  assumes "fst (authorize_admin A jcs st cx request act w) = Inl e"
  shows "handler cx request w =
    (if well_formed request then (Inl e, snd (authorize_admin A jcs st cx request act w)) else (Inl refusal, w))"
  using assms by (cases "authorize_admin A jcs st cx request act w") (simp add: shape continue_def reject_def)

end

interpretation status: admin_endpoint A "a_jcs_status A" st InstallationStatus "api_installation_status A st"
  "\<lambda>request. is_installation_id (sr_body request) = ac_installation_id (sr_claims request)" unauthorized
  "\<lambda>cx request. continue (ask cx 2 (\<lambda>_. unavailable) (\<lambda>now fl w.
      (Inr (allocation_status (w_db w) (is_installation_id (sr_body request))), w)))
    (\<lambda>found. case found of None \<Rightarrow> reject unauthorized | Some a \<Rightarrow> answer a)" for A st
  by unfold_locales (simp add: api_installation_status_def)

interpretation retirement: admin_endpoint A "a_jcs_retire A" st RetireInstallation "api_retire_installation A st"
  "\<lambda>request. rt_installation_id (sr_body request) = ac_installation_id (sr_claims request)" unauthorized
  "\<lambda>cx request. continue (ask cx 2 conflict_or_unavailable (\<lambda>now fl.
      retire (a_prims A) (st_store st) fl now (rt_installation_id (sr_body request))
        (ac_operation_id (sr_claims request)))) (\<lambda>_. answer 202)" for A st
  by unfold_locales (simp add: api_retire_installation_def)

interpretation acme: admin_endpoint A "a_jcs_acme A" st RegisterAcmeAccount "api_register_acme_account A st"
  "\<lambda>request. True" unauthorized
  "\<lambda>cx request. continue (ask cx 2 invalid_or_conflict (\<lambda>now fl.
      register_acme_account (st_store st) fl now (ac_installation_id (sr_claims request))
        (aa_account_uri (sr_body request)))) (\<lambda>_. answer 202)" for A st
  by unfold_locales (simp add: api_register_acme_account_def)

text \<open>The work of \<^verbatim>\<open>issue_credential\<close> behind its authorization.\<close>

definition issue_work ::
  "api_prims \<Rightarrow> 'r app_state \<Rightarrow> 'r exchange \<Rightarrow> credential_issue_request signed_request
     \<Rightarrow> ('r, credential_issue_receipt) api" where
  "issue_work A st cx request =
     (case token_hash A (ci_token_sha256 (sr_body request)) of
        None \<Rightarrow> reject invalid
      | Some hash \<Rightarrow>
          continue (ask cx 2 (\<lambda>_. unavailable) (\<lambda>now fl.
            issue_bearer (a_prims A) (st_store st) fl now (ac_installation_id (sr_claims request))
              (ac_operation_id (sr_claims request)) (scope_name (ci_scope (sr_body request))) hash
              (as_i32 (ci_validity_seconds (sr_body request)))))
          (\<lambda>(generation, expires_at_ms).
            answer \<lparr>cir_version = WIRE_VERSION, cir_scope = ci_scope (sr_body request),
              cir_generation = generation, cir_operation_id = ac_operation_id (sr_claims request),
              cir_expires_at_ms = expires_at_ms\<rparr>))"

interpretation issue: admin_endpoint A "a_jcs_issue A" st IssueCredential "api_issue_credential A st"
  "\<lambda>request. ci_scope (sr_body request) \<in> bearer_scopes" invalid "issue_work A st" for A st
  by unfold_locales (simp add: api_issue_credential_def issue_work_def)


lemma prunes_by_Nil [simp]: "prunes_by t []"
  by (simp add: prunes_by_def list.pred_inject)

lemma prunes_by_mono: "prunes_by t es \<Longrightarrow> t \<le> t' \<Longrightarrow> prunes_by t' es"
  unfolding prunes_by_def by (induction es) (auto split: store_op.splits)

text \<open>The row a consumed nonce leaves.\<close>

lemma authorized_nonce:
  assumes "authorize_admin A jcs st cx request act w = (Inr (), w')"
  shows "\<lparr>un_installation = ac_installation_id (sr_claims request), un_nonce = ac_nonce (sr_claims request),
      un_expires_at = cx_now cx 1 + minutes 5\<rparr> \<in> set (used_nonces (w_db w'))"
  using assms by (auto simp: authorize_admin_Inr consume_nonce_True insert_nonce_True)

text \<open>An authorization is one step of the store's machine.\<close>

lemma authorized_runs:
  assumes "authorize_admin A jcs st cx request act w = (Inr (), w')"
    and "store_runs K s es (t, w_db (nonce_world cx w))" and "t \<le> cx_now cx 1"
  shows "\<exists>e. store_runs K s (es @ [e]) (cx_now cx 1, w_db w') \<and> draws_label e"
proof -
  let ?c = "sr_claims request"
  from assms(1) have "perform K (cx_now cx 1) (ConsumeNonce (ac_installation_id ?c) (ac_nonce ?c))
      (w_db (nonce_world cx w)) = Inr (VBool True, w_db w')"
    by (simp add: authorize_admin_Inr consume_nonce_True tx_value_def)
  from store_step.committed [OF this assms(3)] assms(2) show ?thesis
    by (fastforce intro: runs_append runs.intros)
qed

lemma authorized_deadline:
  assumes "authorize_admin A jcs st cx request act w = (Inr (), w')"
  shows "cx_ms cx 0 < ac_expires_at_ms (sr_claims request)"
    and "uint (ac_expires_at_ms (sr_claims request)) \<le> uint (cx_ms cx 0) + 60000"
proof -
  from assms obtain key body where "claims_verify (a_prims A) (sr_claims request) body (sr_signature request)
      key (SurfaceAdmin, act) (st_audience st) (cx_ms cx 0) = Inr ()"
    by (auto simp: authorize_admin_Inr signed_by_admin_def)
  then have *: "unat (cx_ms cx 0) < unat (ac_expires_at_ms (sr_claims request))"
    "unat (ac_expires_at_ms (sr_claims request)) \<le> unat (cx_ms cx 0) + 60000"
    by (simp_all only: claims_verify_Inr)
  from *(1) show "cx_ms cx 0 < ac_expires_at_ms (sr_claims request)" by (simp add: word_less_nat_alt)
  from *(2) have "int (unat (ac_expires_at_ms (sr_claims request))) \<le> int (unat (cx_ms cx 0)) + 60000" by linarith
  then show "uint (ac_expires_at_ms (sr_claims request)) \<le> uint (cx_ms cx 0) + 60000"
    by (simp only: uint_nat)
qed

text \<open>C3. A signed administrator request acts at most once. After it has been authorized, the same
  claims are refused at any later moment, at every API process and endpoint and whatever the other
  processes did meanwhile, as long as the host clocks are within two minutes of the database's: the
  nonce is kept for as long as the deadline lets the signature pass.\<close>

theorem admin_request_once:
  assumes "authorize_admin A jcs st cx request act w = (Inr (), w1)"
    and "store_runs K (t0, empty_db) es (t, w_db w1)"
    and "store_runs K (t, w_db w1) es' (t', w_db (nonce_world cx' w2))" and "prunes_by (cx_now cx' 1) es'"
    and "sr_claims request' = sr_claims request"
    and "\<bar>cx_now cx 1 - 1000 * uint (cx_ms cx 0)\<bar> \<le> minutes 2"
    and "\<bar>cx_now cx' 1 - 1000 * uint (cx_ms cx' 0)\<bar> \<le> minutes 2"
  shows "fst (authorize_admin A' jcs' st' cx' request' act' w2) \<noteq> Inr ()"
proof
  assume "fst (authorize_admin A' jcs' st' cx' request' act' w2) = Inr ()"
  then obtain w3 where again: "authorize_admin A' jcs' st' cx' request' act' w2 = (Inr (), w3)"
    by (cases "authorize_admin A' jcs' st' cx' request' act' w2") auto
  let ?c = "sr_claims request"
  let ?n = "\<lparr>un_installation = ac_installation_id ?c, un_nonce = ac_nonce ?c, un_expires_at = cx_now cx 1 + minutes 5\<rparr>"
  have "uint (cx_ms cx' 0) < uint (cx_ms cx 0) + 60000"
    using authorized_deadline(2) [OF assms(1)] authorized_deadline(1) [OF again] assms(5) by (simp add: word_less_def)
  with assms(6,7) have "cx_now cx' 1 \<le> un_expires_at ?n" by (simp add: minutes_def seconds_def abs_le_iff)
  with assms(4) have "prunes_by (un_expires_at ?n) es'"
    by (rule prunes_by_mono)
  moreover have "nonces_ok (w_db w1)"
    using runs_nonces [OF assms(2)] by (simp add: nonces_ok_def empty_db_def)
  ultimately have "?n \<in> set (used_nonces (w_db (nonce_world cx' w2)))"
    using runs_nonces [OF assms(3)] authorized_nonce [OF assms(1)] by simp
  from kept_nonce_refused [OF this] again assms(5) show False
    by (auto simp: authorize_admin_Inr consume_nonce_True)
qed

section \<open>Enrollment\<close>

lemma allocate_row:
  assumes "allocate_tx b32 now i random op key placement d = Inr (a, d')"
  shows "\<exists>r \<in> set (installations d'). a = allocation_from_row r \<and> in_admin_key r = key \<and> in_placement r = placement"
proof (cases "operation_installation d op")
  case None
  from assms show ?thesis
    unfolding allocate_fresh [OF None refl]
    by (auto simp: insert_audit_def insert_outbox_def new_installation_def)
next
  case (Some r)
  then have "r \<in> set (installations d)"
    by (auto simp: operation_installation_def find_installation_def bind_eq_Some_conv dest: fetch_optional_Some)
  with Some assms show ?thesis by (auto simp: allocate_replay)
qed

text \<open>A receipt whose other fields are right convinces the holder of any pinned set with its key.\<close>

lemma verify_keys_pinned:
  assumes "list_all (p_key_ok P) keys" and "key \<in> set keys"
    and "receipt_verify P r key op admin now = Inr ()"
    and "\<And>k. receipt_verify P r k op admin now \<in> {Inr (), Inl InvalidSignature}"
  shows "verify_keys P r op admin now res keys = Inr ()"
  using assms(1,2)
proof (induction keys arbitrary: res)
  case (Cons k ks)
  show ?case
  proof (cases "receipt_verify P r k op admin now = Inr ()")
    case False
    with assms(4) [of k] have "receipt_verify P r k op admin now = Inl InvalidSignature" by blast
    moreover from this assms(3) Cons.prems have "key \<in> set ks" by auto
    ultimately show ?thesis using Cons by simp
  qed (use Cons.prems in simp)
qed simp

lemma sign_receipt_Inr:
  assumes "ed25519_local (a_prims A) (a_signer A)"
    and "sign_receipt A st a op key ms w = (Inr r, w')"
  shows "w' = w \<and> ar_allocation r = a \<and> ar_operation_id r = op
    \<and> ar_admin_key_sha256 r = sha256_hex (a_prims A) key \<and> ar_issued_at_ms r = ms
    \<and> (\<exists>m sig. signed_bytes (a_prims A) r = Inr m \<and> ar_signature r = p_b64_encode (a_prims A) sig
         \<and> length sig = 64 \<and> p_verify (a_prims A) (public_key (a_signer A) (st_signer st)) m sig)"
proof -
  from assms(2) obtain m sig where m: "signed_bytes (a_prims A) \<lparr>ar_allocation = a, ar_operation_id = op,
            ar_admin_key_sha256 = sha256_hex (a_prims A) key, ar_issued_at_ms = ms, ar_signature = ''''\<rparr> = Inr m"
    and sig: "signer_sign (a_prims A) (a_signer A) (st_signer st) m = Inr sig"
    and r: "r = \<lparr>ar_allocation = a, ar_operation_id = op, ar_admin_key_sha256 = sha256_hex (a_prims A) key,
            ar_issued_at_ms = ms, ar_signature = p_b64_encode (a_prims A) sig\<rparr>" "w' = w"
    by (auto simp: sign_receipt_def Let_def api)
  from m have "signed_bytes (a_prims A) r = Inr m"
    by (auto simp: r signed_bytes_def split: if_splits option.splits)
  with signer_sign_Inr [OF assms(1) sig] r show ?thesis by auto
qed

lemma receipt_verify_fields:
  assumes "validate_hostname (al_hostname (ar_allocation r)) = Inr ()"
    and "ar_admin_key_sha256 r = sha256_hex P key"
    and "ar_issued_at_ms r \<le> saturating_add now TRUSTED_RESPONSE_CLOCK_SKEW_MS"
    and "saturating_sub now (ar_issued_at_ms r) \<le> 300000"
    and "signed_bytes P r = Inr m" and "p_b64_decode P (ar_signature r) = Some sig" and "length sig = 64"
  shows "receipt_verify P r k (ar_operation_id r) key now
    = (if p_verify P k m sig then Inr () else Inl InvalidSignature)"
  using assms by (simp add: receipt_verify_def verify_encoded_def not_less)

text \<open>C20. The receipt of an enrollment convinces the client that asked for it: with the relay's receipt
  key among its pinned keys, the operation id and administrator key of its request, and its clock
  within the protocol's margins, the client accepts the receipt; and the allocation it shows is
  that of an installation of the database under the client's key.\<close>

theorem enroll_receipt_verifies:
  assumes "api_enroll A st cx i random source request w = (Inr receipt, w')"
    and "store_runs K (t0, empty_db) es (t, w_db w')" and "list_all draws_label es" and "base32_labels (k_b32 K)"
    and "ed25519_local (a_prims A) (a_signer A)"
    and "\<And>sig. p_b64_decode (a_prims A) (p_b64_encode (a_prims A) sig) = Some sig"
    and "decoded_key (a_prims A) (aq_admin_public_key (sr_body request)) = Some key"
    and "public_key (a_signer A) (st_signer st) \<in> set pinned" and "list_all (p_key_ok (a_prims A)) pinned"
    and "ar_issued_at_ms receipt \<le> saturating_add client_now TRUSTED_RESPONSE_CLOCK_SKEW_MS"
    and "saturating_sub client_now (ar_issued_at_ms receipt) \<le> 300000"
  shows "verify_bytes (a_prims A) receipt pinned (aq_operation_id (sr_body request)) key client_now = Inr ()
    \<and> (\<exists>r \<in> set (installations (w_db w')). ar_allocation receipt = allocation_from_row r \<and> in_admin_key r = key)"
proof -
  let ?P = "a_prims A" and ?op = "aq_operation_id (sr_body request)"
  from assms(1,7) obtain a w1 w2 where alloc: "allocate (a_b32 A) (st_store st) (cx_faults cx 1) (cx_now cx 1) i random
        ?op key (st_placement st) w1 = (Inr a, w2)"
    and sign: "sign_receipt A st a ?op key (cx_ms cx 1) w2 = (Inr receipt, w')"
    by (auto simp: api_enroll_def api)
  note signed = sign_receipt_Inr [OF assms(5) sign]
  from alloc have "allocate_tx (a_b32 A) (cx_now cx 1) i random ?op key (st_placement st) (w_db w1) = Inr (a, w_db w')"
    using signed by (auto simp: allocate_def dest!: commit_ack_Inr)
  from allocate_row [OF this] obtain r where r: "r \<in> set (installations (w_db w'))" "a = allocation_from_row r"
    "in_admin_key r = key" by blast
  have "store_ok (w_db w')" using runs_ok [OF assms(2)] empty_db_ok by simp
  moreover have "hostnames_ok (w_db w')"
    using runs_hostnames [OF assms(2,4,3)] by (simp add: hostnames_ok_def empty_db_def)
  ultimately have host: "validate_hostname (al_hostname (ar_allocation receipt)) = Inr ()"
    using installation_hostname_ok r signed by (simp add: allocation_from_row_def)
  from signed obtain m sig where m: "signed_bytes ?P receipt = Inr m" "ar_signature receipt = p_b64_encode ?P sig"
    "length sig = 64" "p_verify ?P (public_key (a_signer A) (st_signer st)) m sig" by blast
  have fields: "receipt_verify ?P receipt k ?op key client_now
      = (if p_verify ?P k m sig then Inr () else Inl InvalidSignature)" for k
    using receipt_verify_fields [OF host _ assms(10,11) m(1) _ m(3), of key k] signed m(2) assms(6) by simp
  have "verify_keys ?P receipt ?op key client_now (Inl InvalidSignature) pinned = Inr ()"
    by (rule verify_keys_pinned [OF assms(9,8)]) (simp_all add: fields m(4))
  with r signed show ?thesis by (auto simp: verify_bytes_def)
qed

section \<open>Bearers\<close>

lemma find_installation_Some:
  assumes "store_ok d"
  shows "find_installation d i = Some r \<longleftrightarrow> r \<in> set (installations d) \<and> in_id r = i"
proof
  assume r: "r \<in> set (installations d) \<and> in_id r = i"
  then obtain s where s: "find_installation d i = Some s"
    by (cases "find_installation d i") (auto simp: find_installation_def fetch_optional_None)
  then have "s \<in> set (installations d)" "in_id s = i"
    unfolding find_installation_def by (auto dest: fetch_optional_Some)
  moreover have "unique_key in_id (installations d)" using assms by (simp add: store_ok_def ident_ok_def)
  ultimately have "s = r" using r by (auto intro: unique_keyD)
  with s show "find_installation d i = Some r" by simp
qed (auto simp: find_installation_def dest: fetch_optional_Some)

lemma newest_unrevoked:
  assumes "store_ok d" and "\<And>c. p c \<Longrightarrow> cr_installation c = i \<and> cr_scope c = scope \<and> cr_revoked_at c = None"
  shows "newest p d = Some c \<longleftrightarrow> c \<in> set (credentials d) \<and> p c"
proof
  assume c: "c \<in> set (credentials d) \<and> p c"
  then obtain c' where c': "newest p d = Some c'" using newest_None [of p d] by (cases "newest p d") auto
  from newest_Some [OF c'] c assms(2) [of c] assms(2) [of c'] have "c' = c"
    by (intro only_unrevoked [OF assms(1)]) simp_all
  with c' show "newest p d = Some c" by simp
qed (rule newest_Some)

lemma bearer_state_Some:
  assumes "store_ok d"
  shows "authenticate_bearer_with_state P now d i scope bearer = Some (g, s) \<longleftrightarrow>
     bearer_length_ok bearer \<and> bearer_scope scope
     \<and> (\<exists>c \<in> set (credentials d). live_bearer P now i scope bearer c \<and> g = as_u64 (cr_generation c))
     \<and> (\<exists>r \<in> set (installations d). in_id r = i \<and> in_state r = s)"
proof -
  let ?p = "\<lambda>c. live_bearer P now i scope bearer c \<and> joined d (\<lambda>_. True) (cr_installation c)"
  have live: "?p c \<longleftrightarrow> live_bearer P now i scope bearer c \<and> joined d (\<lambda>_. True) i"
    "?p c \<Longrightarrow> cr_installation c = i \<and> cr_scope c = scope \<and> cr_revoked_at c = None" for c
    by (auto simp: live_bearer_def)
  have "newest ?p d = Some c \<longleftrightarrow> c \<in> set (credentials d) \<and> ?p c" for c
    by (rule newest_unrevoked [OF assms live(2)])
  then have "authenticate_bearer_with_state P now d i scope bearer = Some (g, s) \<longleftrightarrow>
      bearer_length_ok bearer \<and> bearer_scope scope
      \<and> (\<exists>c r. c \<in> set (credentials d) \<and> ?p c \<and> find_installation d (cr_installation c) = Some r
           \<and> g = as_u64 (cr_generation c) \<and> s = in_state r)"
    by (auto simp: authenticate_bearer_with_state_def bind_eq_Some_conv)
  also have "\<dots> \<longleftrightarrow> bearer_length_ok bearer \<and> bearer_scope scope
      \<and> (\<exists>c \<in> set (credentials d). live_bearer P now i scope bearer c \<and> g = as_u64 (cr_generation c))
      \<and> (\<exists>r \<in> set (installations d). in_id r = i \<and> in_state r = s)"
    by (auto simp: find_installation_Some [OF assms] live_bearer_def joined_row_with row_with_def)
  finally show ?thesis .
qed

text \<open>The headers carry a bearer with a live DNS credential of the installation.\<close>

definition dns_bearer :: "prims \<Rightarrow> timestamp \<Rightarrow> db \<Rightarrow> headers \<Rightarrow> uuid \<Rightarrow> u64 \<Rightarrow> allocation_state \<Rightarrow> bool" where
  "dns_bearer P now d headers i g s \<longleftrightarrow>
     (\<exists>bearer. headers ''authorization'' = Some (''Bearer '' @ bearer)
        \<and> 43 \<le> length bearer \<and> length bearer \<le> 128
        \<and> (\<exists>c \<in> set (credentials d). live_bearer P now i ''dns_challenge'' bearer c \<and> g = as_u64 (cr_generation c))
        \<and> (\<exists>r \<in> set (installations d). in_id r = i \<and> in_state r = s))"

lemma dns_bearer_iff:
  assumes "store_ok d"
  shows "dns_bearer P now d headers i g s \<longleftrightarrow> (\<exists>bearer. api_bearer headers = Some bearer
    \<and> authenticate_bearer_with_state P now d i ''dns_challenge'' bearer = Some (g, s))"
proof -
  have "api_bearer headers = Some b \<longleftrightarrow> headers ''authorization'' = Some (''Bearer '' @ b)" for b
    unfolding api_bearer_def bind_eq_Some_conv strip_prefix_Some by blast
  then show ?thesis
    unfolding dns_bearer_def bearer_state_Some [OF assms] bearer_length_ok_def bearer_scope_def de_Morgan_disj not_less
    by blast
qed

text \<open>C31. The bearer check of the DNS endpoints, on every outcome: it answers with the generation of the
  live credential of the presented bearer when the installation is ready; while its records are
  being published a valid bearer is told to retry; without such a credential, without a bearer or
  after retirement the request is unauthorized.\<close>

theorem authenticate_dns_exact:
  fixes A :: api_prims and headers :: headers and i :: uuid
  assumes "store_ok (w_db (cx_between cx k w))" and "cx_fate cx k = Served"
  defines "valid \<equiv> dns_bearer (a_prims A) (cx_now cx k) (w_db (cx_between cx k w)) headers i"
  shows "(fst (authenticate_dns A cx k headers i None w) = Inr g \<longleftrightarrow> valid g DnsReady)
    \<and> (fst (authenticate_dns A cx k headers i None w) = Inl (conflict True) \<longleftrightarrow> (\<exists>g. valid g PendingDns))
    \<and> (fst (authenticate_dns A cx k headers i None w) = Inl unauthorized \<longleftrightarrow>
         (\<nexists>g. valid g DnsReady) \<and> (\<nexists>g. valid g PendingDns))"
proof -
  let ?auth = "authenticate_bearer_with_state (a_prims A) (cx_now cx k) (w_db (cx_between cx k w)) i ''dns_challenge''"
  have errors: "conflict True \<noteq> unauthorized" by (simp add: conflict_def unauthorized_def)
  have valid: "valid g s \<longleftrightarrow> (\<exists>bearer. api_bearer headers = Some bearer \<and> ?auth bearer = Some (g, s))" for g s
    unfolding valid_def by (rule dns_bearer_iff [OF assms(1)])
  show ?thesis
  proof (cases "api_bearer headers")
    case None
    with errors show ?thesis by (simp add: authenticate_dns_def reject_def valid)
  next
    case (Some bearer)
    then have "fst (authenticate_dns A cx k headers i None w) = (case ?auth bearer of
        Some (observed, DnsReady) \<Rightarrow> Inr observed | Some (_, PendingDns) \<Rightarrow> Inl (conflict True) | _ \<Rightarrow> Inl unauthorized)"
      using assms(2) by (simp add: authenticate_dns_def ask_def continue_def answer_def reject_def
          split: option.split allocation_state.split)
    with Some errors show ?thesis
      by (auto simp: valid split: option.splits allocation_state.splits)
  qed
qed

text \<open>The world in which an authorized request does its work.\<close>

definition work_world ::
  "api_prims \<Rightarrow> ('b \<Rightarrow> bytes option) \<Rightarrow> 'r app_state \<Rightarrow> 'r exchange \<Rightarrow> 'b signed_request \<Rightarrow> action \<Rightarrow> 'r world \<Rightarrow> 'r world" where
  "work_world A jcs st cx request act w = cx_between cx 2 (snd (authorize_admin A jcs st cx request act w))"

lemma issue_answered:
  assumes "api_issue_credential A st cx request w = (Inr receipt, w')"
  obtains hash where "token_hash A (ci_token_sha256 (sr_body request)) = Some hash"
    "issue_bearer_tx (a_prims A) (sc_windows (st_store st)) (cx_now cx 2) (ac_installation_id (sr_claims request))
       (ac_operation_id (sr_claims request)) (scope_name (ci_scope (sr_body request))) hash
       (as_i32 (ci_validity_seconds (sr_body request)))
       (w_db (work_world A (a_jcs_issue A) st cx request IssueCredential w))
     = Inr ((cir_generation receipt, cir_expires_at_ms receipt), w_db w')"
proof -
  from issue.answered(2) [OF assms] obtain w1 where
    w1: "authorize_admin A (a_jcs_issue A) st cx request IssueCredential w = (Inr (), w1)"
    "issue_work A st cx request w1 = (Inr receipt, w')" by blast
  then show thesis
    by (auto simp: issue_work_def api issue_bearer_def work_world_def dest!: commit_ack_Inr intro: that)
qed

text \<open>What a first issue leaves in the database.\<close>

lemma issued_credential:
  assumes "issue_bearer_tx P cw now i op scope h validity d = Inr ((g, e), d')" and "find_operation d op = None"
  obtains r where "r \<in> set (installations d')" "in_id r = i" "in_state r \<noteq> Retired"
    "new_credential now i scope (in_generation r) h (min validity (as_secs (cw_validity cw))) \<in> set (credentials d')"
    "g = as_u64 (in_generation r)"
    "e = as_u64 (epoch_ms (now + seconds (min validity (as_secs (cw_validity cw)))))"
    "bearer_scope scope" "60 \<le> validity"
  using assms(1)
proof (cases rule: issue_bearer_tx_Inr)
  case (fresh r d1)
  let ?r = "r\<lparr>in_generation := in_generation r + 1\<rparr>"
  note place = place_credential_Inr [OF fresh(8)]
  have "?r \<in> set (installations d')"
    using fresh by (auto simp: place(4) revoke_def set_update_rows)
  moreover have "60 \<le> validity" using assms(1) by (auto simp: issue_bearer_tx_def split: if_splits)
  ultimately show thesis
    using fresh(1,4,5) place(3,4) by (intro that [of ?r]) (simp_all add: new_credential_def)
qed (use assms(2) in simp)

text \<open>The receipt's expiry never runs ahead of the credential's by more than the rounding.\<close>

lemma receipt_expiry:
  assumes "0 \<le> t" and "now + 500 < 1000 * uint (as_u64 (epoch_ms t))"
  shows "now < t"
proof -
  have "uint (as_u64 (epoch_ms t)) = epoch_ms t mod 2 ^ 64" by (simp add: as_u64_def unsigned_of_int take_bit_eq_mod)
  also have "\<dots> \<le> epoch_ms t" using assms(1) by (intro zmod_le_nonneg_dividend) (simp add: epoch_ms_def)
  finally have "1000 * uint (as_u64 (epoch_ms t)) \<le> 1000 * ((t + 500) div 1000)" by (simp add: epoch_ms_def)
  also have "\<dots> \<le> t + 500" by (simp add: minus_mod_eq_mult_div [symmetric])
  finally show ?thesis using assms(2) by linarith
qed

text \<open>C14. A bearer whose digest was issued under a new operation id authenticates from the moment of the
  answer until the expiry on its receipt, with the generation on the receipt; a bearer with
  another digest does not authenticate for that scope any more.\<close>

theorem issued_bearer_authenticates:
  assumes "api_issue_credential A st cx request w = (Inr receipt, w')"
    and "store_runs K (t0, empty_db) es (t, w_db (work_world A (a_jcs_issue A) st cx request IssueCredential w))"
    and "find_operation (w_db (work_world A (a_jcs_issue A) st cx request IssueCredential w))
      (ac_operation_id (sr_claims request)) = None"
    and "token_hash A (ci_token_sha256 (sr_body request)) = Some (p_sha256 (a_prims A) (as_bytes bearer))"
    and "43 \<le> length bearer" and "length bearer \<le> 128"
    and "0 \<le> cx_now cx 2" and "MIN_VALIDITY \<le> cw_validity (sc_windows (st_store st))"
    and "now + 500 < 1000 * uint (cir_expires_at_ms receipt)"
  defines "auth \<equiv> authenticate_bearer_with_state (a_prims A) now (w_db w') (ac_installation_id (sr_claims request))
      (scope_name (ci_scope (sr_body request)))"
  shows "(\<exists>s. s \<noteq> Retired \<and> auth bearer = Some (cir_generation receipt, s))
    \<and> (p_sha256 (a_prims A) (as_bytes other) \<noteq> p_sha256 (a_prims A) (as_bytes bearer) \<longrightarrow> auth other = None)"
proof -
  let ?P = "a_prims A" and ?i = "ac_installation_id (sr_claims request)"
    and ?scope = "scope_name (ci_scope (sr_body request))" and ?h = "p_sha256 (a_prims A) (as_bytes bearer)"
    and ?d = "w_db (work_world A (a_jcs_issue A) st cx request IssueCredential w)"
    and ?life = "min (as_i32 (ci_validity_seconds (sr_body request))) (as_secs (cw_validity (sc_windows (st_store st))))"
  from issue_answered [OF assms(1)] assms(4)
  have tx: "issue_bearer_tx ?P (sc_windows (st_store st)) (cx_now cx 2) ?i (ac_operation_id (sr_claims request)) ?scope ?h
      (as_i32 (ci_validity_seconds (sr_body request))) ?d = Inr ((cir_generation receipt, cir_expires_at_ms receipt), w_db w')"
    by (metis option.inject)
  have "store_ok ?d" using runs_ok [OF assms(2)] empty_db_ok by simp
  then have ok: "store_ok (w_db w')" using tx by (rule issue_bearer_ok)
  from tx obtain r where r: "r \<in> set (installations (w_db w'))" "in_id r = ?i" "in_state r \<noteq> Retired"
    and c: "new_credential (cx_now cx 2) ?i ?scope (in_generation r) ?h ?life \<in> set (credentials (w_db w'))"
    and receipt: "cir_generation receipt = as_u64 (in_generation r)"
      "cir_expires_at_ms receipt = as_u64 (epoch_ms (cx_now cx 2 + seconds ?life))"
    and scope: "bearer_scope ?scope" and valid: "60 \<le> as_i32 (ci_validity_seconds (sr_body request))"
    by (rule issued_credential [OF _ assms(3)])
  let ?c = "new_credential (cx_now cx 2) ?i ?scope (in_generation r) ?h ?life"
  have "0 \<le> as_secs (cw_validity (sc_windows (st_store st)))"
    using assms(8) by (simp add: as_secs_def MIN_VALIDITY_def from_secs_def pos_imp_zdiv_nonneg_iff)
  with valid have "0 \<le> ?life" by linarith
  with assms(7) have "0 \<le> cx_now cx 2 + seconds ?life" by (simp only: seconds_def add_nonneg_nonneg mult_nonneg_nonneg zero_le_numeral)
  then have "now < cx_now cx 2 + seconds ?life"
    by (rule receipt_expiry) (use assms(9) receipt(2) in \<open>simp only:\<close>)
  then have "live_bearer ?P now ?i ?scope bearer ?c" by (simp add: live_bearer_def new_credential_def)
  with c r receipt(1) scope assms(5,6) have "auth bearer = Some (cir_generation receipt, in_state r)"
    unfolding auth_def bearer_state_Some [OF ok]
    by (auto simp: bearer_length_ok_def new_credential_def intro!: bexI [of _ ?c] bexI [of _ r])
  moreover have "auth other = None" if "p_sha256 ?P (as_bytes other) \<noteq> ?h"
  proof (rule ccontr)
    assume "auth other \<noteq> None"
    then obtain g s where "auth other = Some (g, s)" by auto
    then obtain c' where c': "c' \<in> set (credentials (w_db w'))" "live_bearer ?P now ?i ?scope other c'"
      unfolding auth_def bearer_state_Some [OF ok] by blast
    from c' have "c' = ?c"
      by (intro only_unrevoked [OF ok c]) (simp_all add: live_bearer_def new_credential_def)
    with c'(2) that show False by (simp add: live_bearer_def new_credential_def)
  qed
  ultimately show ?thesis using r(3) by blast
qed

section \<open>Retirement\<close>

lemma retired_inactive:
  assumes "store_ok d" and "row_with (installations d) i (\<lambda>r. in_state r = Retired)"
  shows "hostname d i = None" and "authenticate_bearer P now d i scope bearer = None"
    and "authenticate_bearer_with_state P now d i scope bearer = Some (g, s) \<Longrightarrow> s = Retired"
    and "claim_tunnel_tx now i gateway ttl d \<noteq> Inr x"
proof -
  obtain r0 where r0: "r0 \<in> set (installations d)" "in_id r0 = i" "in_state r0 = Retired"
    using assms(2) by (auto simp: row_with_def)
  have key: "unique_key in_id (installations d)" using assms(1) by (simp add: store_ok_def ident_ok_def)
  have only: "in_state r = Retired" if "r \<in> set (installations d)" "in_id r = i" for r
    using unique_keyD [OF key that(1) r0(1)] that(2) r0(2,3) by simp
  then show "hostname d i = None" by (auto simp: hostname_def fetch_optional_None)
  show "authenticate_bearer P now d i scope bearer = None"
  proof (rule ccontr)
    assume "authenticate_bearer P now d i scope bearer \<noteq> None"
    then obtain g where "authenticate_bearer P now d i scope bearer = Some g" by auto
    then obtain r where "r \<in> set (installations d)" "in_id r = i" "in_state r = DnsReady"
      unfolding authenticate_bearer_Some [OF assms(1)] by blast
    with only show False by simp
  qed
  show "authenticate_bearer_with_state P now d i scope bearer = Some (g, s) \<Longrightarrow> s = Retired"
    using only by (auto simp: bearer_state_Some [OF assms(1)])
  show "claim_tunnel_tx now i gateway ttl d \<noteq> Inr x"
    using only by (cases x) (auto elim!: claim_tunnel_tx_Inr)
qed

text \<open>C8. An accepted retirement is final. From the answer on, also when it repeated an earlier request,
  and whatever any process does later, the installation is retired: it has no hostname to serve, no
  bearer of it authenticates for a tunnel or as ready for DNS, and no tunnel of it is claimed.\<close>

theorem retirement_final:
  assumes "api_retire_installation A st cx request w = (Inr status, w')"
    and "store_runs K (t0, empty_db) es (t, w_db (work_world A (a_jcs_retire A) st cx request RetireInstallation w))"
    and "store_runs K (t1, w_db w') es' (t', d)"
  defines "i \<equiv> ac_installation_id (sr_claims request)"
  shows "(\<exists>a. allocation_status d i = Some a \<and> al_state a = Retired) \<and> hostname d i = None
    \<and> authenticate_bearer P now d i scope bearer = None
    \<and> (\<forall>g s. authenticate_bearer_with_state P now d i scope bearer = Some (g, s) \<longrightarrow> s = Retired)
    \<and> claim_tunnel_tx now i gateway ttl d \<noteq> Inr x"
proof -
  let ?d = "w_db (work_world A (a_jcs_retire A) st cx request RetireInstallation w)"
  from retirement.answered(2) [OF assms(1)] assms(1)
  have tx: "retire_tx (a_prims A) (cx_now cx 2) i (ac_operation_id (sr_claims request)) ?d = Inr ((), w_db w')"
    by (auto simp: api retire_def work_world_def i_def retirement.shape split: if_splits dest!: commit_ack_Inr)
  have ok: "store_ok ?d" using runs_ok [OF assms(2)] empty_db_ok by simp
  have "retirements_ok ?d"
    using runs_retirements [OF assms(2)] by (simp add: retirements_ok_def empty_db_def)
  from retire_retires [OF tx this] have gone: "row_with (installations (w_db w')) i (\<lambda>r. in_state r = Retired)" .
  have "perform \<lparr>k_prims = a_prims A, k_b32 = a_b32 A, k_acme = Production, k_windows = windows_default\<rparr> (cx_now cx 2)
      (Retire i (ac_operation_id (sr_claims request))) ?d = Inr (VUnit, w_db w')" by (simp add: tx tx_value_def)
  from perform_ok [OF this ok] have ok': "store_ok (w_db w')" .
  then have "store_ok d" by (rule runs_ok [OF assms(3)])
  moreover have "row_with (installations d) i (\<lambda>r. in_state r = Retired)"
    using runs_evolve [OF assms(3) ok'] gone by (auto intro: retired_row_evolves)
  moreover from calculation have "\<exists>a. allocation_status d i = Some a \<and> al_state a = Retired"
    by (auto simp: allocation_status_def row_with_def allocation_from_row_def find_installation_Some)
  ultimately show ?thesis
    by (intro conjI allI impI) (auto dest: retired_inactive(3) simp: retired_inactive(1,2,4))
qed

section \<open>Configuration\<close>

text \<open>The whole number of seconds a variable sets, or the default when it is absent.\<close>

definition configured_seconds :: "env_var \<Rightarrow> int \<Rightarrow> int option" where
  "configured_seconds var fallback =
     (case var of
        NotPresent \<Rightarrow> Some fallback
      | Value raw \<Rightarrow> map_option uint (parse_u64 (as_bytes raw))
      | NotUnicode \<Rightarrow> None)"

lemma seconds_from_env_Inr:
  "seconds_from_env name var (from_secs n) = Inr s \<longleftrightarrow>
     (\<exists>a. configured_seconds var n = Some a \<and> s = from_secs a)"
  by (auto simp: seconds_from_env_def configured_seconds_def split: env_var.splits option.splits)

lemma configured_nonneg: "0 \<le> fallback \<Longrightarrow> configured_seconds var fallback = Some a \<Longrightarrow> 0 \<le> a"
  by (auto simp: configured_seconds_def split: env_var.splits)


end
