(* ===== verification/Control_Witnesses.thy ===== *)
theory Control_Witnesses
  imports Control_Properties "HOL-Library.Code_Target_Nat"
begin

text \<open>
  Concrete exchanges with the control API, at which its properties are evaluated.
\<close>

section \<open>A concrete exchange\<close>

text \<open>
  Stand-ins for the other crates: text that is its own encoding, keys and signatures of the right
  sizes that verify. The host and the database agree on the time.
\<close>

definition text_of :: "bytes \<Rightarrow> string" where
  "text_of bs = map (\<lambda>b. char_of (unat b)) bs"

definition sample_params :: store_params where
  "sample_params = example_params\<lparr>k_b32 := (\<lambda>bs. map (\<lambda>_. CHR ''A'') bs @ ''2345672345'')\<rparr>"

definition sample_api :: api_prims where
  "sample_api = \<lparr>a_prims = example_prims\<lparr>p_b64_encode := text_of\<rparr>, a_b32 = k_b32 sample_params,
     a_signer = \<lparr>sg_public = (\<lambda>_. replicate 32 1), sg_sign = (\<lambda>_ _. replicate 64 2),
       sg_get_public_key = (\<lambda>_. None), sg_kms_sign = (\<lambda>_ _. None)\<rparr>,
     a_hex_decode = (\<lambda>s. Some (as_bytes s)), a_parse_uuid = (\<lambda>_. None),
     a_jcs_allocate = (\<lambda>_. Some [1]), a_jcs_issue = (\<lambda>_. Some [2]), a_jcs_acme = (\<lambda>_. Some [3]),
     a_jcs_status = (\<lambda>_. Some [4]), a_jcs_retire = (\<lambda>_. Some [5])\<rparr>"

definition sample_app :: "unit app_state" where
  "sample_app = \<lparr>st_store = \<lparr>sc_witness = None, sc_acme = Production, sc_windows = windows_default\<rparr>,
     st_signer = Local (replicate 32 3), st_audience = ''relay-control.bloom.directory'', st_placement = ''eu''\<rparr>"

definition sample_exchange :: "int \<Rightarrow> unit exchange" where
  "sample_exchange t = \<lparr>cx_between = (\<lambda>_ w. w), cx_fate = (\<lambda>_. Served), cx_now = (\<lambda>_. seconds t),
     cx_faults = (\<lambda>_. \<lparr>fl_lock = Inr (), fl_disk = (\<lambda>_. DiskOk)\<rparr>), cx_ms = (\<lambda>_. word_of_int (1000 * t))\<rparr>"

definition sample_world :: "db \<Rightarrow> unit world" where
  "sample_world d = \<lparr>w_db = d, w_witness = \<lparr>ws_file = written_file 1, ws_remote = (), ws_seen = None\<rparr>\<rparr>"

definition sample_claims :: "uuid \<Rightarrow> action \<Rightarrow> uuid \<Rightarrow> u64 \<Rightarrow> u8 \<Rightarrow> auth_claims" where
  "sample_claims i act op expires body = \<lparr>ac_version = WIRE_VERSION, ac_installation_id = i, ac_scope = SurfaceAdmin,
     ac_action = act, ac_generation = 0, ac_audience = ''relay-control.bloom.directory'', ac_operation_id = op,
     ac_nonce = replicate 16 CHR ''n'', ac_expires_at_ms = expires, ac_body_sha256 = sha256_hex example_prims [body]\<rparr>"

definition sample_signed :: "auth_claims \<Rightarrow> 'b \<Rightarrow> 'b signed_request" where
  "sample_signed c b = \<lparr>sr_claims = c, sr_body = b, sr_signature = replicate 64 CHR ''s''\<rparr>"

definition sample_issue :: "credential_issue_request signed_request" where
  "sample_issue = sample_signed (sample_claims 1 IssueCredential 30 40000 2)
     \<lparr>ci_scope = DnsChallenge, ci_token_sha256 = replicate 32 CHR ''q'', ci_validity_seconds = 3600\<rparr>"

definition sample_retire :: "retire_request signed_request" where
  "sample_retire = sample_signed (sample_claims 1 RetireInstallation 31 40000 5) \<lparr>rt_installation_id = 1\<rparr>"

definition issue_run :: "(api_error + credential_issue_receipt) \<times> unit world" where
  "issue_run = api_issue_credential sample_api sample_app (sample_exchange 10) sample_issue (sample_world example_db)"

lemma issue_run_value:
  "fst issue_run = Inr \<lparr>cir_version = 1, cir_scope = DnsChallenge, cir_generation = 5, cir_operation_id = 30,
     cir_expires_at_ms = 3610000\<rparr>"
  unfolding issue_run_def by code_simp

lemma issue_authorized:
  "fst (authorize_admin sample_api (a_jcs_issue sample_api) sample_app (sample_exchange 10) sample_issue
     IssueCredential (sample_world example_db)) = Inr ()"
  by code_simp

lemma retire_run_value:
  "fst (api_retire_installation sample_api sample_app (sample_exchange 10) sample_retire (sample_world example_db)) = Inr 202"
  by code_simp

text \<open>The receipt of the sample issue, and the worlds around it.\<close>

abbreviation sample_start :: "unit world" where
  "sample_start \<equiv> sample_world example_db"

abbreviation issue_auth :: "(api_error + unit) \<times> unit world" where
  "issue_auth \<equiv> authorize_admin sample_api (a_jcs_issue sample_api) sample_app (sample_exchange 10) sample_issue
     IssueCredential sample_start"

lemma sample_fields [simp]:
  "cx_between (sample_exchange t) k w = w" "cx_fate (sample_exchange t) k = Served"
  "cx_now (sample_exchange t) k = seconds t" "cx_ms (sample_exchange t) k = word_of_int (1000 * t)"
  "w_db (sample_world d) = d" "nonce_world (sample_exchange t) w = w"
  by (simp_all add: sample_exchange_def sample_world_def nonce_world_def)

lemma issue_run_answer:
  "api_issue_credential sample_api sample_app (sample_exchange 10) sample_issue sample_start
     = (Inr \<lparr>cir_version = 1, cir_scope = DnsChallenge, cir_generation = 5, cir_operation_id = 30,
          cir_expires_at_ms = 3610000\<rparr>, snd issue_run)"
  using issue_run_value by (metis issue_run_def prod.collapse)

lemma issue_auth_answer: "issue_auth = (Inr (), snd issue_auth)"
  using issue_authorized by (metis prod.collapse)

lemma issue_auth_runs: "\<exists>es. store_runs example_params (0, empty_db) es (seconds 10, w_db (snd issue_auth))"
proof -
  have "store_runs example_params (0, empty_db) (fst (trace example_params example_setup empty_db))
      (seconds 6, w_db (nonce_world (sample_exchange 10) sample_start))" using example_runs by simp
  from authorized_runs [OF issue_auth_answer this] show ?thesis by (auto simp: seconds_def)
qed


theorem admin_request_once_witness:
  "fst issue_auth = Inr ()
   \<and> fst (authorize_admin sample_api (a_jcs_issue sample_api) sample_app (sample_exchange 20) sample_issue
       IssueCredential (snd issue_auth)) \<noteq> Inr ()"
proof -
  from issue_auth_runs obtain es where es:
    "store_runs example_params (0, empty_db) es (seconds 10, w_db (snd issue_auth))" by blast
  have "store_runs example_params (seconds 10, w_db (snd issue_auth)) []
      (seconds 10, w_db (nonce_world (sample_exchange 20) (snd issue_auth)))" by (simp add: runs.runs_nil)
  from admin_request_once [OF issue_auth_answer es this, of sample_issue] issue_authorized
  show ?thesis by (simp add: minutes_def seconds_def)
qed

theorem issued_bearer_authenticates_witness:
  "authenticate_bearer_with_state example_prims (seconds 3600) (w_db (snd issue_run)) 1 ''dns_challenge''
     (replicate 43 CHR ''x'') = None
   \<and> (\<exists>s. authenticate_bearer_with_state example_prims (seconds 3600) (w_db (snd issue_run)) 1 ''dns_challenge''
     (replicate 43 CHR ''q'') = Some (5, s))"
proof -
  let ?bearer = "replicate 43 CHR ''q''" and ?other = "replicate 43 CHR ''x''"
  let ?d = "w_db (work_world sample_api (a_jcs_issue sample_api) sample_app (sample_exchange 10) sample_issue
      IssueCredential sample_start)"
  have d: "?d = w_db (snd issue_auth)" by (simp add: work_world_def)
  from issue_auth_runs obtain es where es: "store_runs example_params (0, empty_db) es (seconds 10, ?d)"
    unfolding d by blast
  have fresh: "find_operation ?d (ac_operation_id (sr_claims sample_issue)) = None"
    unfolding d by code_simp
  have hash: "token_hash sample_api (ci_token_sha256 (sr_body sample_issue))
      = Some (p_sha256 (a_prims sample_api) (as_bytes ?bearer))" by code_simp
  have other: "p_sha256 (a_prims sample_api) (as_bytes ?other) \<noteq> p_sha256 (a_prims sample_api) (as_bytes ?bearer)"
    by code_simp
  have fields: "ac_installation_id (sr_claims sample_issue) = 1" "scope_name (ci_scope (sr_body sample_issue)) = ''dns_challenge''"
    by code_simp+
  have windows: "MIN_VALIDITY \<le> cw_validity (sc_windows (st_store sample_app))" by code_simp
  have prims: "authenticate_bearer_with_state (a_prims sample_api) = authenticate_bearer_with_state example_prims"
    by (simp add: fun_eq_iff sample_api_def authenticate_bearer_with_state_def live_bearer_def)
  show ?thesis
    using issued_bearer_authenticates [OF issue_run_answer es fresh hash _ _ _ windows, of "seconds 3600" ?other] other
    by (auto simp: fields prims seconds_def)
qed

text \<open>A repeated retirement, and the database it leaves.\<close>

definition retire_run :: "(api_error + nat) \<times> unit world" where
  "retire_run = api_retire_installation sample_api sample_app (sample_exchange 10) sample_retire sample_start"

theorem retirement_final_witness:
  "allocation_status (w_db (snd retire_run)) 1 \<noteq> None \<and> hostname (w_db (snd retire_run)) 1 = None
   \<and> hostname example_db 1 \<noteq> None
   \<and> authenticate_bearer example_prims (seconds 11) (w_db (snd retire_run)) 1 ''tunnel'' example_token = None"
proof -
  let ?auth = "authorize_admin sample_api (a_jcs_retire sample_api) sample_app (sample_exchange 10) sample_retire
      RetireInstallation sample_start"
  let ?d = "w_db (work_world sample_api (a_jcs_retire sample_api) sample_app (sample_exchange 10) sample_retire
      RetireInstallation sample_start)"
  have run: "api_retire_installation sample_api sample_app (sample_exchange 10) sample_retire sample_start
      = (Inr 202, snd retire_run)"
    using retire_run_value by (metis retire_run_def prod.collapse)
  from retirement.answered(2) [OF run] have auth: "?auth = (Inr (), snd ?auth)" by auto
  have start: "store_runs example_params (0, empty_db) (fst (trace example_params example_setup empty_db))
      (seconds 6, w_db (nonce_world (sample_exchange 10) sample_start))" using example_runs by simp
  from authorized_runs [OF auth start] obtain es where es: "store_runs example_params (0, empty_db) es (seconds 10, ?d)"
    by (auto simp: work_world_def seconds_def)
  have "hostname example_db 1 \<noteq> None" "ac_installation_id (sr_claims sample_retire) = 1" by code_simp+
  then show ?thesis
    using retirement_final [OF run es runs.runs_nil, where P = example_prims and now = "seconds 11"
        and scope = "''tunnel''" and bearer = example_token and gateway = "''eu''" and ttl = 30 and x = undefined]
    by auto
qed

definition sample_headers :: headers where
  "sample_headers n = (if n = ''authorization'' then Some (''Bearer '' @ example_token) else None)"

theorem authenticate_dns_exact_witness:
  "fst (authenticate_dns sample_api (sample_exchange 10) 0 sample_headers 1 None sample_start) = Inr 3
   \<and> dns_bearer (a_prims sample_api) (seconds 10) example_db sample_headers 1 3 DnsReady"
proof -
  have answer: "fst (authenticate_dns sample_api (sample_exchange 10) 0 sample_headers 1 None sample_start) = Inr 3"
    by code_simp
  have "store_ok (w_db (cx_between (sample_exchange 10) 0 sample_start))" using example_ok by simp
  from authenticate_dns_exact [OF this, of sample_api sample_headers 1 3] answer show ?thesis by simp
qed

section \<open>A concrete enrollment\<close>

definition sample_source :: socket_addr where
  "sample_source = \<lparr>sa_ip = V4 1, sa_port = 5000\<rparr>"

definition sample_enroll :: "allocate_request signed_request" where
  "sample_enroll = sample_signed (sample_claims 0 Enroll 40 40000 1)
     \<lparr>aq_admin_public_key = replicate 32 CHR ''k'', aq_bootstrap_nonce = replicate 16 CHR ''n'', aq_operation_id = 40\<rparr>"

definition challenged_db :: db where
  "challenged_db = snd (trace sample_params [(seconds 9, CreateChallenge (replicate 16 CHR ''n'') (V4 1))] empty_db)"

definition enroll_run :: "(api_error + allocation_receipt) \<times> unit world" where
  "enroll_run = api_enroll sample_api sample_app (sample_exchange 10) 7 (replicate 16 0) sample_source sample_enroll
     (sample_world challenged_db)"

definition enrolled_receipt :: allocation_receipt where
  "enrolled_receipt = \<lparr>ar_allocation = \<lparr>al_version = 1, al_installation_id = 7,
       al_hostname = ''aaaaaaaaaaaaaaaa2345672345.relay.bloom.directory'', al_placement = ''eu'', al_state = PendingDns\<rparr>,
     ar_operation_id = 40, ar_admin_key_sha256 = sha256_hex example_prims (replicate 32 107), ar_issued_at_ms = 10000,
     ar_signature = replicate 64 CHR 0x02\<rparr>"

definition enroll_schedule :: "(timestamp \<times> store_op) list" where
  "enroll_schedule = [(seconds 9, CreateChallenge (replicate 16 CHR ''n'') (V4 1)),
     (seconds 10, ConsumeChallenge (replicate 16 CHR ''n'') (V4 1)),
     (seconds 10, Allocate 7 (replicate 16 0) 40 (replicate 32 107) ''eu'')]"

lemma enroll_run_value: "fst enroll_run = Inr enrolled_receipt"
  by code_simp

lemma enroll_run_db: "w_db (snd enroll_run) = snd (trace sample_params enroll_schedule empty_db)"
  by code_simp

lemma text_of_inverse: "as_bytes (text_of bs) = bs"
proof -
  have "(of_char (char_of (unat b)) :: u8) = b" for b :: u8
  proof -
    have "(of_char (char_of (unat b)) :: u8) = of_nat (of_char (char_of (unat b)))" by (simp only: of_nat_of_char)
    also have "\<dots> = of_nat (unat b mod 256)" by (simp only: of_char_of)
    also have "unat b mod 256 = unat b" by (rule mod_less) (use unsigned_less [of b] in simp)
    finally show ?thesis by simp
  qed
  then show ?thesis by (simp add: as_bytes_def text_of_def comp_def)
qed

lemma sample_base32: "base32_labels (k_b32 sample_params)"
proof -
  have "list_all (\<lambda>c. is_ascii_uppercase c \<or> is_ascii_digit c) (map (\<lambda>_. CHR ''A'') bs @ ''2345672345'')" for bs :: bytes
    by (simp add: list_all_iff ascii_defs)
  then show ?thesis by (simp add: base32_labels_def sample_params_def)
qed

lemma sample_ed25519: "ed25519_local (a_prims sample_api) (a_signer sample_api)"
  by (simp add: ed25519_local_def sample_api_def example_prims_def)

lemma sample_b64: "p_b64_decode (a_prims sample_api) (p_b64_encode (a_prims sample_api) sig) = Some sig"
  by (simp add: sample_api_def example_prims_def text_of_inverse)

theorem enroll_receipt_verifies_witness:
  "verify_bytes (a_prims sample_api) enrolled_receipt [replicate 32 9, replicate 32 1] 40 (replicate 32 107) 11000 = Inr ()"
proof -
  have run: "api_enroll sample_api sample_app (sample_exchange 10) 7 (replicate 16 0) sample_source sample_enroll
      (sample_world challenged_db) = (Inr enrolled_receipt, snd enroll_run)"
    using enroll_run_value by (metis enroll_run_def prod.collapse)
  have order: "in_order 0 enroll_schedule" "end_time 0 enroll_schedule = seconds 10" by code_simp+
  have runs: "store_runs sample_params (0, empty_db) (fst (trace sample_params enroll_schedule empty_db))
      (seconds 10, w_db (snd enroll_run))"
    unfolding enroll_run_db using trace_runs [OF order(1), of sample_params empty_db] order(2) by simp
  have draws: "list_all draws_label (fst (trace sample_params enroll_schedule empty_db))" by code_simp
  have key: "decoded_key (a_prims sample_api) (aq_admin_public_key (sr_body sample_enroll)) = Some (replicate 32 107)"
    by code_simp
  have pinned: "public_key (a_signer sample_api) (st_signer sample_app) \<in> set [replicate 32 9, replicate 32 1]"
    "list_all (p_key_ok (a_prims sample_api)) [replicate 32 9, replicate 32 1]"
    by (simp_all add: sample_api_def sample_app_def example_prims_def)
  have clock: "ar_issued_at_ms enrolled_receipt \<le> saturating_add 11000 TRUSTED_RESPONSE_CLOCK_SKEW_MS"
    "saturating_sub 11000 (ar_issued_at_ms enrolled_receipt) \<le> 300000" by code_simp+
  have "aq_operation_id (sr_body sample_enroll) = 40" by code_simp
  with enroll_receipt_verifies [OF run runs draws sample_base32 sample_ed25519 sample_b64 key pinned clock]
  show ?thesis by simp
qed

end
