(* ===== verification/Dns_Records.thy ===== *)
theory Dns_Records
  imports Protocol
begin

text \<open>
  The records the relay publishes and the contract of a DNS provider
  (\<^verbatim>\<open>crates/bloom-relay-dns/src/lib.rs\<close>): validation of a change, the CAA values, the challenge
  name, and the in-memory provider. The locale is what the DNS worker relies on.
\<close>

section \<open>Text of addresses\<close>

definition decimal :: "nat \<Rightarrow> string" where
  "decimal n = map (\<lambda>b. char_of (unat b)) (dec_digits n)"

text \<open>\<^verbatim>\<open>Display\<close> of \<^verbatim>\<open>Ipv4Addr\<close>: four decimal octets.\<close>

definition ipv4_text :: "u32 \<Rightarrow> string" where
  "ipv4_text w =
     (let octet = (\<lambda>i. decimal (unat (ucast (drop_bit (8 * i) w) :: u8)))
      in octet 3 @ ''.'' @ octet 2 @ ''.'' @ octet 1 @ ''.'' @ octet 0)"

text \<open>A segment in lower-case hexadecimal without leading zeros.\<close>

definition segment_text :: "u16 \<Rightarrow> string" where
  "segment_text s =
     (case dropWhile (\<lambda>c. c = CHR ''0'') (hex_encode (be_bytes 2 s)) of [] \<Rightarrow> ''0'' | ds \<Rightarrow> ds)"

definition segments :: "128 word \<Rightarrow> u16 list" where
  "segments w = map (\<lambda>i. ucast (drop_bit (16 * i) w)) (rev [0..<8])"

fun joined_segments :: "u16 list \<Rightarrow> string" where
  "joined_segments [] = []"
| "joined_segments [s] = segment_text s"
| "joined_segments (s # ss) = segment_text s @ '':'' @ joined_segments ss"

text \<open>The first of the longest runs of zero segments, as its start and length.\<close>

fun longest_zeros :: "nat \<Rightarrow> u16 list \<Rightarrow> nat \<times> nat \<Rightarrow> nat \<times> nat \<Rightarrow> nat \<times> nat" where
  "longest_zeros i [] current longest = longest"
| "longest_zeros i (s # ss) current longest =
     (if s = 0
      then let current = (if snd current = 0 then i else fst current, Suc (snd current))
        in longest_zeros (Suc i) ss current (if snd current > snd longest then current else longest)
      else longest_zeros (Suc i) ss (0, 0) longest)"

definition ipv6_text :: "128 word \<Rightarrow> string" where
  "ipv6_text w =
     (if drop_bit 32 w = 0xffff then ''::ffff:'' @ ipv4_text (ucast w)
      else let ss = segments w; (start, len) = longest_zeros 0 ss (0, 0) (0, 0)
        in if len > 1 then joined_segments (take start ss) @ ''::'' @ joined_segments (drop (start + len) ss)
           else joined_segments ss)"

fun ip_text :: "ip_addr \<Rightarrow> string" where
  "ip_text (V4 w) = ipv4_text w"
| "ip_text (V6 w) = ipv6_text w"

fun is_unspecified :: "ip_addr \<Rightarrow> bool" where
  "is_unspecified (V4 w) \<longleftrightarrow> w = 0"
| "is_unspecified (V6 w) \<longleftrightarrow> w = 0"

section \<open>Changes\<close>

definition TTL_SECONDS :: u32 where
  "TTL_SECONDS = 300"

definition ZONE :: string where
  "ZONE = ''relay.bloom.directory''"

record name_records =
  nr_hostname :: string
  nr_addresses :: "ip_addr list"
  nr_acme_account_uri :: string

datatype dns_error = DnsInvalidHostname protocol_error | DnsInvalidChange | DnsUnavailable | DnsConflict

definition dns_hostname :: "string \<Rightarrow> dns_error + unit" where
  "dns_hostname hostname =
     (case validate_hostname hostname of Inl e \<Rightarrow> Inl (DnsInvalidHostname e) | Inr _ \<Rightarrow> Inr ())"

definition validate_records :: "name_records \<Rightarrow> dns_error + unit" where
  "validate_records r =
     (case dns_hostname (nr_hostname r) of
        Inl e \<Rightarrow> Inl e
      | Inr _ \<Rightarrow>
          if nr_addresses r = [] \<or> length (nr_addresses r) > 4
             \<or> list_ex is_unspecified (nr_addresses r)
             \<or> isl (validate_acme_account_uri (nr_acme_account_uri r))
          then Inl DnsInvalidChange else Inr ())"

definition quoted :: "string \<Rightarrow> string" where
  "quoted s = [CHR 0x22] @ s @ [CHR 0x22]"

definition caa_issue_value :: "string \<Rightarrow> string" where
  "caa_issue_value uri = ''letsencrypt.org; validationmethods=dns-01; accounturi='' @ uri"

definition caa_values :: "string \<Rightarrow> dns_error + string list" where
  "caa_values uri =
     (if isl (validate_acme_account_uri uri) then Inl DnsInvalidChange
      else Inr [''0 issue '' @ quoted (caa_issue_value uri), ''0 issuewild '' @ quoted '';''])"

definition validate_challenge_values :: "string list \<Rightarrow> dns_error + unit" where
  "validate_challenge_values values =
     (if length values > MAX_LIVE_CHALLENGE_VALUES \<or> card (set values) \<noteq> length values
         \<or> list_ex (\<lambda>v. isl (validate_challenge_value v)) values
      then Inl DnsInvalidChange else Inr ())"

definition challenge_name :: "string \<Rightarrow> dns_error + string" where
  "challenge_name hostname =
     (case dns_hostname hostname of Inl e \<Rightarrow> Inl e | Inr _ \<Rightarrow> Inr (''_acme-challenge.'' @ hostname))"

section \<open>Providers\<close>

text \<open>The four operations of the \<^verbatim>\<open>Provider\<close> trait, on the state of a DNS service.\<close>

type_synonym 's dns_op = "'s \<Rightarrow> (dns_error + unit) \<times> 's"

record 's provider =
  pv_publish_name :: "name_records \<Rightarrow> 's dns_op"
  pv_set_challenge :: "string \<Rightarrow> string list \<Rightarrow> 's dns_op"
  pv_retire_name :: "string \<Rightarrow> 's dns_op"
  pv_retire_challenge :: "string \<Rightarrow> 's dns_op"

text \<open>A published record of a name: its type and its text in presentation form.\<close>

type_synonym published = "string \<times> string"

fun address_record :: "ip_addr \<Rightarrow> published" where
  "address_record (V4 w) = (''A'', ipv4_text w)"
| "address_record (V6 w) = (''AAAA'', ipv6_text w)"

definition wanted :: "name_records \<Rightarrow> published set" where
  "wanted r = address_record ` set (nr_addresses r)
     \<union> (case caa_values (nr_acme_account_uri r) of Inl _ \<Rightarrow> {} | Inr vs \<Rightarrow> Pair ''CAA'' ` set vs)"

text \<open>
  What the worker relies on. \<open>serving\<close> and \<open>challenge\<close> read the records of a hostname; a
  successful change makes them exact and leaves those of the other hostnames and of the other
  kind alone.
\<close>

locale dns_provider =
  fixes pv :: "'s provider"
    and serving :: "'s \<Rightarrow> string \<Rightarrow> published set" and challenge :: "'s \<Rightarrow> string \<Rightarrow> string set"
  assumes published: "pv_publish_name pv r s = (Inr (), s') \<Longrightarrow> serving s' (nr_hostname r) = wanted r"
    and publish_frame: "pv_publish_name pv r s = (x, s') \<Longrightarrow>
      challenge s' h = challenge s h \<and> (h \<noteq> nr_hostname r \<longrightarrow> serving s' h = serving s h)"
    and challenge_set: "pv_set_challenge pv h vs s = (Inr (), s') \<Longrightarrow> challenge s' h = set vs"
    and challenge_frame: "pv_set_challenge pv h vs s = (x, s') \<Longrightarrow>
      serving s' k = serving s k \<and> (k \<noteq> h \<longrightarrow> challenge s' k = challenge s k)"
    and name_retired: "pv_retire_name pv h s = (Inr (), s') \<Longrightarrow> serving s' h = {}"
    and retire_name_frame: "pv_retire_name pv h s = (x, s') \<Longrightarrow>
      challenge s' k = challenge s k \<and> (k \<noteq> h \<longrightarrow> serving s' k = serving s k)"
    and challenge_retired: "pv_retire_challenge pv h s = (Inr (), s') \<Longrightarrow> challenge s' h = {}"
    and retire_challenge_frame: "pv_retire_challenge pv h s = (x, s') \<Longrightarrow>
      serving s' k = serving s k \<and> (k \<noteq> h \<longrightarrow> challenge s' k = challenge s k)"
begin

text \<open>Publishing or setting again changes nothing that is observed.\<close>

lemma publish_again:
  assumes "pv_publish_name pv r s = (Inr (), s')" and "pv_publish_name pv r s' = (Inr (), s'')"
  shows "serving s'' = serving s' \<and> challenge s'' = challenge s'"
  using publish_frame [OF assms(2)] published [OF assms(1)] published [OF assms(2)]
  by (auto simp: fun_eq_iff) metis+

end

section \<open>The in-memory provider\<close>

record memory_state =
  me_names :: "string \<Rightarrow> name_records option"
  me_challenges :: "string \<Rightarrow> string list option"

definition memory_publish_name :: "name_records \<Rightarrow> memory_state dns_op" where
  "memory_publish_name r s =
     (case validate_records r of
        Inl e \<Rightarrow> (Inl e, s)
      | Inr _ \<Rightarrow> (Inr (), s\<lparr>me_names := (me_names s)(nr_hostname r \<mapsto> r)\<rparr>))"

definition memory_set_challenge :: "string \<Rightarrow> string list \<Rightarrow> memory_state dns_op" where
  "memory_set_challenge hostname values s =
     (case challenge_name hostname of
        Inl e \<Rightarrow> (Inl e, s)
      | Inr _ \<Rightarrow>
          (case validate_challenge_values values of
             Inl e \<Rightarrow> (Inl e, s)
           | Inr _ \<Rightarrow> (Inr (), s\<lparr>me_challenges := (me_challenges s)(hostname :=
                (if values = [] then None else Some values))\<rparr>)))"

definition memory_retire_name :: "string \<Rightarrow> memory_state dns_op" where
  "memory_retire_name hostname s =
     (case dns_hostname hostname of
        Inl e \<Rightarrow> (Inl e, s)
      | Inr _ \<Rightarrow> (Inr (), s\<lparr>me_names := (me_names s)(hostname := None)\<rparr>))"

definition memory_retire_challenge :: "string \<Rightarrow> memory_state dns_op" where
  "memory_retire_challenge hostname s =
     (case challenge_name hostname of
        Inl e \<Rightarrow> (Inl e, s)
      | Inr _ \<Rightarrow> (Inr (), s\<lparr>me_challenges := (me_challenges s)(hostname := None)\<rparr>))"

definition memory_provider :: "memory_state provider" where
  "memory_provider = \<lparr>pv_publish_name = memory_publish_name, pv_set_challenge = memory_set_challenge,
     pv_retire_name = memory_retire_name, pv_retire_challenge = memory_retire_challenge\<rparr>"

text \<open>\<^verbatim>\<open>MemoryProvider::records\<close> and \<^verbatim>\<open>MemoryProvider::challenge\<close>, as sets.\<close>

definition memory_serving :: "memory_state \<Rightarrow> string \<Rightarrow> published set" where
  "memory_serving s h = (case me_names s h of None \<Rightarrow> {} | Some r \<Rightarrow> wanted r)"

definition memory_challenge :: "memory_state \<Rightarrow> string \<Rightarrow> string set" where
  "memory_challenge s h = (case me_challenges s h of None \<Rightarrow> {} | Some vs \<Rightarrow> set vs)"

interpretation memory: dns_provider memory_provider memory_serving memory_challenge
proof unfold_locales
  show "memory_serving s' (nr_hostname r) = wanted r" if "pv_publish_name memory_provider r s = (Inr (), s')" for r s s'
    using that by (auto simp: memory_provider_def memory_publish_name_def memory_serving_def split: sum.splits)
  show "memory_challenge s' h = set vs" if "pv_set_challenge memory_provider h vs s = (Inr (), s')" for h vs s s'
    using that by (auto simp: memory_provider_def memory_set_challenge_def memory_challenge_def split: sum.splits if_splits)
  show "memory_serving s' h = {}" if "pv_retire_name memory_provider h s = (Inr (), s')" for h s s'
    using that by (auto simp: memory_provider_def memory_retire_name_def memory_serving_def split: sum.splits)
  show "memory_challenge s' h = {}" if "pv_retire_challenge memory_provider h s = (Inr (), s')" for h s s'
    using that by (auto simp: memory_provider_def memory_retire_challenge_def memory_challenge_def split: sum.splits)
qed (auto simp: memory_provider_def memory_publish_name_def memory_set_challenge_def memory_retire_name_def
      memory_retire_challenge_def memory_serving_def memory_challenge_def split: sum.splits)

end
