(* ===== verification/Dns_Observer.thy ===== *)
theory Dns_Observer
  imports Dns_Records
begin

text \<open>
  Read-after-write observation (\<^verbatim>\<open>crates/bloom-relay-dns/src/observer.rs\<close>): whether the configured
  authoritative servers and the host's recursive resolver both show the records. The answers of
  the resolvers are a parameter; the lemmas say what the observer concludes from them.
\<close>

section \<open>Text of unchecked bytes\<close>

text \<open>
  \<^verbatim>\<open>String::from_utf8_lossy\<close>: the length of the sequence at the front, and whether it is valid. An
  ill-formed one is the longest proper prefix of a valid one, and at least one byte.
\<close>

definition continuation :: "u8 \<Rightarrow> bool" where
  "continuation b \<longleftrightarrow> 0x80 \<le> b \<and> b \<le> 0xBF"

definition second_ok :: "u8 \<Rightarrow> u8 \<Rightarrow> bool" where
  "second_ok b c \<longleftrightarrow>
     (if b = 0xE0 then 0xA0 \<le> c \<and> c \<le> 0xBF
      else if b = 0xED then 0x80 \<le> c \<and> c \<le> 0x9F
      else if b = 0xF0 then 0x90 \<le> c \<and> c \<le> 0xBF
      else if b = 0xF4 then 0x80 \<le> c \<and> c \<le> 0x8F
      else continuation c)"

definition utf8_width :: "u8 \<Rightarrow> nat" where
  "utf8_width b =
     (if b < 0x80 then 1 else if 0xC2 \<le> b \<and> b \<le> 0xDF then 2 else if 0xE0 \<le> b \<and> b \<le> 0xEF then 3
      else if 0xF0 \<le> b \<and> b \<le> 0xF4 then 4 else 0)"

definition utf8_front :: "u8 \<Rightarrow> bytes \<Rightarrow> nat \<times> bool" where
  "utf8_front b bs =
     (let w = utf8_width b;
          n = (case bs of [] \<Rightarrow> 1 | c # cs \<Rightarrow>
                 if w < 2 \<or> \<not> second_ok b c then 1 else 2 + length (takeWhile continuation (take (w - 2) cs)))
      in (n, n = w))"

function from_utf8_lossy :: "bytes \<Rightarrow> string" where
  "from_utf8_lossy [] = []"
| "from_utf8_lossy (b # bs) =
     (let (n, valid) = utf8_front b bs
      in (if valid then map (\<lambda>b. char_of (unat b)) (take n (b # bs)) else [CHR 0xEF, CHR 0xBF, CHR 0xBD])
         @ from_utf8_lossy (drop n (b # bs)))"
  by pat_completeness auto

lemma utf8_front_pos: "utf8_front b bs = (n, valid) \<Longrightarrow> 0 < n"
  by (auto simp: utf8_front_def Let_def split: list.splits if_splits)

termination from_utf8_lossy
proof (relation "measure length")
  fix b bs x n valid assume "x = utf8_front b bs" "(n, valid) = x"
  then have "0 < n" using utf8_front_pos by metis
  then show "(drop n (b # bs), b # bs) \<in> measure length" by simp
qed simp

declare from_utf8_lossy.simps(2) [simp del]

lemma from_utf8_lossy_ascii:
  "(\<And>b. b \<in> set bs \<Longrightarrow> b < 0x80) \<Longrightarrow> from_utf8_lossy bs = map (\<lambda>b. char_of (unat b)) bs"
proof (induction bs)
  case (Cons b bs)
  have "utf8_front b bs = (1, True)"
    using Cons.prems [of b] by (auto simp: utf8_front_def Let_def utf8_width_def split: list.splits)
  with Cons show ?case by (simp add: from_utf8_lossy.simps(2))
qed simp

section \<open>Answers\<close>

datatype rdata = RdA u32 | RdAaaa "128 word" | RdCaa string bytes | RdTxt "bytes list" | RdOther

datatype lookup = Answers "rdata list" | NoRecords | LookupFailed

datatype record_type = TypeA | TypeAaaa | TypeCaa | TypeTxt

text \<open>A resolver's answer to the \<open>q\<close>-th question of an observation.\<close>

type_synonym resolver = "nat \<Rightarrow> string \<Rightarrow> record_type \<Rightarrow> lookup"

text \<open>Whether the resolvers could be built, and what they answer.\<close>

record view =
  vw_built :: bool
  vw_authoritative :: resolver
  vw_recursive :: resolver

definition observer_new :: "ip_addr list \<Rightarrow> dns_error + ip_addr list" where
  "observer_new authoritative =
     (if authoritative = [] \<or> length authoritative > 8 \<or> list_ex is_unspecified authoritative
      then Inl DnsInvalidChange else Inr authoritative)"

definition record_absent :: "resolver \<Rightarrow> nat \<Rightarrow> string \<Rightarrow> record_type \<Rightarrow> bool" where
  "record_absent R q name kind =
     (case R q name kind of Answers ds \<Rightarrow> ds = [] | NoRecords \<Rightarrow> True | LookupFailed \<Rightarrow> False)"

fun address_text :: "rdata \<Rightarrow> string option" where
  "address_text (RdA w) = Some (ipv4_text w)"
| "address_text (RdAaaa w) = Some (ipv6_text w)"
| "address_text _ = None"

definition lookup_addresses :: "resolver \<Rightarrow> nat \<Rightarrow> string \<Rightarrow> record_type \<Rightarrow> string set option" where
  "lookup_addresses R q name kind =
     (case R q name kind of
        Answers ds \<Rightarrow> Some (set (List.map_filter address_text ds))
      | NoRecords \<Rightarrow> Some {}
      | LookupFailed \<Rightarrow> None)"

fun caa_text :: "rdata \<Rightarrow> string option" where
  "caa_text (RdCaa tag value) = Some (''0 '' @ tag @ '' '' @ quoted (from_utf8_lossy value))"
| "caa_text _ = None"

fun is_v4 :: "ip_addr \<Rightarrow> bool" where
  "is_v4 (V4 _) \<longleftrightarrow> True"
| "is_v4 (V6 _) \<longleftrightarrow> False"

definition check_name :: "resolver \<Rightarrow> name_records \<Rightarrow> bool" where
  "check_name R r =
     (let name = nr_hostname r @ ''.'';
          expected_v4 = set (map ip_text (filter is_v4 (nr_addresses r)));
          expected_v6 = set (map ip_text (filter (\<lambda>ip. \<not> is_v4 ip) (nr_addresses r)))
      in case lookup_addresses R 0 name TypeA of
           None \<Rightarrow> False
         | Some observed_v4 \<Rightarrow>
             (case lookup_addresses R 1 name TypeAaaa of
                None \<Rightarrow> False
              | Some observed_v6 \<Rightarrow>
                  if observed_v4 \<noteq> expected_v4 \<or> observed_v6 \<noteq> expected_v6 then False
                  else (case caa_values (nr_acme_account_uri r) of
                      Inl _ \<Rightarrow> False
                    | Inr expected_caa \<Rightarrow>
                        (case R 2 name TypeCaa of
                           Answers ds \<Rightarrow> set (List.map_filter caa_text ds) = set expected_caa
                         | _ \<Rightarrow> False))))"

fun txt_is :: "string \<Rightarrow> rdata \<Rightarrow> bool" where
  "txt_is value (RdTxt parts) \<longleftrightarrow> concat parts = as_bytes value"
| "txt_is value _ \<longleftrightarrow> False"

definition check_txt :: "resolver \<Rightarrow> nat \<Rightarrow> string \<Rightarrow> string \<Rightarrow> bool" where
  "check_txt R q name value =
     (case R q (name @ ''.'') TypeTxt of Answers ds \<Rightarrow> list_ex (txt_is value) ds | _ \<Rightarrow> False)"

section \<open>Observations\<close>

definition name_visible :: "view \<Rightarrow> name_records \<Rightarrow> dns_error + bool" where
  "name_visible V r =
     (case validate_records r of
        Inl e \<Rightarrow> Inl e
      | Inr _ \<Rightarrow>
          if \<not> vw_built V then Inl DnsUnavailable
          else Inr (check_name (vw_authoritative V) r \<and> check_name (vw_recursive V) r))"

definition challenge_absent :: "view \<Rightarrow> string \<Rightarrow> dns_error + bool" where
  "challenge_absent V hostname =
     (case challenge_name hostname of
        Inl e \<Rightarrow> Inl e
      | Inr name \<Rightarrow>
          if \<not> vw_built V then Inl DnsUnavailable
          else Inr (record_absent (vw_authoritative V) 0 (name @ ''.'') TypeTxt
                    \<and> record_absent (vw_recursive V) 0 (name @ ''.'') TypeTxt))"

fun all_visible :: "view \<Rightarrow> string \<Rightarrow> nat \<Rightarrow> string list \<Rightarrow> bool" where
  "all_visible V name q [] \<longleftrightarrow> True"
| "all_visible V name q (value # values) \<longleftrightarrow>
     (if \<not> check_txt (vw_authoritative V) q name value \<or> \<not> check_txt (vw_recursive V) q name value then False
      else all_visible V name (Suc q) values)"

definition challenge_values_visible :: "view \<Rightarrow> string \<Rightarrow> string list \<Rightarrow> dns_error + bool" where
  "challenge_values_visible V hostname values =
     (if values = [] then challenge_absent V hostname
      else (case challenge_name hostname of
          Inl e \<Rightarrow> Inl e
        | Inr name \<Rightarrow> if \<not> vw_built V then Inl DnsUnavailable else Inr (all_visible V name 0 values)))"

definition name_absent :: "view \<Rightarrow> string \<Rightarrow> dns_error + bool" where
  "name_absent V hostname =
     (case dns_hostname hostname of
        Inl e \<Rightarrow> Inl e
      | Inr _ \<Rightarrow>
          if \<not> vw_built V then Inl DnsUnavailable
          else Inr (list_all (\<lambda>R. list_all (\<lambda>(q, kind). record_absent R q (hostname @ ''.'') kind)
                      [(0, TypeA), (1, TypeAaaa), (2, TypeCaa)])
                    [vw_authoritative V, vw_recursive V]))"

section \<open>What a positive observation means\<close>

text \<open>The records of a name a resolver shows, when it answers all three questions.\<close>

definition seen :: "resolver \<Rightarrow> string \<Rightarrow> published set option" where
  "seen R h =
     (case (lookup_addresses R 0 (h @ ''.'') TypeA, lookup_addresses R 1 (h @ ''.'') TypeAaaa, R 2 (h @ ''.'') TypeCaa) of
        (Some a, Some aaaa, Answers ds) \<Rightarrow>
          Some (Pair ''A'' ` a \<union> Pair ''AAAA'' ` aaaa \<union> Pair ''CAA'' ` set (List.map_filter caa_text ds))
      | _ \<Rightarrow> None)"

lemma tagged_parts:
  "{x. (''A'', x) \<in> Pair ''A'' ` a \<union> Pair ''AAAA'' ` b \<union> Pair ''CAA'' ` c} = a"
  "{x. (''AAAA'', x) \<in> Pair ''A'' ` a \<union> Pair ''AAAA'' ` b \<union> Pair ''CAA'' ` c} = b"
  "{x. (''CAA'', x) \<in> Pair ''A'' ` a \<union> Pair ''AAAA'' ` b \<union> Pair ''CAA'' ` c} = c"
  by (simp_all add: image_iff)

lemma tagged_eq:
  "Pair ''A'' ` a \<union> Pair ''AAAA'' ` b \<union> Pair ''CAA'' ` c = Pair ''A'' ` a' \<union> Pair ''AAAA'' ` b' \<union> Pair ''CAA'' ` c'
     \<longleftrightarrow> a = a' \<and> b = b' \<and> c = c'" (is "?S = ?S' \<longleftrightarrow> _")
proof
  assume "?S = ?S'"
  then have "{x. (''A'', x) \<in> ?S} = {x. (''A'', x) \<in> ?S'}" "{x. (''AAAA'', x) \<in> ?S} = {x. (''AAAA'', x) \<in> ?S'}"
    "{x. (''CAA'', x) \<in> ?S} = {x. (''CAA'', x) \<in> ?S'}" by (simp_all only:)
  then show "a = a' \<and> b = b' \<and> c = c'" unfolding tagged_parts by blast
qed (simp only:)

lemma check_name_seen:
  assumes "validate_records r = Inr ()"
  shows "check_name R r \<longleftrightarrow> seen R (nr_hostname r) = Some (wanted r)"
proof -
  from assms have "\<not> isl (validate_acme_account_uri (nr_acme_account_uri r))"
    by (auto simp: validate_records_def split: sum.splits if_splits)
  then obtain vs where vs: "caa_values (nr_acme_account_uri r) = Inr vs" by (simp add: caa_values_def)
  have "address_record ` set ips = Pair ''A'' ` set (map ip_text (filter is_v4 ips))
      \<union> Pair ''AAAA'' ` set (map ip_text (filter (\<lambda>ip. \<not> is_v4 ip) ips))" for ips
  proof (induction ips)
    case (Cons ip ips)
    then show ?case by (cases ip) auto
  qed simp
  then have wanted: "wanted r = Pair ''A'' ` set (map ip_text (filter is_v4 (nr_addresses r)))
      \<union> Pair ''AAAA'' ` set (map ip_text (filter (\<lambda>ip. \<not> is_v4 ip) (nr_addresses r))) \<union> Pair ''CAA'' ` set vs"
    by (simp add: wanted_def vs)
  show ?thesis
    unfolding check_name_def seen_def Let_def wanted vs sum.case
    by (cases "lookup_addresses R 0 (nr_hostname r @ ''.'') TypeA";
        cases "lookup_addresses R 1 (nr_hostname r @ ''.'') TypeAaaa"; cases "R 2 (nr_hostname r @ ''.'') TypeCaa")
      (simp_all only: option.case lookup.case prod.case option.inject option.distinct tagged_eq if_False if_True
        simp_thms de_Morgan_disj split: if_split, blast)
qed

lemma name_visible_True:
  assumes "name_visible V r = Inr True"
  shows "seen (vw_authoritative V) (nr_hostname r) = Some (wanted r)"
    and "seen (vw_recursive V) (nr_hostname r) = Some (wanted r)"
proof -
  from assms have "validate_records r = Inr ()" and "check_name (vw_authoritative V) r" "check_name (vw_recursive V) r"
    by (auto simp: name_visible_def split: sum.splits if_splits)
  then show "seen (vw_authoritative V) (nr_hostname r) = Some (wanted r)"
    "seen (vw_recursive V) (nr_hostname r) = Some (wanted r)" by (simp_all add: check_name_seen)
qed

text \<open>A value is shown by a resolver when one of its TXT answers carries it.\<close>

definition shows_txt :: "resolver \<Rightarrow> string \<Rightarrow> string \<Rightarrow> bool" where
  "shows_txt R name value \<longleftrightarrow> (\<exists>q ds. R q (name @ ''.'') TypeTxt = Answers ds \<and> (\<exists>d \<in> set ds. txt_is value d))"

lemma check_txt_shows: "check_txt R q name value \<Longrightarrow> shows_txt R name value"
  by (auto simp: check_txt_def shows_txt_def list_ex_iff split: lookup.splits)

lemma all_visible_shows:
  "all_visible V name q vs \<Longrightarrow> value \<in> set vs \<Longrightarrow>
     shows_txt (vw_authoritative V) name value \<and> shows_txt (vw_recursive V) name value"
  by (induction vs arbitrary: q) (auto split: if_splits dest: check_txt_shows)

lemma values_visible_True:
  assumes "challenge_values_visible V h values = Inr True" and "value \<in> set values"
  shows "shows_txt (vw_authoritative V) (''_acme-challenge.'' @ h) value \<and> shows_txt (vw_recursive V) (''_acme-challenge.'' @ h) value"
proof -
  from assms obtain name where "challenge_name h = Inr name" and vis: "all_visible V name 0 values"
    by (auto simp: challenge_values_visible_def split: sum.splits if_splits)
  then have "name = ''_acme-challenge.'' @ h" by (auto simp: challenge_name_def split: sum.splits)
  with all_visible_shows [OF vis assms(2)] show ?thesis by blast
qed

end
