(* ===== verification/Dns_Cloudflare.thy ===== *)
theory Dns_Cloudflare
  imports Dns_Records "HOL-Library.List_Lexorder" "HOL-Library.Char_ord" "HOL-Library.Product_Lexorder"
begin

text \<open>
  The Cloudflare provider (\<^verbatim>\<open>crates/bloom-relay-dns/src/cloudflare.rs\<close>): its requests, the plan of
  a serving change with its order, and the four operations. The service is a parameter: what it
  answers to a request and how its JSON decodes. The lemmas hold for a service that keeps a list
  of records and does what its API documents, also when a request fails after taking effect.
\<close>

section \<open>Records and requests\<close>

definition SERVING_COMMENT :: string where
  "SERVING_COMMENT = ''bloom-relay serving v1''"

definition CHALLENGE_PREFIX :: string where
  "CHALLENGE_PREFIX = ''bloom-relay challenge v1 ''"

definition CHALLENGE_COMMENT :: string where
  "CHALLENGE_COMMENT = ''bloom-relay challenge v1 set''"

datatype cloudflare_scope = CfServing | CfChallenge

record caa_data =
  cd_flags :: u8
  cd_tag :: string
  cd_value :: string

record cf_record =
  rc_id :: string
  rc_name :: string
  rc_kind :: string
  rc_content :: string
  rc_ttl :: u32
  rc_proxied :: bool
  rc_comment :: string
  rc_data :: "caa_data option"

text \<open>The JSON bodies the provider sends; an absent member is \<open>None\<close>.\<close>

record cf_body =
  bo_type :: string
  bo_name :: string
  bo_content :: "string option"
  bo_ttl :: u32
  bo_proxied :: "bool option"
  bo_comment :: string
  bo_data :: "caa_data option"

record 'a envelope =
  ev_success :: bool
  ev_result :: "'a option"
  ev_total_pages :: "u32 option"

type_synonym record_key = "string \<times> string"

definition record_key :: "cf_record \<Rightarrow> dns_error + record_key" where
  "record_key r =
     (if rc_kind r = ''CAA''
      then (case rc_data r of
          None \<Rightarrow> Inl DnsConflict
        | Some data \<Rightarrow>
            if cd_flags data \<noteq> 0 \<or> cd_tag data \<notin> {''issue'', ''issuewild''} then Inl DnsConflict
            else Inr (rc_kind r, cd_tag data @ '':'' @ cd_value data))
      else Inr (rc_kind r, rc_content r))"

datatype cf_method = GET | POST | DELETE | PATCH

text \<open>\<^verbatim>\<open>?name.exact=..&per_page=1000\<close>, the collection, and one record of it.\<close>

datatype cf_url = ListUrl string | Collection | Item string

text \<open>A request that could not be sent, or a status and the chunks of the body (\<open>None\<close> is a read error).\<close>

datatype cf_response = SendFailed | Response nat "bytes option list"

record 'z cf_service =
  sv_http :: "cf_method \<Rightarrow> cf_url \<Rightarrow> cf_body option \<Rightarrow> 'z \<Rightarrow> cf_response \<times> 'z"
  sv_records :: "bytes \<Rightarrow> cf_record list envelope option"
  sv_value :: "bytes \<Rightarrow> unit envelope option"

definition valid_id :: "string \<Rightarrow> bool" where
  "valid_id i \<longleftrightarrow> length i = 32 \<and> list_all is_ascii_hexdigit i"

definition is_ascii_whitespace :: "char \<Rightarrow> bool" where
  "is_ascii_whitespace c \<longleftrightarrow> byte_of c \<in> {9, 10, 12, 13, 32}"

definition is_ascii_control :: "char \<Rightarrow> bool" where
  "is_ascii_control c \<longleftrightarrow> byte_of c < 32 \<or> byte_of c = 127"

definition cloudflare_new :: "string \<Rightarrow> string \<Rightarrow> cloudflare_scope \<Rightarrow> dns_error + cloudflare_scope" where
  "cloudflare_new zone_id token scope =
     (if \<not> valid_id zone_id \<or> token = [] \<or> list_ex (\<lambda>b. is_ascii_whitespace b \<or> is_ascii_control b) token
      then Inl DnsInvalidChange else Inr scope)"

definition require :: "cloudflare_scope \<Rightarrow> cloudflare_scope \<Rightarrow> dns_error + unit" where
  "require own scope = (if own = scope then Inr () else Inl DnsInvalidChange)"

fun read_body :: "bytes option list \<Rightarrow> bytes \<Rightarrow> dns_error + bytes" where
  "read_body [] body = Inr body"
| "read_body (None # chunks) body = Inl DnsUnavailable"
| "read_body (Some chunk # chunks) body =
     (if length body + length chunk > 256 * 1024 then Inl DnsUnavailable else read_body chunks (body @ chunk))"

definition accept_response :: "(bytes \<Rightarrow> 'a envelope option) \<Rightarrow> cf_response \<Rightarrow> dns_error + 'a envelope" where
  "accept_response decode response =
     (case response of
        SendFailed \<Rightarrow> Inl DnsUnavailable
      | Response status chunks \<Rightarrow>
          if status = 409 then Inl DnsConflict
          else if \<not> (200 \<le> status \<and> status < 300) then Inl DnsUnavailable
          else (case read_body chunks [] of
            Inl e \<Rightarrow> Inl e
          | Inr body \<Rightarrow>
              (case decode body of
                 None \<Rightarrow> Inl DnsUnavailable
               | Some envelope \<Rightarrow> if \<not> ev_success envelope then Inl DnsUnavailable else Inr envelope)))"

definition cf_send ::
  "'z cf_service \<Rightarrow> (bytes \<Rightarrow> 'a envelope option) \<Rightarrow> cf_method \<Rightarrow> cf_url \<Rightarrow> cf_body option \<Rightarrow> 'z
     \<Rightarrow> (dns_error + 'a envelope) \<times> 'z" where
  "cf_send sv decode method url body z =
     (let (response, z') = sv_http sv method url body z in (accept_response decode response, z'))"

definition listed :: "string \<Rightarrow> cf_record list envelope \<Rightarrow> dns_error + cf_record list" where
  "listed name envelope =
     (case ev_total_pages envelope of
        None \<Rightarrow> Inl DnsUnavailable
      | Some pages \<Rightarrow>
          if pages > 1 then Inl DnsUnavailable
          else (case ev_result envelope of
            None \<Rightarrow> Inl DnsUnavailable
          | Some records \<Rightarrow>
              if length records > 1000 \<or> list_ex (\<lambda>r. rc_name r \<noteq> name \<or> \<not> valid_id (rc_id r)) records
              then Inl DnsUnavailable else Inr records))"

definition cf_list :: "'z cf_service \<Rightarrow> string \<Rightarrow> 'z \<Rightarrow> (dns_error + cf_record list) \<times> 'z" where
  "cf_list sv name z =
     (case cf_send sv (sv_records sv) GET (ListUrl name) None z of
        (Inl e, z') \<Rightarrow> (Inl e, z')
      | (Inr envelope, z') \<Rightarrow> (listed name envelope, z'))"

definition with_result :: "(dns_error + unit envelope) \<times> 'z \<Rightarrow> (dns_error + unit) \<times> 'z" where
  "with_result sent =
     (case sent of
        (Inl e, z') \<Rightarrow> (Inl e, z')
      | (Inr envelope, z') \<Rightarrow> (if ev_result envelope = None then Inl DnsUnavailable else Inr (), z'))"

definition cf_create :: "'z cf_service \<Rightarrow> cf_body \<Rightarrow> 'z dns_op" where
  "cf_create sv body z = with_result (cf_send sv (sv_value sv) POST Collection (Some body) z)"

definition cf_delete :: "'z cf_service \<Rightarrow> cf_record \<Rightarrow> 'z dns_op" where
  "cf_delete sv r z =
     (if \<not> valid_id (rc_id r) then (Inl DnsUnavailable, z)
      else (case cf_send sv (sv_value sv) DELETE (Item (rc_id r)) None z of
          (Inl e, z') \<Rightarrow> (Inl e, z')
        | (Inr _, z') \<Rightarrow> (Inr (), z')))"

definition cf_update :: "'z cf_service \<Rightarrow> cf_record \<times> cf_body \<Rightarrow> 'z dns_op" where
  "cf_update sv = (\<lambda>(r, body) z.
     if \<not> valid_id (rc_id r) then (Inl DnsUnavailable, z)
     else with_result (cf_send sv (sv_value sv) PATCH (Item (rc_id r)) (Some body) z))"

text \<open>A loop of requests that stops at the first error.\<close>

fun each :: "('a \<Rightarrow> 'z dns_op) \<Rightarrow> 'a list \<Rightarrow> 'z dns_op" where
  "each f [] z = (Inr (), z)"
| "each f (x # xs) z = (case f x z of (Inl e, z') \<Rightarrow> (Inl e, z') | (Inr _, z') \<Rightarrow> each f xs z')"

section \<open>The plan of a serving change\<close>

record serving_plan =
  pl_stale :: "cf_record list"
  pl_missing :: "cf_body list"
  pl_updates :: "(cf_record \<times> cf_body) list"

definition create_rank :: "cf_body \<Rightarrow> nat" where
  "create_rank b =
     (if bo_type b = ''CAA'' \<and> map_option cd_tag (bo_data b) = Some ''issuewild'' then 0
      else if bo_type b = ''CAA'' \<and> map_option cd_tag (bo_data b) = Some ''issue'' then 1
      else 2)"

definition delete_rank :: "cf_record \<Rightarrow> nat" where
  "delete_rank r =
     (if rc_kind r = ''CAA'' \<and> map_option cd_tag (rc_data r) = Some ''issue'' then 0
      else if rc_kind r = ''CAA'' \<and> map_option cd_tag (rc_data r) = Some ''issuewild'' then 2
      else 1)"

text \<open>
  The loop over the existing records: the keys found, the stale records and the updates.
  \<open>desired\<close> is the map of the wanted records.
\<close>

fun scan_serving ::
  "(record_key \<Rightarrow> cf_body option) \<Rightarrow> cf_record list \<Rightarrow> record_key set \<Rightarrow> cf_record list
     \<Rightarrow> (cf_record \<times> cf_body) list
     \<Rightarrow> dns_error + record_key set \<times> cf_record list \<times> (cf_record \<times> cf_body) list" where
  "scan_serving desired [] found stale updates = Inr (found, stale, updates)"
| "scan_serving desired (r # rs) found stale updates =
     (if rc_kind r \<in> {''CNAME'', ''NS''} then Inl DnsConflict
      else if rc_kind r \<notin> {''A'', ''AAAA'', ''CAA''} then scan_serving desired rs found stale updates
      else if rc_comment r \<noteq> SERVING_COMMENT then Inl DnsConflict
      else (case record_key r of
        Inl e \<Rightarrow> Inl e
      | Inr key \<Rightarrow>
          (case desired key of
             Some body \<Rightarrow>
               if key \<notin> found
               then scan_serving desired rs (insert key found) stale
                 (if rc_ttl r \<noteq> TTL_SECONDS \<or> rc_proxied r then updates @ [(r, body)] else updates)
               else scan_serving desired rs found (stale @ [r]) updates
           | None \<Rightarrow> scan_serving desired rs found (stale @ [r]) updates)))"

text \<open>The map collected from the wanted records iterates in the order of its keys.\<close>

definition plan_serving :: "cf_record list \<Rightarrow> (record_key \<times> cf_body) list \<Rightarrow> dns_error + serving_plan" where
  "plan_serving existing desired =
     (let desired_map = map_of (rev desired) in
      case scan_serving desired_map existing {} [] [] of
        Inl e \<Rightarrow> Inl e
      | Inr (found, stale, updates) \<Rightarrow>
          Inr \<lparr>pl_stale = sort_key delete_rank stale,
               pl_missing = sort_key create_rank (map (\<lambda>key. the (desired_map key))
                 (filter (\<lambda>key. key \<notin> found) (sort (remdups (map fst desired))))),
               pl_updates = updates\<rparr>)"

definition reconcile_serving :: "'z cf_service \<Rightarrow> string \<Rightarrow> (record_key \<times> cf_body) list \<Rightarrow> 'z dns_op" where
  "reconcile_serving sv name desired z =
     (case cf_list sv name z of
        (Inl e, z') \<Rightarrow> (Inl e, z')
      | (Inr existing, z') \<Rightarrow>
          (case plan_serving existing desired of
             Inl e \<Rightarrow> (Inl e, z')
           | Inr plan \<Rightarrow>
               (case each (cf_create sv) (pl_missing plan) z' of
                  (Inl e, z') \<Rightarrow> (Inl e, z')
                | (Inr _, z') \<Rightarrow>
                    (case each (cf_update sv) (pl_updates plan) z' of
                       (Inl e, z') \<Rightarrow> (Inl e, z')
                     | (Inr _, z') \<Rightarrow> each (cf_delete sv) (pl_stale plan) z'))))"

text \<open>\<^verbatim>\<open>str::contains\<close>.\<close>

fun contains :: "string \<Rightarrow> string \<Rightarrow> bool" where
  "contains needle [] \<longleftrightarrow> needle = []"
| "contains needle (c # s) \<longleftrightarrow> take (length needle) (c # s) = needle \<or> contains needle s"

fun kind_of :: "ip_addr \<Rightarrow> string" where
  "kind_of (V4 _) = ''A''"
| "kind_of (V6 _) = ''AAAA''"

definition address_entry :: "string \<Rightarrow> ip_addr \<Rightarrow> record_key \<times> cf_body" where
  "address_entry hostname ip =
     ((kind_of ip, ip_text ip),
      \<lparr>bo_type = kind_of ip, bo_name = hostname, bo_content = Some (ip_text ip), bo_ttl = TTL_SECONDS,
       bo_proxied = Some False, bo_comment = SERVING_COMMENT, bo_data = None\<rparr>)"

definition caa_entry :: "string \<Rightarrow> string \<Rightarrow> string \<Rightarrow> record_key \<times> cf_body" where
  "caa_entry hostname uri value =
     (let (tag, content) = (if contains '' issuewild '' value then (''issuewild'', '';'')
            else (''issue'', caa_issue_value uri))
      in ((''CAA'', tag @ '':'' @ content),
          \<lparr>bo_type = ''CAA'', bo_name = hostname, bo_content = None, bo_ttl = TTL_SECONDS, bo_proxied = None,
           bo_comment = SERVING_COMMENT, bo_data = Some \<lparr>cd_flags = 0, cd_tag = tag, cd_value = content\<rparr>\<rparr>))"

fun push_address :: "string \<Rightarrow> (record_key \<times> cf_body) list \<Rightarrow> ip_addr \<Rightarrow> (record_key \<times> cf_body) list" where
  "push_address hostname desired ip =
     (let entry = address_entry hostname ip
      in if list_ex (\<lambda>(existing, _). existing = fst entry) desired then desired else desired @ [entry])"

definition serving_desired :: "name_records \<Rightarrow> dns_error + (record_key \<times> cf_body) list" where
  "serving_desired r =
     (case validate_records r of
        Inl e \<Rightarrow> Inl e
      | Inr _ \<Rightarrow>
          let desired = foldl (push_address (nr_hostname r)) [] (nr_addresses r) in
          (case caa_values (nr_acme_account_uri r) of
             Inl e \<Rightarrow> Inl e
           | Inr values \<Rightarrow> Inr (desired @ map (caa_entry (nr_hostname r) (nr_acme_account_uri r)) values)))"

section \<open>The operations\<close>

definition cf_publish_name :: "cloudflare_scope \<Rightarrow> 'z cf_service \<Rightarrow> name_records \<Rightarrow> 'z dns_op" where
  "cf_publish_name scope sv r z =
     (case require scope CfServing of
        Inl e \<Rightarrow> (Inl e, z)
      | Inr _ \<Rightarrow>
          (case serving_desired r of
             Inl e \<Rightarrow> (Inl e, z)
           | Inr desired \<Rightarrow> reconcile_serving sv (nr_hostname r) desired z))"

definition txt_content :: "cf_record \<Rightarrow> string" where
  "txt_content r =
     (case Option.bind (strip_prefix [CHR 0x22] (rc_content r)) (strip_suffix [CHR 0x22]) of
        None \<Rightarrow> rc_content r
      | Some value \<Rightarrow> value)"

definition challenge_managed :: "cf_record \<Rightarrow> bool" where
  "challenge_managed r \<longleftrightarrow> strip_prefix CHALLENGE_PREFIX (rc_comment r) \<noteq> None"

text \<open>The loop that keeps one record per wanted value and deletes the rest.\<close>

fun keep_values ::
  "'z cf_service \<Rightarrow> string list \<Rightarrow> cf_record list \<Rightarrow> string set \<Rightarrow> 'z \<Rightarrow> (dns_error + string set) \<times> 'z" where
  "keep_values sv values [] kept z = (Inr kept, z)"
| "keep_values sv values (r # rs) kept z =
     (if txt_content r \<in> set values \<and> txt_content r \<notin> kept
      then keep_values sv values rs (insert (txt_content r) kept) z
      else (case cf_delete sv r z of
          (Inl e, z') \<Rightarrow> (Inl e, z')
        | (Inr _, z') \<Rightarrow> keep_values sv values rs kept z'))"

definition txt_body :: "string \<Rightarrow> string \<Rightarrow> cf_body" where
  "txt_body name value =
     \<lparr>bo_type = ''TXT'', bo_name = name, bo_content = Some (quoted value), bo_ttl = 60, bo_proxied = None,
      bo_comment = CHALLENGE_COMMENT, bo_data = None\<rparr>"

definition cf_set_challenge :: "cloudflare_scope \<Rightarrow> 'z cf_service \<Rightarrow> string \<Rightarrow> string list \<Rightarrow> 'z dns_op" where
  "cf_set_challenge scope sv hostname values z =
     (case require scope CfChallenge of
        Inl e \<Rightarrow> (Inl e, z)
      | Inr _ \<Rightarrow>
          (case validate_challenge_values values of
             Inl e \<Rightarrow> (Inl e, z)
           | Inr _ \<Rightarrow>
               (case challenge_name hostname of
                  Inl e \<Rightarrow> (Inl e, z)
                | Inr name \<Rightarrow>
                    (case cf_list sv name z of
                       (Inl e, z') \<Rightarrow> (Inl e, z')
                     | (Inr records, z') \<Rightarrow>
                         if list_ex (\<lambda>r. rc_kind r \<noteq> ''TXT'' \<or> \<not> challenge_managed r) records
                         then (Inl DnsConflict, z')
                         else (case keep_values sv values records {} z' of
                             (Inl e, z') \<Rightarrow> (Inl e, z')
                           | (Inr kept, z') \<Rightarrow>
                               each (\<lambda>value. cf_create sv (txt_body name value))
                                 (filter (\<lambda>value. value \<notin> kept) values) z')))))"

definition cf_retire_name :: "cloudflare_scope \<Rightarrow> 'z cf_service \<Rightarrow> string \<Rightarrow> 'z dns_op" where
  "cf_retire_name scope sv hostname z =
     (case require scope CfServing of
        Inl e \<Rightarrow> (Inl e, z)
      | Inr _ \<Rightarrow>
          (case dns_hostname hostname of
             Inl e \<Rightarrow> (Inl e, z)
           | Inr _ \<Rightarrow>
               (case cf_list sv hostname z of
                  (Inl e, z') \<Rightarrow> (Inl e, z')
                | (Inr found, z') \<Rightarrow>
                    let records = filter (\<lambda>r. rc_kind r \<in> {''A'', ''AAAA'', ''CAA''}) found in
                    if list_ex (\<lambda>r. rc_comment r \<noteq> SERVING_COMMENT) records then (Inl DnsConflict, z')
                    else (case List.find (\<lambda>r. rc_kind r = ''CAA'' \<and> isl (record_key r)) records of
                        Some r \<Rightarrow> (Inl (projl (record_key r)), z')
                      | None \<Rightarrow> each (cf_delete sv) (sort_key delete_rank records) z'))))"

definition cf_retire_challenge :: "cloudflare_scope \<Rightarrow> 'z cf_service \<Rightarrow> string \<Rightarrow> 'z dns_op" where
  "cf_retire_challenge scope sv hostname z =
     (case require scope CfChallenge of
        Inl e \<Rightarrow> (Inl e, z)
      | Inr _ \<Rightarrow>
          (case challenge_name hostname of
             Inl e \<Rightarrow> (Inl e, z)
           | Inr name \<Rightarrow>
               (case cf_list sv name z of
                  (Inl e, z') \<Rightarrow> (Inl e, z')
                | (Inr found, z') \<Rightarrow>
                    let records = filter (\<lambda>r. rc_kind r = ''TXT'') found in
                    if list_ex (\<lambda>r. \<not> challenge_managed r) records then (Inl DnsConflict, z')
                    else each (cf_delete sv) records z')))"

definition cloudflare_provider :: "cloudflare_scope \<Rightarrow> 'z cf_service \<Rightarrow> 'z provider" where
  "cloudflare_provider scope sv =
     \<lparr>pv_publish_name = cf_publish_name scope sv, pv_set_challenge = cf_set_challenge scope sv,
      pv_retire_name = cf_retire_name scope sv, pv_retire_challenge = cf_retire_challenge scope sv\<rparr>"

end
