(* ===== verification/Dns_Route53.thy ===== *)
theory Dns_Route53
  imports Dns_Records
begin

text \<open>
  The Route 53 provider (\<^verbatim>\<open>crates/bloom-relay-dns/src/route53.rs\<close>). The AWS client is a parameter:
  what a listing returns and whether a batch of changes was acknowledged. The lemmas hold for a
  service that does what its API documents: a batch is applied as a whole or not at all, and one
  that is reported as failed may have been applied.
\<close>

section \<open>Record sets and changes\<close>

datatype rr_type = RrA | RrAaaa | RrCaa | RrTxt | RrOther string

text \<open>\<open>rs_rest\<close> stands for the members of a set that the provider copies without reading them.\<close>

record rr_set =
  rs_name :: string
  rs_type :: rr_type
  rs_ttl :: int
  rs_values :: "string list"
  rs_rest :: string

datatype change_action = ChDelete | ChUpsert

type_synonym rr_change = "change_action \<times> rr_set"

record 'z r53_service =
  aws_list :: "string \<Rightarrow> nat \<Rightarrow> 'z \<Rightarrow> rr_set list option \<times> 'z"
  aws_change :: "rr_change list \<Rightarrow> 'z \<Rightarrow> bool \<times> 'z"

definition route53_new :: "string \<Rightarrow> dns_error + string" where
  "route53_new hosted_zone_id =
     (if hosted_zone_id = [] \<or> \<not> list_all (\<lambda>b. is_ascii_alphanumeric b \<or> b = CHR ''/'') hosted_zone_id
      then Inl DnsInvalidChange else Inr hosted_zone_id)"

definition r53_apply :: "'z r53_service \<Rightarrow> rr_change list \<Rightarrow> 'z dns_op" where
  "r53_apply sv changes z =
     (let (ok, z') = aws_change sv changes z in (if ok then Inr () else Inl DnsUnavailable, z'))"

definition r53_change :: "string \<Rightarrow> rr_type \<Rightarrow> u32 \<Rightarrow> string list \<Rightarrow> change_action \<Rightarrow> dns_error + rr_change" where
  "r53_change name kind ttl values action =
     (if values = [] then Inl DnsInvalidChange
      else Inr (action, \<lparr>rs_name = name, rs_type = kind, rs_ttl = uint ttl, rs_values = values, rs_rest = []\<rparr>))"

text \<open>\<^verbatim>\<open>trim_end_matches('.')\<close>.\<close>

definition trim_dots :: "string \<Rightarrow> string" where
  "trim_dots s = rev (dropWhile (\<lambda>c. c = CHR ''.'') (rev s))"

definition v4_texts :: "ip_addr list \<Rightarrow> string list" where
  "v4_texts ips = List.map_filter (\<lambda>ip. case ip of V4 w \<Rightarrow> Some (ipv4_text w) | V6 _ \<Rightarrow> None) ips"

definition v6_texts :: "ip_addr list \<Rightarrow> string list" where
  "v6_texts ips = List.map_filter (\<lambda>ip. case ip of V6 w \<Rightarrow> Some (ipv6_text w) | V4 _ \<Rightarrow> None) ips"

section \<open>The operations\<close>

definition serving_upserts :: "name_records \<Rightarrow> dns_error + rr_change list" where
  "serving_upserts r =
     (let ipv4 = v4_texts (nr_addresses r); ipv6 = v6_texts (nr_addresses r) in
      case (if ipv4 = [] then Inr [] else map_sum id (\<lambda>c. [c]) (r53_change (nr_hostname r) RrA TTL_SECONDS ipv4 ChUpsert)) of
        Inl e \<Rightarrow> Inl e
      | Inr a \<Rightarrow>
          (case (if ipv6 = [] then Inr [] else map_sum id (\<lambda>c. [c]) (r53_change (nr_hostname r) RrAaaa TTL_SECONDS ipv6 ChUpsert)) of
             Inl e \<Rightarrow> Inl e
           | Inr aaaa \<Rightarrow>
               (case caa_values (nr_acme_account_uri r) of
                  Inl e \<Rightarrow> Inl e
                | Inr values \<Rightarrow>
                    (case r53_change (nr_hostname r) RrCaa TTL_SECONDS values ChUpsert of
                       Inl e \<Rightarrow> Inl e
                     | Inr caa \<Rightarrow> Inr (a @ aaaa @ [caa])))))"

definition stale_sets :: "name_records \<Rightarrow> rr_set list \<Rightarrow> rr_set list" where
  "stale_sets r existing =
     filter (\<lambda>s. trim_dots (rs_name s) = nr_hostname r
       \<and> (rs_type s = RrA \<and> v4_texts (nr_addresses r) = [] \<or> rs_type s = RrAaaa \<and> v6_texts (nr_addresses r) = [])) existing"

definition r53_publish_name :: "'z r53_service \<Rightarrow> name_records \<Rightarrow> 'z dns_op" where
  "r53_publish_name sv r z =
     (case validate_records r of
        Inl e \<Rightarrow> (Inl e, z)
      | Inr _ \<Rightarrow>
          (case aws_list sv (nr_hostname r) 10 z of
             (None, z') \<Rightarrow> (Inl DnsUnavailable, z')
           | (Some existing, z') \<Rightarrow>
               (case serving_upserts r of
                  Inl e \<Rightarrow> (Inl e, z')
                | Inr upserts \<Rightarrow> r53_apply sv (map (Pair ChDelete) (stale_sets r existing) @ upserts) z')))"

definition r53_retire_challenge :: "'z r53_service \<Rightarrow> string \<Rightarrow> 'z dns_op" where
  "r53_retire_challenge sv hostname z =
     (case challenge_name hostname of
        Inl e \<Rightarrow> (Inl e, z)
      | Inr name \<Rightarrow>
          (case aws_list sv name 2 z of
             (None, z') \<Rightarrow> (Inl DnsUnavailable, z')
           | (Some existing, z') \<Rightarrow>
               (case List.find (\<lambda>s. trim_dots (rs_name s) = name \<and> rs_type s = RrTxt) existing of
                  None \<Rightarrow> (Inr (), z')
                | Some s \<Rightarrow> r53_apply sv [(ChDelete, s)] z')))"

definition r53_set_challenge :: "'z r53_service \<Rightarrow> string \<Rightarrow> string list \<Rightarrow> 'z dns_op" where
  "r53_set_challenge sv hostname values z =
     (case challenge_name hostname of
        Inl e \<Rightarrow> (Inl e, z)
      | Inr name \<Rightarrow>
          (case validate_challenge_values values of
             Inl e \<Rightarrow> (Inl e, z)
           | Inr _ \<Rightarrow>
               if values = [] then r53_retire_challenge sv hostname z
               else (case r53_change name RrTxt 30 (map quoted values) ChUpsert of
                   Inl e \<Rightarrow> (Inl e, z)
                 | Inr c \<Rightarrow> r53_apply sv [c] z)))"

definition r53_retire_name :: "'z r53_service \<Rightarrow> string \<Rightarrow> 'z dns_op" where
  "r53_retire_name sv hostname z =
     (case dns_hostname hostname of
        Inl e \<Rightarrow> (Inl e, z)
      | Inr _ \<Rightarrow>
          (case aws_list sv hostname 10 z of
             (None, z') \<Rightarrow> (Inl DnsUnavailable, z')
           | (Some existing, z') \<Rightarrow>
               let changes = map (Pair ChDelete)
                 (filter (\<lambda>s. trim_dots (rs_name s) = hostname \<and> rs_type s \<in> {RrA, RrAaaa, RrCaa}) existing)
               in if changes = [] then (Inr (), z') else r53_apply sv changes z'))"

definition route53_provider :: "'z r53_service \<Rightarrow> 'z provider" where
  "route53_provider sv =
     \<lparr>pv_publish_name = r53_publish_name sv, pv_set_challenge = r53_set_challenge sv,
      pv_retire_name = r53_retire_name sv, pv_retire_challenge = r53_retire_challenge sv\<rparr>"

section \<open>The documented service\<close>

definition same_key :: "rr_set \<Rightarrow> rr_set \<Rightarrow> bool" where
  "same_key s r \<longleftrightarrow> trim_dots (rs_name r) = trim_dots (rs_name s) \<and> rs_type r = rs_type s"

text \<open>
  A deletion names a set as it was listed. An upsert replaces the set of the same name and type;
  the service may write the name with its final dot.
\<close>

fun effect :: "rr_change \<Rightarrow> rr_set set \<Rightarrow> rr_set set \<Rightarrow> bool" where
  "effect (ChDelete, s) Z Z' \<longleftrightarrow> Z' = Z - {s}"
| "effect (ChUpsert, s) Z Z' \<longleftrightarrow> (\<exists>r. same_key s r \<and> rs_values r = rs_values s \<and> rs_ttl r = rs_ttl s
     \<and> Z' = insert r {x \<in> Z. \<not> same_key s x})"

fun batch :: "rr_change list \<Rightarrow> rr_set set \<Rightarrow> rr_set set \<Rightarrow> bool" where
  "batch [] Z Z' \<longleftrightarrow> Z' = Z"
| "batch (c # cs) Z Z' \<longleftrightarrow> (\<exists>Z1. effect c Z Z1 \<and> batch cs Z1 Z')"

definition sets_at :: "string \<Rightarrow> rr_set set \<Rightarrow> rr_set set" where
  "sets_at name Z = {r \<in> Z. trim_dots (rs_name r) = name}"

definition r53_documented :: "'z r53_service \<Rightarrow> ('z \<Rightarrow> rr_set set) \<Rightarrow> bool" where
  "r53_documented sv zone \<longleftrightarrow>
     (\<forall>name n z x z'. aws_list sv name n z = (x, z') \<longrightarrow> zone z' = zone z
        \<and> (\<forall>rs. x = Some rs \<longrightarrow> sets_at name (set rs) \<subseteq> zone z
             \<and> (finite (sets_at name (zone z)) \<and> card (sets_at name (zone z)) \<le> n \<longrightarrow> sets_at name (set rs) = sets_at name (zone z))))
     \<and> (\<forall>cs z ok z'. aws_change sv cs z = (ok, z') \<longrightarrow> \<not> ok \<and> zone z' = zone z \<or> batch cs (zone z) (zone z'))"

lemma r53_list:
  assumes "r53_documented sv zone" and "aws_list sv name n z = (x, z')"
  shows "zone z' = zone z" and "x = Some rs \<Longrightarrow> sets_at name (set rs) \<subseteq> zone z"
    and "x = Some rs \<Longrightarrow> finite (sets_at name (zone z)) \<Longrightarrow> card (sets_at name (zone z)) \<le> n \<Longrightarrow>
      sets_at name (set rs) = sets_at name (zone z)"
  using assms unfolding r53_documented_def by blast+

lemma r53_apply_effect:
  assumes "r53_documented sv zone" and "r53_apply sv cs z = (x, z')"
  shows "isl x \<and> zone z' = zone z \<or> batch cs (zone z) (zone z')"
proof -
  obtain ok z1 where run: "aws_change sv cs z = (ok, z1)" by fastforce
  then have "\<not> ok \<and> zone z1 = zone z \<or> batch cs (zone z) (zone z1)"
    using assms(1) unfolding r53_documented_def by blast
  with assms(2) run show ?thesis by (auto simp: r53_apply_def)
qed

section \<open>What a resolver would see\<close>

definition typed :: "rr_type \<Rightarrow> string \<Rightarrow> rr_set set \<Rightarrow> rr_set set" where
  "typed t name Z = {r \<in> sets_at name Z. rs_type r = t}"

definition texts :: "rr_type \<Rightarrow> string \<Rightarrow> rr_set set \<Rightarrow> string set" where
  "texts t name Z = (\<Union>r \<in> typed t name Z. set (rs_values r))"

definition r53_serving :: "('z \<Rightarrow> rr_set set) \<Rightarrow> 'z \<Rightarrow> string \<Rightarrow> published set" where
  "r53_serving zone z h = Pair ''A'' ` texts RrA h (zone z) \<union> Pair ''AAAA'' ` texts RrAaaa h (zone z)
     \<union> Pair ''CAA'' ` texts RrCaa h (zone z)"

definition txt_at :: "string \<Rightarrow> string" where
  "txt_at h = ''_acme-challenge.'' @ h"

definition r53_challenge :: "('z \<Rightarrow> rr_set set) \<Rightarrow> 'z \<Rightarrow> string \<Rightarrow> string set" where
  "r53_challenge zone z h = {v. quoted v \<in> texts RrTxt (txt_at h) (zone z)}"

lemma texts_upsert:
  assumes "effect (ChUpsert, s) Z Z'" and "trim_dots (rs_name s) = name"
  shows "texts t n Z' = (if t = rs_type s \<and> n = name then set (rs_values s) else texts t n Z)"
proof -
  from assms(1) obtain r where r: "same_key s r" "rs_values r = rs_values s" "Z' = insert r {x \<in> Z. \<not> same_key s x}" by auto
  have "typed t n Z' = (if t = rs_type s \<and> n = name then {r} else typed t n Z)"
    using r(1,3) assms(2) by (auto simp: typed_def sets_at_def same_key_def)
  with r(2) show ?thesis by (simp add: texts_def)
qed

lemma batch_append: "batch (cs @ ds) Z Z' \<longleftrightarrow> (\<exists>Z1. batch cs Z Z1 \<and> batch ds Z1 Z')"
  by (induction cs arbitrary: Z) auto

lemma batch_deletes: "batch (map (Pair ChDelete) ss) Z Z' \<longleftrightarrow> Z' = Z - set ss"
proof (induction ss arbitrary: Z)
  case (Cons s ss)
  have "Z - {s} - set ss = Z - set (s # ss)" by auto
  with Cons show ?case by simp
qed simp

lemma typed_Diff: "typed t name (Z - S) = typed t name Z - S"
  by (auto simp: typed_def sets_at_def)

text \<open>A batch of upserts at one name, with different types.\<close>

lemma texts_upserts:
  assumes "batch cs Z Z'" and "\<And>c. c \<in> set cs \<Longrightarrow> fst c = ChUpsert \<and> trim_dots (rs_name (snd c)) = name"
    and "distinct (map (rs_type \<circ> snd) cs)"
  shows "texts t n Z' = (case List.find (\<lambda>c. rs_type (snd c) = t) cs of
      Some c \<Rightarrow> if n = name then set (rs_values (snd c)) else texts t n Z
    | None \<Rightarrow> texts t n Z)"
  using assms
proof (induction cs arbitrary: Z)
  case (Cons c cs)
  from Cons.prems(1) obtain Z1 where Z1: "effect c Z Z1" "batch cs Z1 Z'" by auto
  from Cons.prems(2) [of c] obtain s where c: "c = (ChUpsert, s)" "trim_dots (rs_name s) = name" by (cases c) auto
  note head = texts_upsert [OF Z1(1) [unfolded c(1)] c(2)]
  have tail: "texts t n Z' = (case List.find (\<lambda>c. rs_type (snd c) = t) cs of
      Some c \<Rightarrow> if n = name then set (rs_values (snd c)) else texts t n Z1 | None \<Rightarrow> texts t n Z1)"
    using Cons.IH [OF Z1(2)] Cons.prems(2,3) by simp
  show ?case
  proof (cases "rs_type (snd c) = t")
    case True
    have "List.find (\<lambda>c. rs_type (snd c) = t) cs = None"
    proof -
      have "t \<notin> (rs_type \<circ> snd) ` set cs" using Cons.prems(3) True by auto
      then have "\<forall>d \<in> set cs. rs_type (snd d) \<noteq> t" by (metis comp_apply image_eqI)
      then show ?thesis by (auto simp: find_None_iff)
    qed
    with tail head c(1) True show ?thesis by simp
  next
    case False
    with tail head c(1) show ?thesis by (simp split: option.split)
  qed
qed simp

section \<open>Publishing and retiring\<close>

lemma trim_dots_id: "s = p @ [c] \<Longrightarrow> c \<noteq> CHR ''.'' \<Longrightarrow> trim_dots s = s"
  by (simp add: trim_dots_def)

lemma hostname_end: "validate_hostname h = Inr () \<Longrightarrow> \<exists>p. h = p @ ''y''"
  by (auto simp: validate_hostname_Inr RELAY_SUFFIX_def)

lemma trim_hostname: "dns_hostname h = Inr u \<Longrightarrow> trim_dots h = h"
  by (auto simp: dns_hostname_def split: sum.splits dest!: hostname_end intro!: trim_dots_id)

lemma trim_challenge:
  assumes "challenge_name h = Inr name"
  shows "name = txt_at h" and "trim_dots (txt_at h) = txt_at h"
proof -
  from assms have "validate_hostname h = Inr ()" and name: "name = txt_at h"
    by (auto simp: challenge_name_def dns_hostname_def txt_at_def split: sum.splits)
  with hostname_end obtain p where "h = p @ [CHR ''y'']" by auto
  then show "trim_dots (txt_at h) = txt_at h" using trim_dots_id [of "txt_at h" "txt_at p" "CHR ''y''"] by (simp add: txt_at_def)
  show "name = txt_at h" by (rule name)
qed

definition upsert :: "string \<Rightarrow> rr_type \<Rightarrow> string list \<Rightarrow> rr_change" where
  "upsert h t vs = (ChUpsert, \<lparr>rs_name = h, rs_type = t, rs_ttl = uint TTL_SECONDS, rs_values = vs, rs_rest = []\<rparr>)"

lemma serving_upserts_Inr:
  assumes "validate_records r = Inr ()"
  obtains vs where "caa_values (nr_acme_account_uri r) = Inr vs" "vs \<noteq> []"
    "serving_upserts r = Inr ((if v4_texts (nr_addresses r) = [] then [] else [upsert (nr_hostname r) RrA (v4_texts (nr_addresses r))])
      @ (if v6_texts (nr_addresses r) = [] then [] else [upsert (nr_hostname r) RrAaaa (v6_texts (nr_addresses r))])
      @ [upsert (nr_hostname r) RrCaa vs])"
proof -
  from assms have "\<not> isl (validate_acme_account_uri (nr_acme_account_uri r))"
    by (auto simp: validate_records_def split: sum.splits if_splits)
  then obtain vs where vs: "caa_values (nr_acme_account_uri r) = Inr vs" "vs \<noteq> []" by (simp add: caa_values_def)
  then show thesis
    by (intro that) (auto simp: serving_upserts_def r53_change_def upsert_def Let_def)
qed

lemma publish_batch:
  assumes valid: "validate_records r = Inr ()" and us: "serving_upserts r = Inr us"
    and "batch (map (Pair ChDelete) (stale_sets r rs) @ us) Z Z'"
  shows "\<exists>Z1. Z1 = Z - set (stale_sets r rs) \<and> texts t n Z' =
    (if n \<noteq> nr_hostname r then texts t n Z1
     else case t of
       RrA \<Rightarrow> if v4_texts (nr_addresses r) = [] then texts t n Z1 else set (v4_texts (nr_addresses r))
     | RrAaaa \<Rightarrow> if v6_texts (nr_addresses r) = [] then texts t n Z1 else set (v6_texts (nr_addresses r))
     | RrCaa \<Rightarrow> set (projr (caa_values (nr_acme_account_uri r)))
     | _ \<Rightarrow> texts t n Z1)"
proof -
  from serving_upserts_Inr [OF valid] obtain vs where vs: "caa_values (nr_acme_account_uri r) = Inr vs"
    "serving_upserts r = Inr ((if v4_texts (nr_addresses r) = [] then [] else [upsert (nr_hostname r) RrA (v4_texts (nr_addresses r))])
      @ (if v6_texts (nr_addresses r) = [] then [] else [upsert (nr_hostname r) RrAaaa (v6_texts (nr_addresses r))])
      @ [upsert (nr_hostname r) RrCaa vs])" by blast
  from valid have host: "trim_dots (nr_hostname r) = nr_hostname r"
    by (auto simp: validate_records_def split: sum.splits intro: trim_hostname)
  from assms(3) have "batch us (Z - set (stale_sets r rs)) Z'" by (simp add: batch_append batch_deletes)
  then have "texts t n Z' = (case List.find (\<lambda>c. rs_type (snd c) = t) us of
      Some c \<Rightarrow> if n = nr_hostname r then set (rs_values (snd c)) else texts t n (Z - set (stale_sets r rs))
    | None \<Rightarrow> texts t n (Z - set (stale_sets r rs)))"
    by (rule texts_upserts) (use us vs(2) host in \<open>auto simp: upsert_def split: if_splits\<close>)
  moreover have "us = (if v4_texts (nr_addresses r) = [] then [] else [upsert (nr_hostname r) RrA (v4_texts (nr_addresses r))])
      @ (if v6_texts (nr_addresses r) = [] then [] else [upsert (nr_hostname r) RrAaaa (v6_texts (nr_addresses r))])
      @ [upsert (nr_hostname r) RrCaa vs]" using us vs(2) by simp
  ultimately show ?thesis using vs(1) by (cases t) (auto simp: upsert_def)
qed

text \<open>Stale sets are address sets of the name; all of them, when the listing was complete.\<close>

lemma texts_stale:
  "n \<noteq> nr_hostname r \<or> t \<notin> {RrA, RrAaaa} \<Longrightarrow> texts t n (Z - set (stale_sets r rs)) = texts t n Z"
  unfolding texts_def typed_Diff by (rule arg_cong [where f = Union], rule arg_cong2 [where f = image])
    (auto simp: typed_def sets_at_def stale_sets_def)

lemma texts_stale_all:
  assumes "sets_at (nr_hostname r) (set rs) = sets_at (nr_hostname r) Z"
  shows "v4_texts (nr_addresses r) = [] \<Longrightarrow> texts RrA (nr_hostname r) (Z - set (stale_sets r rs)) = {}"
    and "v6_texts (nr_addresses r) = [] \<Longrightarrow> texts RrAaaa (nr_hostname r) (Z - set (stale_sets r rs)) = {}"
  using assms unfolding texts_def typed_Diff by (auto simp: typed_def sets_at_def stale_sets_def set_eq_iff)

lemma wanted_texts:
  assumes "caa_values (nr_acme_account_uri r) = Inr vs"
  shows "wanted r = Pair ''A'' ` set (v4_texts (nr_addresses r)) \<union> Pair ''AAAA'' ` set (v6_texts (nr_addresses r))
    \<union> Pair ''CAA'' ` set vs"
proof -
  have "address_record ` set ips = Pair ''A'' ` set (v4_texts ips) \<union> Pair ''AAAA'' ` set (v6_texts ips)" for ips
  proof (induction ips)
    case (Cons ip ips)
    then show ?case by (cases ip) (auto simp: v4_texts_def v6_texts_def List.map_filter_def)
  qed (simp add: v4_texts_def v6_texts_def List.map_filter_def)
  with assms show ?thesis by (simp add: wanted_def)
qed

section \<open>Whole changes\<close>

text \<open>What is seen is the target, or the change failed and what is seen is as before.\<close>

definition whole :: "'a \<Rightarrow> 'a \<Rightarrow> 'a \<Rightarrow> dns_error + unit \<Rightarrow> bool" where
  "whole old new target x \<longleftrightarrow> new = target \<or> isl x \<and> new = old"

text \<open>What a change may touch: one kind of records, at one name.\<close>

definition serving_only :: "string \<Rightarrow> rr_set set \<Rightarrow> rr_set set \<Rightarrow> bool" where
  "serving_only h Z Z' \<longleftrightarrow> (\<forall>t n. n \<noteq> h \<or> t \<notin> {RrA, RrAaaa, RrCaa} \<longrightarrow> texts t n Z' = texts t n Z)"

definition txt_only :: "string \<Rightarrow> rr_set set \<Rightarrow> rr_set set \<Rightarrow> bool" where
  "txt_only name Z Z' \<longleftrightarrow> (\<forall>t n. n \<noteq> name \<or> t \<noteq> RrTxt \<longrightarrow> texts t n Z' = texts t n Z)"

text \<open>A publication changed nothing, or had its batch applied.\<close>

lemma publish_phases:
  assumes doc: "r53_documented sv zone" and run: "r53_publish_name sv r z = (x, z')"
  obtains (early) "isl x" "zone z' = zone z"
  | (applied) rs us where "validate_records r = Inr ()" "serving_upserts r = Inr us"
      "batch (map (Pair ChDelete) (stale_sets r rs) @ us) (zone z) (zone z')"
      "finite (sets_at (nr_hostname r) (zone z)) \<Longrightarrow> card (sets_at (nr_hostname r) (zone z)) \<le> 10 \<Longrightarrow>
         sets_at (nr_hostname r) (set rs) = sets_at (nr_hostname r) (zone z)"
proof -
  obtain y z1 where list: "aws_list sv (nr_hostname r) 10 z = (y, z1)" by fastforce
  note zone = r53_list [OF doc list]
  show thesis
  proof (cases "(\<exists>e. x = Inl e) \<and> z' \<in> {z, z1}")
    case True
    with zone(1) show thesis by (intro early) auto
  next
    case False
    have valid: "validate_records r = Inr ()"
    proof (cases "validate_records r")
      case (Inl e)
      then have "r53_publish_name sv r z = (Inl e, z)" by (simp add: r53_publish_name_def)
      with run False show ?thesis by auto
    qed simp
    have eq: "(x, z') = (case y of None \<Rightarrow> (Inl DnsUnavailable, z1) | Some existing \<Rightarrow>
        (case serving_upserts r of
           Inl e \<Rightarrow> (Inl e, z1)
         | Inr us \<Rightarrow> r53_apply sv (map (Pair ChDelete) (stale_sets r existing) @ us) z1))"
      unfolding run [symmetric] r53_publish_name_def by (cases y) (simp_all add: valid list)
    with False obtain rs us where ok: "y = Some rs" "serving_upserts r = Inr us"
      by (cases y; cases "serving_upserts r") auto
    from eq ok have app: "r53_apply sv (map (Pair ChDelete) (stale_sets r rs) @ us) z1 = (x, z')" by simp
    from r53_apply_effect [OF doc app] zone(1) show thesis
      using applied [OF valid ok(2)] zone(3) [OF ok(1)] early by auto
  qed
qed

lemma publish_only:
  assumes "r53_documented sv zone" and "r53_publish_name sv r z = (x, z')"
  shows "serving_only (nr_hostname r) (zone z) (zone z')"
  using assms
proof (cases rule: publish_phases)
  case (applied rs us)
  show ?thesis unfolding serving_only_def
  proof (intro allI impI)
    fix t n assume *: "n \<noteq> nr_hostname r \<or> t \<notin> {RrA, RrAaaa, RrCaa}"
    then have "texts t n (zone z - set (stale_sets r rs)) = texts t n (zone z)" by (intro texts_stale) auto
    with * publish_batch [OF applied(1-3), of t n] show "texts t n (zone z') = texts t n (zone z)"
      by (auto split: rr_type.splits)
  qed
qed (simp add: serving_only_def)

lemma publish_whole:
  assumes "r53_documented sv zone" and "r53_publish_name sv r z = (x, z')"
    and few: "finite (sets_at (nr_hostname r) (zone z))" "card (sets_at (nr_hostname r) (zone z)) \<le> 10"
  shows "whole (r53_serving zone z (nr_hostname r)) (r53_serving zone z' (nr_hostname r)) (wanted r) x"
  using assms(1,2)
proof (cases rule: publish_phases)
  case (applied rs us)
  note effect = publish_batch [OF applied(1-3), of _ "nr_hostname r"]
  note all = texts_stale_all [OF applied(4) [OF few]]
  from serving_upserts_Inr [OF applied(1)] obtain vs where vs: "caa_values (nr_acme_account_uri r) = Inr vs" .
  have "texts RrA (nr_hostname r) (zone z') = set (v4_texts (nr_addresses r))"
    using effect [of RrA] all(1) by (auto split: if_splits)
  moreover have "texts RrAaaa (nr_hostname r) (zone z') = set (v6_texts (nr_addresses r))"
    using effect [of RrAaaa] all(2) by (auto split: if_splits)
  moreover have "texts RrCaa (nr_hostname r) (zone z') = set vs"
    using effect [of RrCaa] vs by simp
  ultimately show ?thesis by (simp add: whole_def r53_serving_def wanted_texts [OF vs])
qed (simp add: whole_def r53_serving_def)

lemma retire_name_whole:
  assumes doc: "r53_documented sv zone" and run: "r53_retire_name sv h z = (x, z')"
  shows "serving_only h (zone z) (zone z')
    \<and> (finite (sets_at h (zone z)) \<longrightarrow> card (sets_at h (zone z)) \<le> 10 \<longrightarrow>
       whole (r53_serving zone z h) (r53_serving zone z' h) {} x)"
proof -
  obtain y z1 where list: "aws_list sv h 10 z = (y, z1)" by fastforce
  note zone = r53_list [OF doc list]
  show ?thesis
  proof (cases "(\<exists>e. x = Inl e) \<and> z' \<in> {z, z1}")
    case True
    with zone(1) show ?thesis by (auto simp: serving_only_def whole_def r53_serving_def)
  next
    case False
    have valid: "dns_hostname h = Inr ()"
    proof (cases "dns_hostname h")
      case (Inl e)
      then have "r53_retire_name sv h z = (Inl e, z)" by (simp add: r53_retire_name_def)
      with run False show ?thesis by auto
    qed simp
    define doomed where
      "doomed rs = filter (\<lambda>s. trim_dots (rs_name s) = h \<and> rs_type s \<in> {RrA, RrAaaa, RrCaa}) rs" for rs :: "rr_set list"
    have eq: "(x, z') = (case y of None \<Rightarrow> (Inl DnsUnavailable, z1) | Some existing \<Rightarrow>
        (if map (Pair ChDelete) (doomed existing) = [] then (Inr (), z1)
         else r53_apply sv (map (Pair ChDelete) (doomed existing)) z1))"
      unfolding run [symmetric] r53_retire_name_def doomed_def by (cases y) (simp_all add: valid list Let_def)
    with False obtain rs where rs: "y = Some rs" by (cases y) auto
    have "isl x \<and> zone z' = zone z \<or> zone z' = zone z - set (doomed rs)"
    proof (cases "doomed rs = []")
      case True
      with eq rs zone(1) show ?thesis by simp
    next
      case False
      with eq rs have "r53_apply sv (map (Pair ChDelete) (doomed rs)) z1 = (x, z')" by simp
      from r53_apply_effect [OF doc this] zone(1) show ?thesis by (simp add: batch_deletes)
    qed
    then show ?thesis
    proof
      assume gone: "zone z' = zone z - set (doomed rs)"
      have "texts t n (zone z') = texts t n (zone z)" if "n \<noteq> h \<or> t \<notin> {RrA, RrAaaa, RrCaa}" for t n
      proof -
        have "typed t n (zone z') = typed t n (zone z)"
          unfolding gone typed_Diff using that by (auto simp: typed_def sets_at_def doomed_def)
        then show ?thesis by (simp add: texts_def)
      qed
      moreover have "texts t h (zone z') = {}" if "t \<in> {RrA, RrAaaa, RrCaa}" "sets_at h (set rs) = sets_at h (zone z)" for t
        using that unfolding gone texts_def typed_Diff by (auto simp: typed_def sets_at_def doomed_def set_eq_iff)
      ultimately show ?thesis using zone(3) [OF rs] by (auto simp: serving_only_def whole_def r53_serving_def)
    qed (simp add: serving_only_def whole_def r53_serving_def)
  qed
qed

lemma challenge_unquoted: "{v. quoted v \<in> quoted ` S} = S"
  by (auto simp: quoted_def)

lemma retire_challenge_whole:
  assumes doc: "r53_documented sv zone" and run: "r53_retire_challenge sv h z = (x, z')"
  shows "txt_only (txt_at h) (zone z) (zone z')
    \<and> (finite (sets_at (txt_at h) (zone z)) \<longrightarrow> card (sets_at (txt_at h) (zone z)) \<le> 2 \<longrightarrow>
       card (typed RrTxt (txt_at h) (zone z)) \<le> 1 \<longrightarrow> whole (r53_challenge zone z h) (r53_challenge zone z' h) {} x)"
proof -
  obtain y z1 where list: "aws_list sv (txt_at h) 2 z = (y, z1)" by fastforce
  note zone = r53_list [OF doc list]
  let ?txt = "\<lambda>s. trim_dots (rs_name s) = txt_at h \<and> rs_type s = RrTxt"
  show ?thesis
  proof (cases "(\<exists>e. x = Inl e) \<and> z' \<in> {z, z1}")
    case True
    with zone(1) show ?thesis by (auto simp: txt_only_def whole_def r53_challenge_def)
  next
    case False
    have valid: "challenge_name h = Inr (txt_at h)"
    proof (cases "challenge_name h")
      case (Inl e)
      then have "r53_retire_challenge sv h z = (Inl e, z)" by (simp add: r53_retire_challenge_def)
      with run False show ?thesis by auto
    qed (use trim_challenge(1) in blast)
    have eq: "(x, z') = (case y of None \<Rightarrow> (Inl DnsUnavailable, z1) | Some existing \<Rightarrow>
        (case List.find ?txt existing of None \<Rightarrow> (Inr (), z1) | Some s \<Rightarrow> r53_apply sv [(ChDelete, s)] z1))"
      unfolding run [symmetric] r53_retire_challenge_def by (cases y) (simp_all add: valid list)
    with False obtain rs where rs: "y = Some rs" by (cases y) auto
    let ?gone = "set_option (List.find ?txt rs)"
    have found: "?gone \<subseteq> typed RrTxt (txt_at h) (set rs)"
      by (auto simp: find_Some_iff typed_def sets_at_def)
    have none: "?gone = {} \<Longrightarrow> typed RrTxt (txt_at h) (set rs) = {}"
      by (auto simp: typed_def sets_at_def find_None_iff)
    have "isl x \<and> zone z' = zone z \<or> zone z' = zone z - ?gone"
    proof (cases "List.find ?txt rs")
      case None
      with eq rs zone(1) show ?thesis by simp
    next
      case (Some s)
      with eq rs have "r53_apply sv [(ChDelete, s)] z1 = (x, z')" by simp
      from r53_apply_effect [OF doc this] zone(1) Some show ?thesis by simp
    qed
    then show ?thesis
    proof
      assume gone: "zone z' = zone z - ?gone"
      have "texts t n (zone z') = texts t n (zone z)" if "n \<noteq> txt_at h \<or> t \<noteq> RrTxt" for t n
      proof -
        have "typed t n (zone z') = typed t n (zone z)"
          unfolding gone typed_Diff using that found by (auto simp: typed_def sets_at_def)
        then show ?thesis by (simp add: texts_def)
      qed
      moreover have "typed RrTxt (txt_at h) (zone z') = {}"
        if fin: "finite (sets_at (txt_at h) (zone z))" "card (sets_at (txt_at h) (zone z)) \<le> 2"
          and one: "card (typed RrTxt (txt_at h) (zone z)) \<le> 1"
      proof -
        have same: "typed RrTxt (txt_at h) (set rs) = typed RrTxt (txt_at h) (zone z)"
          using zone(3) [OF rs fin] by (simp add: typed_def)
        have "finite (typed RrTxt (txt_at h) (zone z))" using fin(1) by (simp add: typed_def)
        with one have "\<And>a b. a \<in> typed RrTxt (txt_at h) (zone z) \<Longrightarrow> b \<in> typed RrTxt (txt_at h) (zone z) \<Longrightarrow> a = b"
          by (metis card_le_Suc0_iff_eq One_nat_def)
        with found none show ?thesis unfolding gone typed_Diff same by blast
      qed
      ultimately show ?thesis by (auto simp: txt_only_def whole_def r53_challenge_def texts_def)
    qed (simp add: txt_only_def whole_def r53_challenge_def)
  qed
qed

lemma set_challenge_whole:
  assumes doc: "r53_documented sv zone" and run: "r53_set_challenge sv h vs z = (x, z')"
  shows "txt_only (txt_at h) (zone z) (zone z')
    \<and> (finite (sets_at (txt_at h) (zone z)) \<longrightarrow> card (sets_at (txt_at h) (zone z)) \<le> 2 \<longrightarrow>
       card (typed RrTxt (txt_at h) (zone z)) \<le> 1 \<longrightarrow> whole (r53_challenge zone z h) (r53_challenge zone z' h) (set vs) x)"
proof (cases "isl (challenge_name h) \<or> isl (validate_challenge_values vs)")
  case True
  then have "isl (fst (r53_set_challenge sv h vs z)) \<and> snd (r53_set_challenge sv h vs z) = z"
    unfolding r53_set_challenge_def
    by (cases "challenge_name h"; cases "validate_challenge_values vs") simp_all
  with run show ?thesis by (simp add: txt_only_def whole_def)
next
  case False
  then obtain name where "challenge_name h = Inr name" by (cases "challenge_name h") auto
  note name = this [unfolded trim_challenge(1) [OF this]] trim_challenge(2) [OF this]
  have valid: "validate_challenge_values vs = Inr ()" using False by (cases "validate_challenge_values vs") auto
  show ?thesis
  proof (cases "vs = []")
    case True
    with run name valid have "r53_retire_challenge sv h z = (x, z')" by (simp add: r53_set_challenge_def)
    from retire_challenge_whole [OF doc this] True show ?thesis by simp
  next
    case False
    let ?s = "\<lparr>rs_name = txt_at h, rs_type = RrTxt, rs_ttl = 30, rs_values = map quoted vs, rs_rest = []\<rparr>"
    from False run name valid have "r53_apply sv [(ChUpsert, ?s)] z = (x, z')"
      by (simp add: r53_set_challenge_def r53_change_def)
    from r53_apply_effect [OF doc this] show ?thesis
    proof
      assume "batch [(ChUpsert, ?s)] (zone z) (zone z')"
      then have "effect (ChUpsert, ?s) (zone z) (zone z')" by simp
      from texts_upsert [OF this, of "txt_at h"] name(2) show ?thesis
        by (auto simp: txt_only_def whole_def r53_challenge_def challenge_unquoted)
    qed (simp add: txt_only_def whole_def r53_challenge_def)
  qed
qed


end
