(* ===== verification/Dns_Worker.thy ===== *)
theory Dns_Worker
  imports Dns_Observer Dns_Cloudflare Dns_Route53 Control_Api
begin

text \<open>
  The DNS worker (\<^verbatim>\<open>crates/bloom-relay-control/src/dns_worker.rs\<close>): it claims a job of the outbox,
  changes the records through its provider, looks at them through the observer and records the
  outcome. The lemmas put the three together: what is known of the records when a job completes,
  and what a worker of one scope cannot change.
\<close>

section \<open>Configuration\<close>

datatype provider_kind = KindRoute53 | KindCloudflare

definition parse_provider :: "string \<Rightarrow> provider_kind option" where
  "parse_provider value =
     (if value = ''route53'' then Some KindRoute53 else if value = ''cloudflare'' then Some KindCloudflare else None)"

definition provider_name :: "env_var \<Rightarrow> string option" where
  "provider_name v = (case v of Value value \<Rightarrow> Some value | NotPresent \<Rightarrow> Some ''route53'' | NotUnicode \<Rightarrow> None)"

text \<open>The check of the addresses, once parsed.\<close>

definition addresses_ok :: "ip_addr list \<Rightarrow> bool" where
  "addresses_ok parsed \<longleftrightarrow> \<not> (parsed = [] \<or> length parsed > 8 \<or> list_ex is_unspecified parsed)"

text \<open>The token, from what the file holds; \<open>None\<close> is a file that cannot be read as text.\<close>

definition cloudflare_token :: "string option \<Rightarrow> string option" where
  "cloudflare_token file =
     (case map_option (take 4097) file of
        None \<Rightarrow> None
      | Some contents \<Rightarrow>
          if length contents > 4096 then None
          else Some (rev (dropWhile (\<lambda>c. c = CHR 0x0D \<or> c = CHR 0x0A) (rev contents))))"

fun cloudflare_scope_of :: "dns_job_scope \<Rightarrow> cloudflare_scope" where
  "cloudflare_scope_of Serving = CfServing"
| "cloudflare_scope_of Challenge = CfChallenge"

text \<open>Both providers, as the worker dispatches to them. The state is that of the service in use.\<close>

datatype ('a, 'b) dns_backend = Route53 "'a r53_service" | Cloudflare cloudflare_scope "'b cf_service"

fun lift_left :: "'a dns_op \<Rightarrow> ('a \<times> 'b) dns_op" where
  "lift_left f (a, b) = (let (x, a') = f a in (x, (a', b)))"

fun lift_right :: "'b dns_op \<Rightarrow> ('a \<times> 'b) dns_op" where
  "lift_right f (a, b) = (let (x, b') = f b in (x, (a, b')))"

fun backend_provider :: "('a, 'b) dns_backend \<Rightarrow> ('a \<times> 'b) provider" where
  "backend_provider (Route53 sv) =
     \<lparr>pv_publish_name = (\<lambda>r. lift_left (r53_publish_name sv r)),
      pv_set_challenge = (\<lambda>h vs. lift_left (r53_set_challenge sv h vs)),
      pv_retire_name = (\<lambda>h. lift_left (r53_retire_name sv h)),
      pv_retire_challenge = (\<lambda>h. lift_left (r53_retire_challenge sv h))\<rparr>"
| "backend_provider (Cloudflare scope sv) =
     \<lparr>pv_publish_name = (\<lambda>r. lift_right (cf_publish_name scope sv r)),
      pv_set_challenge = (\<lambda>h vs. lift_right (cf_set_challenge scope sv h vs)),
      pv_retire_name = (\<lambda>h. lift_right (cf_retire_name scope sv h)),
      pv_retire_challenge = (\<lambda>h. lift_right (cf_retire_challenge scope sv h))\<rparr>"

section \<open>Steps of a job\<close>

datatype worker_error = OutsideScope | WStore store_error | WDns dns_error

record ('r, 'z) worker =
  wk_cfg :: "'r store_cfg"
  wk_placement :: string
  wk_scope :: dns_job_scope
  wk_provider :: "'z provider"
  wk_ingress :: "ip_addr list"

text \<open>
  What surrounds one attempt: the calls of the store, what others do at the DNS service before the
  provider's change, and what the resolvers show after it.
\<close>

record ('r, 'z) attempt =
  at_calls :: "'r exchange"
  at_zone :: "'z \<Rightarrow> 'z"
  at_view :: view

type_synonym ('r, 'z, 'a) task = "'r world \<times> 'z \<Rightarrow> (worker_error + 'a) \<times> 'r world \<times> 'z"

definition settle_with :: "'a \<Rightarrow> ('r, 'z, 'a) task" where
  "settle_with a s = (Inr a, s)"

definition give_up :: "worker_error \<Rightarrow> ('r, 'z, 'a) task" where
  "give_up e s = (Inl e, s)"

definition then_do :: "('r, 'z, 'a) task \<Rightarrow> ('a \<Rightarrow> ('r, 'z, 'b) task) \<Rightarrow> ('r, 'z, 'b) task" where
  "then_do m f s = (case m s of (Inl e, s') \<Rightarrow> (Inl e, s') | (Inr a, s') \<Rightarrow> f a s')"

definition store_call ::
  "('r, 'z) attempt \<Rightarrow> nat \<Rightarrow> (timestamp \<Rightarrow> faults \<Rightarrow> 'r world \<Rightarrow> (store_error + 'a) \<times> 'r world) \<Rightarrow> ('r, 'z, 'a) task" where
  "store_call E k f = (\<lambda>(w, z).
     let cx = at_calls E; w = cx_between cx k w in
     case cx_fate cx k of
       Down \<Rightarrow> (Inl (WStore SUnavailable), w, z)
     | Lost \<Rightarrow> (Inl (WStore SUnavailable), snd (f (cx_now cx k) (cx_faults cx k) w), z)
     | Served \<Rightarrow> (let (x, w') = f (cx_now cx k) (cx_faults cx k) w in (map_sum WStore id x, w', z)))"

definition provider_call :: "('r, 'z) attempt \<Rightarrow> 'z dns_op \<Rightarrow> ('r, 'z, unit) task" where
  "provider_call E change = (\<lambda>(w, z). let (x, z') = change (at_zone E z) in (map_sum WDns id x, w, z'))"

definition observation :: "dns_error + bool \<Rightarrow> ('r, 'z, bool) task" where
  "observation x s = (map_sum WDns id x, s)"

definition verify_integrity :: "('r, 'z) worker \<Rightarrow> ('r, 'z) attempt \<Rightarrow> nat \<Rightarrow> ('r, 'z, unit) task" where
  "verify_integrity W E k = store_call E k (\<lambda>now fl. acknowledge (wk_cfg W) fl)"

fun job_allowed :: "dns_job_scope \<Rightarrow> string \<Rightarrow> bool" where
  "job_allowed Serving kind \<longleftrightarrow> kind = ''publish_name'' \<or> kind = ''remove_records''"
| "job_allowed Challenge kind \<longleftrightarrow> kind = ''reconcile_txt'' \<or> kind = ''remove_txt_all''"

section \<open>The jobs\<close>

definition publish_job :: "('r, 'z) worker \<Rightarrow> ('r, 'z) attempt \<Rightarrow> uuid \<Rightarrow> ('r, 'z, bool) task" where
  "publish_job W E i =
     then_do (store_call E 1 (\<lambda>now fl w. (Inr (dns_identity (w_db w) i), w))) (\<lambda>found.
       case found of
         None \<Rightarrow> settle_with True
       | Some (host, acme_account_uri, placement) \<Rightarrow>
           if placement \<noteq> wk_placement W then settle_with False
           else
             let records = \<lparr>nr_hostname = host, nr_addresses = wk_ingress W, nr_acme_account_uri = acme_account_uri\<rparr> in
             then_do (verify_integrity W E 2) (\<lambda>_.
             then_do (provider_call E (pv_publish_name (wk_provider W) records)) (\<lambda>_.
             then_do (verify_integrity W E 3) (\<lambda>_.
             then_do (observation (name_visible (at_view E) records)) (\<lambda>visible.
               if \<not> visible then settle_with False
               else then_do (store_call E 4 (\<lambda>now fl. mark_dns_ready (wk_cfg W) fl i)) (\<lambda>_. settle_with True))))))"

definition reconcile_job :: "('r, 'z) worker \<Rightarrow> ('r, 'z) attempt \<Rightarrow> uuid \<Rightarrow> ('r, 'z, bool) task" where
  "reconcile_job W E i =
     then_do (store_call E 1 (\<lambda>now fl w. (Inr (dns_identity (w_db w) i), w))) (\<lambda>found.
       case found of
         None \<Rightarrow> settle_with True
       | Some (host, _, placement) \<Rightarrow>
           if placement \<noteq> wk_placement W then settle_with False
           else
             then_do (store_call E 2 (\<lambda>now fl w. (Inr (challenge_target (w_db w) i), w))) (\<lambda>(revision, values).
             then_do (verify_integrity W E 3) (\<lambda>_.
             then_do (provider_call E (pv_set_challenge (wk_provider W) host values)) (\<lambda>_.
             then_do (verify_integrity W E 4) (\<lambda>_.
             then_do (observation (challenge_values_visible (at_view E) host values)) (\<lambda>visible.
               if \<not> visible then settle_with False
               else then_do (store_call E 5 (\<lambda>now fl. mark_challenge_reconciled (wk_cfg W) fl i revision))
                 (\<lambda>_. settle_with True)))))))"

definition remove_records_job :: "('r, 'z) worker \<Rightarrow> ('r, 'z) attempt \<Rightarrow> uuid \<Rightarrow> ('r, 'z, bool) task" where
  "remove_records_job W E i =
     then_do (store_call E 1 (\<lambda>now fl w. (Inr (retired_hostname (w_db w) i), w))) (\<lambda>found.
       case found of
         None \<Rightarrow> settle_with True
       | Some host \<Rightarrow>
           then_do (verify_integrity W E 2) (\<lambda>_.
           then_do (provider_call E (pv_retire_name (wk_provider W) host)) (\<lambda>_.
           then_do (verify_integrity W E 3) (\<lambda>_.
             observation (name_absent (at_view E) host)))))"

definition remove_txt_job :: "('r, 'z) worker \<Rightarrow> ('r, 'z) attempt \<Rightarrow> uuid \<Rightarrow> ('r, 'z, bool) task" where
  "remove_txt_job W E i =
     then_do (store_call E 1 (\<lambda>now fl w. (Inr (retired_hostname (w_db w) i), w))) (\<lambda>found.
       case found of
         None \<Rightarrow> settle_with True
       | Some host \<Rightarrow>
           then_do (verify_integrity W E 2) (\<lambda>_.
           then_do (provider_call E (pv_retire_challenge (wk_provider W) host)) (\<lambda>_.
           then_do (verify_integrity W E 3) (\<lambda>_.
             observation (challenge_absent (at_view E) host)))))"

definition process_job :: "('r, 'z) worker \<Rightarrow> ('r, 'z) attempt \<Rightarrow> outbox_job \<Rightarrow> ('r, 'z, bool) task" where
  "process_job W E job =
     (if \<not> job_allowed (wk_scope W) (ob_kind job) then give_up OutsideScope
      else if ob_kind job = ''publish_name'' then publish_job W E (ob_installation job)
      else if ob_kind job = ''reconcile_txt'' then reconcile_job W E (ob_installation job)
      else if ob_kind job = ''remove_records'' then remove_records_job W E (ob_installation job)
      else if ob_kind job = ''remove_txt_all'' then remove_txt_job W E (ob_installation job)
      else settle_with False)"

text \<open>One round of \<^verbatim>\<open>run\<close>; \<open>locked\<close> are the jobs that other workers hold.\<close>

definition run_round :: "('r, 'z) worker \<Rightarrow> ('r, 'z) attempt \<Rightarrow> nat list \<Rightarrow> 'r world \<times> 'z \<Rightarrow> 'r world \<times> 'z" where
  "run_round W E locked s =
     (case store_call E 0 (\<lambda>now fl. claim_job (wk_cfg W) fl now locked (wk_placement W) (wk_scope W)) s of
        (Inl _, s') \<Rightarrow> s'
      | (Inr None, s') \<Rightarrow> s'
      | (Inr (Some job), s') \<Rightarrow>
          (case process_job W E job s' of
             (Inr True, s'') \<Rightarrow>
               snd (store_call E 6 (\<lambda>now fl. complete_job (wk_cfg W) fl (cx_faults (at_calls E) 7) now job) s'')
           | (_, s'') \<Rightarrow>
               snd (store_call E 6 (\<lambda>now fl. defer_job (wk_cfg W) fl (cx_faults (at_calls E) 7) now job) s'')))"

section \<open>Steps that succeed\<close>

lemma settle_with_Inr [simp]: "settle_with a s = (Inr b, s') \<longleftrightarrow> b = a \<and> s' = s"
  by (auto simp: settle_with_def)

lemma then_do_Inr: "then_do m f s = (Inr b, s'') \<longleftrightarrow> (\<exists>a s'. m s = (Inr a, s') \<and> f a s' = (Inr b, s''))"
  by (auto simp: then_do_def split: prod.splits sum.splits)

lemma map_sum_Inr [simp]: "map_sum f id x = Inr b \<longleftrightarrow> x = Inr b"
  by (cases x) auto

lemma store_call_Inr:
  "store_call E k f (w, z) = (Inr a, w', z') \<longleftrightarrow> z' = z \<and> cx_fate (at_calls E) k = Served
     \<and> f (cx_now (at_calls E) k) (cx_faults (at_calls E) k) (cx_between (at_calls E) k w) = (Inr a, w')"
  by (auto simp: store_call_def Let_def split: fate.splits prod.splits)

lemma provider_call_Inr:
  "provider_call E change (w, z) = (Inr a, w', z') \<longleftrightarrow> w' = w \<and> change (at_zone E z) = (Inr a, z')"
  by (auto simp: provider_call_def split: prod.splits)

lemma observation_Inr: "observation x s = (Inr b, s') \<longleftrightarrow> x = Inr b \<and> s' = s"
  by (cases x) (auto simp: observation_def)

section \<open>Steps and the DNS service\<close>

text \<open>Tasks that leave the service alone, and tasks whose changes of it are in \<open>P\<close>.\<close>

definition quiet :: "('r, 'z, 'a) task \<Rightarrow> bool" where
  "quiet t \<longleftrightarrow> (\<forall>w z. snd (snd (t (w, z))) = z)"

definition zone_step :: "('z \<Rightarrow> 'z \<Rightarrow> bool) \<Rightarrow> ('r, 'z, 'a) task \<Rightarrow> bool" where
  "zone_step P t \<longleftrightarrow> (\<forall>w z. snd (snd (t (w, z))) = z \<or> P z (snd (snd (t (w, z)))))"

lemma quiet_simple [simp]:
  "quiet (settle_with a)" "quiet (give_up e)" "quiet (store_call E k f)" "quiet (verify_integrity W E k)"
  "quiet (observation y)"
  by (auto simp: quiet_def settle_with_def give_up_def store_call_def verify_integrity_def observation_def Let_def
      split: fate.splits prod.splits)

lemma quiet_then: "quiet m \<Longrightarrow> (\<And>a. quiet (f a)) \<Longrightarrow> quiet (then_do m f)"
  unfolding quiet_def then_do_def by (auto split: prod.splits sum.splits) (metis snd_conv)+

lemma zone_step_quiet: "quiet t \<Longrightarrow> zone_step P t"
  by (simp add: quiet_def zone_step_def)

lemma zone_step_then:
  assumes "quiet m" and "\<And>a. zone_step P (f a)"
  shows "zone_step P (then_do m f)"
  unfolding zone_step_def
proof (intro allI)
  fix w z
  obtain y w1 z1 where y: "m (w, z) = (y, w1, z1)" by (metis prod_cases3)
  with assms(1) have "z1 = z" by (metis quiet_def snd_conv)
  with y assms(2) show "snd (snd (then_do m f (w, z))) = z \<or> P z (snd (snd (then_do m f (w, z))))"
    by (cases y) (simp_all add: then_do_def zone_step_def)
qed

lemma zone_step_provider:
  assumes "\<And>z. P z (snd (change (at_zone E z)))" and "\<And>a. quiet (f a)"
  shows "zone_step P (then_do (provider_call E change) f)"
  unfolding zone_step_def
proof (intro allI)
  fix w z
  obtain y z1 where y: "change (at_zone E z) = (y, z1)" by fastforce
  with assms(1) [of z] have "P z z1" by simp
  moreover have "snd (snd (then_do (provider_call E change) f (w, z))) = z1"
    using y assms(2) by (cases y) (simp_all add: then_do_def provider_call_def quiet_def)
  ultimately show "snd (snd (then_do (provider_call E change) f (w, z))) = z
      \<or> P z (snd (snd (then_do (provider_call E change) f (w, z))))" by simp
qed

lemmas zone_step_call = zone_step_then [OF quiet_simple(3)] zone_step_then [OF quiet_simple(4)]
  zone_step_quiet [OF quiet_simple(1)]

lemma publish_job_zone:
  assumes "\<And>r z. P z (snd (pv_publish_name (wk_provider W) r (at_zone E z)))"
  shows "zone_step P (publish_job W E i)"
  unfolding publish_job_def
  by (auto intro!: zone_step_call zone_step_provider quiet_then assms simp: Let_def split: option.split)

lemma reconcile_job_zone:
  assumes "\<And>h vs z. P z (snd (pv_set_challenge (wk_provider W) h vs (at_zone E z)))"
  shows "zone_step P (reconcile_job W E i)"
  unfolding reconcile_job_def
  by (auto intro!: zone_step_call zone_step_provider quiet_then assms simp: Let_def split: option.split)

lemma remove_jobs_zone:
  shows "(\<And>h z. P z (snd (pv_retire_name (wk_provider W) h (at_zone E z)))) \<Longrightarrow> zone_step P (remove_records_job W E i)"
    and "(\<And>h z. P z (snd (pv_retire_challenge (wk_provider W) h (at_zone E z)))) \<Longrightarrow> zone_step P (remove_txt_job W E i)"
  unfolding remove_records_job_def remove_txt_job_def
  by (auto intro!: zone_step_call zone_step_provider quiet_then split: option.split)

section \<open>Jobs that complete\<close>

lemma acknowledge_world: "acknowledge cfg fl w = (x, w') \<Longrightarrow> w_db w' = w_db w"
  using acknowledge_db [of cfg fl w] by simp

lemma none_awaiting:
  "\<not> exists_row (awaiting_dns i) (update_rows (awaiting_dns i) (in_state_update (\<lambda>_. DnsReady)) t)"
  by (induction t) (simp_all add: exists_row_def update_rows_def awaiting_dns_def)

lemma mark_dns_ready_tx_none:
  "mark_dns_ready_tx i d = Inr (x, d') \<Longrightarrow> \<not> exists_row (awaiting_dns i) (installations d')"
  by (auto simp: mark_dns_ready_tx_def Let_def insert_audit_def none_awaiting split: if_splits)

lemma mark_dns_ready_none_awaiting:
  assumes "mark_dns_ready cfg fl i w = (Inr u, w')"
  shows "\<not> exists_row (awaiting_dns i) (installations (w_db w'))"
  by (rule mark_dns_ready_tx_none [OF conjunct1 [OF commit_ack_Inr [OF assms [unfolded mark_dns_ready_def]]]])

lemma reconciled_tx_ready:
  assumes "reconciled_tx i revision d = Inr (x, d')" and "s \<in> set (challenge_states d')"
    and "cs_installation s = i" and "cs_revision s = as_i64 revision"
  shows "cs_ready s = Some (as_i64 revision)"
proof -
  let ?p = "\<lambda>s. cs_installation s = i \<and> cs_revision s = as_i64 revision"
  have "s \<in> set (update_rows ?p (cs_ready_update (\<lambda>_. Some (as_i64 revision))) (challenge_states d))"
    using assms(1,2) by (auto simp: reconciled_tx_def Let_def)
  then obtain r where r: "s = (if ?p r then cs_ready_update (\<lambda>_. Some (as_i64 revision)) r else r)"
    unfolding update_rows_def set_map by (rule imageE)
  show ?thesis
  proof (cases "?p r")
    case True
    with r show ?thesis by simp
  next
    case False
    with r assms(3,4) show ?thesis by simp
  qed
qed

lemma mark_reconciled_ready:
  assumes "mark_challenge_reconciled cfg fl i revision w = (Inr u, w')" and "s \<in> set (challenge_states (w_db w'))"
    and "cs_installation s = i" and "cs_revision s = as_i64 revision"
  shows "cs_ready s = Some (as_i64 revision)"
  by (rule reconciled_tx_ready
      [OF conjunct1 [OF commit_ack_Inr [OF assms(1) [unfolded mark_challenge_reconciled_def]]] assms(2-4)])

lemma store_call_then:
  "then_do (store_call E k f) g (w, z) = (Inr b, s') \<longleftrightarrow>
     (\<exists>a w1. cx_fate (at_calls E) k = Served
        \<and> f (cx_now (at_calls E) k) (cx_faults (at_calls E) k) (cx_between (at_calls E) k w) = (Inr a, w1)
        \<and> g a (w1, z) = (Inr b, s'))"
  by (auto simp: then_do_Inr store_call_Inr)

lemma provider_call_then:
  "then_do (provider_call E change) g (w, z) = (Inr b, s') \<longleftrightarrow>
     (\<exists>z1. change (at_zone E z) = (Inr (), z1) \<and> g () (w, z1) = (Inr b, s'))"
  by (auto simp: then_do_Inr provider_call_Inr)

lemma observation_then:
  "then_do (observation x) g s = (Inr b, s') \<longleftrightarrow> (\<exists>v. x = Inr v \<and> g v s = (Inr b, s'))"
  by (auto simp: then_do_Inr observation_Inr)

lemmas task_simps = store_call_then provider_call_then observation_then verify_integrity_def

lemma publish_job_Inr:
  assumes "publish_job W E i (w, z) = (Inr True, w', z')"
    and "dns_identity (w_db (cx_between (at_calls E) 1 w)) i = Some (h, uri, p)"
  defines "r \<equiv> \<lparr>nr_hostname = h, nr_addresses = wk_ingress W, nr_acme_account_uri = uri\<rparr>"
  shows "p = wk_placement W \<and> pv_publish_name (wk_provider W) r (at_zone E z) = (Inr (), z')
    \<and> name_visible (at_view E) r = Inr True \<and> (\<exists>w1 fl u. mark_dns_ready (wk_cfg W) fl i w1 = (Inr u, w'))"
proof -
  have "p = wk_placement W" using assms(1,2) unfolding publish_job_def by (auto simp: store_call_then split: if_splits)
  with assms(1,2) obtain w1 v where
    "pv_publish_name (wk_provider W) r (at_zone E z) = (Inr (), z')" "name_visible (at_view E) r = Inr v"
    "(if \<not> v then settle_with False else then_do (store_call E 4 (\<lambda>now fl. mark_dns_ready (wk_cfg W) fl i)) (\<lambda>_. settle_with True))
       (w1, z') = (Inr True, w', z')"
    unfolding publish_job_def r_def by (auto simp: task_simps Let_def split: if_splits)
  with \<open>p = wk_placement W\<close> show ?thesis by (cases v) (auto simp: store_call_then)
qed

lemma reconcile_job_Inr:
  assumes "reconcile_job W E i (w, z) = (Inr True, w', z')"
    and "dns_identity (w_db (cx_between (at_calls E) 1 w)) i = Some (h, uri, p)"
    and "challenge_target (w_db (cx_between (at_calls E) 2 (cx_between (at_calls E) 1 w))) i = (revision, vs)"
  shows "p = wk_placement W \<and> pv_set_challenge (wk_provider W) h vs (at_zone E z) = (Inr (), z')
    \<and> challenge_values_visible (at_view E) h vs = Inr True
    \<and> (\<exists>w1 fl u. mark_challenge_reconciled (wk_cfg W) fl i revision w1 = (Inr u, w'))"
proof -
  have "p = wk_placement W" using assms(1,2) unfolding reconcile_job_def by (auto simp: store_call_then split: if_splits)
  with assms obtain w1 v where
    "pv_set_challenge (wk_provider W) h vs (at_zone E z) = (Inr (), z')" "challenge_values_visible (at_view E) h vs = Inr v"
    "(if \<not> v then settle_with False
      else then_do (store_call E 5 (\<lambda>now fl. mark_challenge_reconciled (wk_cfg W) fl i revision)) (\<lambda>_. settle_with True))
       (w1, z') = (Inr True, w', z')"
    unfolding reconcile_job_def by (auto simp: task_simps split: if_splits)
  with \<open>p = wk_placement W\<close> show ?thesis by (cases v) (auto simp: store_call_then)
qed

lemma remove_records_job_Inr:
  assumes "remove_records_job W E i (w, z) = (Inr True, w', z')"
    and "retired_hostname (w_db (cx_between (at_calls E) 1 w)) i = Some h"
  shows "pv_retire_name (wk_provider W) h (at_zone E z) = (Inr (), z') \<and> name_absent (at_view E) h = Inr True"
  using assms unfolding remove_records_job_def by (auto simp: task_simps observation_Inr)

lemma remove_txt_job_Inr:
  assumes "remove_txt_job W E i (w, z) = (Inr True, w', z')"
    and "retired_hostname (w_db (cx_between (at_calls E) 1 w)) i = Some h"
  shows "pv_retire_challenge (wk_provider W) h (at_zone E z) = (Inr (), z') \<and> challenge_absent (at_view E) h = Inr True"
  using assms unfolding remove_txt_job_def by (auto simp: task_simps observation_Inr)

lemma process_job_kinds:
  assumes "process_job W E job s = (Inr True, s')"
  shows "ob_kind job = ''publish_name'' \<Longrightarrow> wk_scope W = Serving \<and> publish_job W E (ob_installation job) s = (Inr True, s')"
    and "ob_kind job = ''reconcile_txt'' \<Longrightarrow> wk_scope W = Challenge \<and> reconcile_job W E (ob_installation job) s = (Inr True, s')"
    and "ob_kind job = ''remove_records'' \<Longrightarrow> wk_scope W = Serving \<and> remove_records_job W E (ob_installation job) s = (Inr True, s')"
    and "ob_kind job = ''remove_txt_all'' \<Longrightarrow> wk_scope W = Challenge \<and> remove_txt_job W E (ob_installation job) s = (Inr True, s')"
  using assms by (cases "wk_scope W"; simp add: process_job_def give_up_def)+

text \<open>The configuration accepts more ingress addresses than a publication may carry.\<close>

lemma ingress_limit_mismatch:
  "\<exists>ips. addresses_ok ips
     \<and> (\<forall>h uri. isl (validate_records \<lparr>nr_hostname = h, nr_addresses = ips, nr_acme_account_uri = uri\<rparr>))"
  by (rule exI [of _ "replicate 5 (V4 1)"]) (auto simp: addresses_ok_def validate_records_def list_ex_iff split: sum.split)

text \<open>
  C5. When a worker whose provider keeps its contract completes a publication, the installation is of
  its own placement, the records of the name at the provider are exactly the wanted ones, the
  authoritative and the recursive resolver have both shown exactly these, and no row of the
  installation still waits for its DNS.
\<close>

theorem completed_publication:
  assumes "dns_provider (wk_provider W) serving challenge" and "process_job W E job (w, z) = (Inr True, w', z')"
    and "ob_kind job = ''publish_name''"
    and "dns_identity (w_db (cx_between (at_calls E) 1 w)) (ob_installation job) = Some (h, uri, p)"
    and "r = \<lparr>nr_hostname = h, nr_addresses = wk_ingress W, nr_acme_account_uri = uri\<rparr>"
  shows "wk_scope W = Serving \<and> p = wk_placement W \<and> serving z' h = wanted r
    \<and> seen (vw_authoritative (at_view E)) h = Some (wanted r) \<and> seen (vw_recursive (at_view E)) h = Some (wanted r)
    \<and> \<not> exists_row (awaiting_dns (ob_installation job)) (installations (w_db w'))"
proof -
  from process_job_kinds(1) [OF assms(2,3)]
  have scope: "wk_scope W = Serving" and "publish_job W E (ob_installation job) (w, z) = (Inr True, w', z')" by simp_all
  from publish_job_Inr [OF this(2) assms(4)] obtain w1 fl u where "p = wk_placement W"
    and published: "pv_publish_name (wk_provider W) r (at_zone E z) = (Inr (), z')"
    and visible: "name_visible (at_view E) r = Inr True"
    and mark: "mark_dns_ready (wk_cfg W) fl (ob_installation job) w1 = (Inr u, w')"
    unfolding assms(5) by blast
  moreover have "nr_hostname r = h" by (simp add: assms(5))
  ultimately show ?thesis
    using scope dns_provider.published [OF assms(1) published] name_visible_True [OF visible]
      mark_dns_ready_none_awaiting [OF mark] by auto
qed


text \<open>
  C17. A worker of one scope cannot touch the records of the other. Whatever job it is given and
  whatever comes of it, a serving worker leaves every challenge as it found it at the service, and a challenge
  worker every name; a job outside its scope changes nothing at all.
\<close>

theorem worker_scopes:
  assumes "dns_provider (wk_provider W) serving challenge" and "process_job W E job (w, z) = (x, w', z')"
  shows "(wk_scope W = Serving \<longrightarrow> z' = z \<or> challenge z' = challenge (at_zone E z))
    \<and> (wk_scope W = Challenge \<longrightarrow> z' = z \<or> serving z' = serving (at_zone E z))
    \<and> (\<not> job_allowed (wk_scope W) (ob_kind job) \<longrightarrow> x = Inl OutsideScope \<and> w' = w \<and> z' = z)"
proof -
  let ?C = "\<lambda>z z'. challenge z' = challenge (at_zone E z)" and ?S = "\<lambda>z z'. serving z' = serving (at_zone E z)"
  have publish: "?C z (snd (pv_publish_name (wk_provider W) r (at_zone E z)))" for r z
    using dns_provider.publish_frame [OF assms(1) surjective_pairing] by (intro ext) blast
  have retire: "?C z (snd (pv_retire_name (wk_provider W) h (at_zone E z)))" for h z
    using dns_provider.retire_name_frame [OF assms(1) surjective_pairing] by (intro ext) blast
  have set: "?S z (snd (pv_set_challenge (wk_provider W) h vs (at_zone E z)))" for h vs z
    using dns_provider.challenge_frame [OF assms(1) surjective_pairing] by (intro ext) blast
  have unset: "?S z (snd (pv_retire_challenge (wk_provider W) h (at_zone E z)))" for h z
    using dns_provider.retire_challenge_frame [OF assms(1) surjective_pairing] by (intro ext) blast
  have z': "z' = snd (snd (process_job W E job (w, z)))" using assms(2) by simp
  have "zone_step ?C (process_job W E job)" if "wk_scope W = Serving"
    using that publish_job_zone [of ?C W E, OF publish] remove_jobs_zone(1) [of ?C W E, OF retire]
    by (auto simp: process_job_def intro: zone_step_quiet)
  moreover have "zone_step ?S (process_job W E job)" if "wk_scope W = Challenge"
    using that reconcile_job_zone [of ?S W E, OF set] remove_jobs_zone(2) [of ?S W E, OF unset]
    by (auto simp: process_job_def intro: zone_step_quiet)
  ultimately show ?thesis
    using assms(2) unfolding z' by (auto simp: zone_step_def process_job_def give_up_def)
qed

end
