(* ===== verification/Dns_Cloudflare_Refines.thy ===== *)
theory Dns_Cloudflare_Refines
  imports Dns_Cloudflare_Proofs
begin

text \<open>
  What successful changes of the Cloudflare provider leave behind, and the provider interface.
\<close>

section \<open>A successful serving change\<close>

text \<open>What the records are after all the updates: the updated ones as written, the others as they were.\<close>

definition rewritten :: "(cf_record \<times> cf_body) list \<Rightarrow> cf_record \<Rightarrow> cf_record \<Rightarrow> bool" where
  "rewritten us x y \<longleftrightarrow> rc_id y = rc_id x \<and> (rc_id x \<notin> (rc_id \<circ> fst) ` set us \<longrightarrow> y = x)
     \<and> (\<forall>(r, b) \<in> set us. rc_id r = rc_id x \<longrightarrow> written b y)"

lemma changes_patched:
  assumes "changes (\<lambda>(r, b). patched (rc_id r) b) us Z Z'" and "distinct (map (rc_id \<circ> fst) us)"
  shows "list_all2 (rewritten us) Z Z'"
  using assms
proof (induction us arbitrary: Z)
  case Nil
  then show ?case by (simp add: rewritten_def list_all2_refl)
next
  case (Cons u us)
  obtain r b where u: "u = (r, b)" by (cases u)
  from Cons.prems(1) obtain Z1 where Z1: "patched (rc_id r) b Z Z1" "changes (\<lambda>(r, b). patched (rc_id r) b) us Z1 Z'"
    by (auto simp: u)
  from Z1(1) obtain w where w: "written b w" "rc_id w = rc_id r" "Z1 = map (\<lambda>x. if rc_id x = rc_id r then w else x) Z"
    by (auto simp: patched_def)
  from Cons.IH [OF Z1(2)] Cons.prems(2) have "list_all2 (rewritten us) Z1 Z'" by simp
  then have *: "list_all2 (\<lambda>x y. rewritten us (if rc_id x = rc_id r then w else x) y) Z Z'"
    unfolding w(3) by (simp add: list_all2_map1)
  show ?case
  proof (rule list_all2_mono [OF *])
    fix x y assume "rewritten us (if rc_id x = rc_id r then w else x) y"
    with w(1,2) Cons.prems(2) show "rewritten (u # us) x y"
      by (auto simp: rewritten_def u split: if_splits)
  qed
qed

lemma list_all2_set1: "list_all2 P xs ys \<Longrightarrow> x \<in> set xs \<Longrightarrow> \<exists>y \<in> set ys. P x y"
  by (induction rule: list_all2_induct) auto

lemma list_all2_set2: "list_all2 P xs ys \<Longrightarrow> y \<in> set ys \<Longrightarrow> \<exists>x \<in> set xs. P x y"
  by (induction rule: list_all2_induct) auto

text \<open>The records of a name are the entries: each record has an entry's key, and each entry a record.\<close>

definition settled :: "string \<Rightarrow> (record_key \<times> cf_body) list \<Rightarrow> cf_record list \<Rightarrow> bool" where
  "settled h desired Z \<longleftrightarrow>
     (\<forall>r \<in> set Z. rc_name r = h \<longrightarrow> serving_kind r \<longrightarrow>
        owned h r \<and> record_key r = Inr (key_of r) \<and> key_of r \<in> fst ` set desired \<and> \<not> misfit r)
     \<and> (\<forall>k \<in> fst ` set desired. \<exists>r \<in> set Z. owned h r \<and> record_key r = Inr k)"

text \<open>The records after the creations and the updates of a plan, before its deletions.\<close>

definition staged ::
  "string \<Rightarrow> (record_key \<times> cf_body) list \<Rightarrow> serving_plan \<Rightarrow> cf_record list \<Rightarrow> cf_record list \<Rightarrow> cf_record list
     \<Rightarrow> cf_record list \<Rightarrow> bool" where
  "staged h desired plan kept news Z Z' \<longleftrightarrow>
     distinct (map rc_id Z) \<and> planned (filter (\<lambda>r. rc_name r = h) Z) desired plan kept
     \<and> distinct (map fst desired) \<and> (\<forall>e \<in> set desired. entry_ok h e)
     \<and> list_all2 written (pl_missing plan) news \<and> rc_id ` set news \<inter> rc_id ` set Z = {}
     \<and> list_all2 (rewritten (pl_updates plan)) (Z @ news) Z'"

lemma staged_written:
  "staged h desired plan kept news Z Z' \<Longrightarrow> e \<in> set desired \<Longrightarrow> written (snd e) r \<Longrightarrow>
     owned h r \<and> record_key r = Inr (fst e) \<and> \<not> misfit r"
  by (auto simp: staged_def entry_ok_def misfit_def)

lemma planned_missing:
  assumes "planned existing desired plan kept"
  shows "b \<in> set (pl_missing plan) \<longleftrightarrow> (\<exists>e \<in> set desired. fst e \<notin> key_of ` set kept \<and> b = snd e)"
proof -
  have "set_mset (mset (pl_missing plan)) = set_mset (mset (map snd (filter (\<lambda>e. fst e \<notin> key_of ` set kept) desired)))"
    using assms by (simp add: planned_def)
  then show ?thesis by auto
qed

lemma planned_update:
  assumes "planned existing desired plan kept" and "(r, b) \<in> set (pl_updates plan)"
  obtains e where "e \<in> set desired" "fst e = key_of r" "b = snd e" "r \<in> set kept"
proof -
  from assms have r: "r \<in> set kept" "key_of r \<in> dom (map_of desired)" "b = the (map_of desired (key_of r))"
    by (auto simp: planned_def scanned_def)
  then have "map_of desired (key_of r) = Some b" by auto
  from map_of_SomeD [OF this] r(1) show thesis by (intro that [of "(key_of r, b)"]) auto
qed

lemma planned_disjoint:
  assumes "planned (filter (\<lambda>r. rc_name r = h) Z) desired plan kept" and "distinct (map rc_id Z)"
  shows "set kept \<inter> set (pl_stale plan) = {}" and "distinct kept"
proof -
  have eq: "mset (filter serving_kind (filter (\<lambda>r. rc_name r = h) Z)) = mset (kept @ pl_stale plan)"
    using assms(1) by (simp only: planned_def scanned_def mset_append)
  have "distinct (filter serving_kind (filter (\<lambda>r. rc_name r = h) Z))" using assms(2) by (simp add: distinct_map)
  then have "distinct (kept @ pl_stale plan)" by (simp only: mset_eq_imp_distinct_iff [OF eq])
  then show "set kept \<inter> set (pl_stale plan) = {}" "distinct kept" by auto
qed

lemma staged_ids:
  assumes "staged h desired plan kept news Z Z'" and "x \<in> set Z" and "y \<in> set Z" and "rc_id x = rc_id y"
  shows "x = y"
  using assms by (auto simp: staged_def distinct_map inj_on_def)

lemma staged_fresh:
  assumes "staged h desired plan kept news Z Z'" and "x \<in> set news"
  shows "rc_id x \<notin> rc_id ` set (pl_stale plan)" and "rc_id x \<notin> (rc_id \<circ> fst) ` set (pl_updates plan)"
proof -
  from assms(1) have planned: "planned (filter (\<lambda>r. rc_name r = h) Z) desired plan kept" by (simp add: staged_def)
  have "rc_id x \<notin> rc_id ` set Z" using assms by (auto simp: staged_def)
  moreover have "set (pl_stale plan) \<subseteq> set Z" using planned_records(1) [OF planned] by blast
  moreover have "fst ` set (pl_updates plan) \<subseteq> set Z"
    using planned_records(1) [OF planned] by (auto elim!: planned_update [OF planned])
  ultimately show "rc_id x \<notin> rc_id ` set (pl_stale plan)" "rc_id x \<notin> (rc_id \<circ> fst) ` set (pl_updates plan)"
    by (blast, force)
qed

text \<open>A record of the name that was not touched and is not stale was kept and fits.\<close>

lemma staged_untouched:
  assumes staged: "staged h desired plan kept news Z Z'" and x: "x \<in> set Z" "rc_name x = h" "serving_kind x"
    and "rc_id x \<notin> rc_id ` set (pl_stale plan)" and untouched: "rc_id x \<notin> (rc_id \<circ> fst) ` set (pl_updates plan)"
  shows "owned h x \<and> record_key x = Inr (key_of x) \<and> key_of x \<in> fst ` set desired \<and> \<not> misfit x"
proof -
  from staged have planned: "planned (filter (\<lambda>r. rc_name r = h) Z) desired plan kept" by (simp add: staged_def)
  note plan = planned [unfolded planned_def scanned_def]
  from x have "x \<in># mset kept + mset (pl_stale plan)"
    unfolding plan [THEN conjunct1, THEN conjunct1, symmetric] by auto
  with assms(5) have kept: "x \<in> set kept" by auto
  with plan have "key_of x \<in> dom (map_of desired)" by blast
  then have "key_of x \<in> fst ` set desired" by (simp add: dom_map_of_conv_image_fst)
  moreover have "\<not> misfit x"
  proof
    assume "misfit x"
    with kept plan have "(x, the (map_of desired (key_of x))) \<in> set (pl_updates plan)" by auto
    with untouched show False by force
  qed
  ultimately show ?thesis using planned_records [OF planned, of x] kept by simp
qed

lemma staged_sound:
  assumes staged: "staged h desired plan kept news Z Z'"
    and y: "y \<in> set Z'" "rc_id y \<notin> rc_id ` set (pl_stale plan)" "rc_name y = h" "serving_kind y"
  shows "owned h y \<and> record_key y = Inr (key_of y) \<and> key_of y \<in> fst ` set desired \<and> \<not> misfit y"
proof -
  from staged have planned: "planned (filter (\<lambda>r. rc_name r = h) Z) desired plan kept"
    and news: "list_all2 written (pl_missing plan) news" and Z': "list_all2 (rewritten (pl_updates plan)) (Z @ news) Z'"
    by (simp_all add: staged_def)
  from list_all2_set2 [OF Z' y(1)] obtain x where x: "x \<in> set (Z @ news)" "rewritten (pl_updates plan) x y" by blast
  have entry: ?thesis if "e \<in> set desired" "written (snd e) y" for e
    using staged_written [OF staged that] that(1) by simp
  show ?thesis
  proof (cases "rc_id x \<in> (rc_id \<circ> fst) ` set (pl_updates plan)")
    case True
    then obtain r b where rb: "(r, b) \<in> set (pl_updates plan)" "rc_id r = rc_id x" by auto
    from planned_update [OF planned rb(1)] obtain e where e: "e \<in> set desired" "b = snd e" by blast
    from x(2) rb e(2) have "written (snd e) y" by (auto simp: rewritten_def)
    then show ?thesis by (rule entry [OF e(1)])
  next
    case False
    with x(2) have yx: "y = x" by (simp add: rewritten_def)
    show ?thesis
    proof (cases "x \<in> set news")
      case True
      from list_all2_set2 [OF news True] obtain b where b: "b \<in> set (pl_missing plan)" "written b x" by blast
      from planned_missing [OF planned, of b] b yx obtain e where "e \<in> set desired" "written (snd e) y" by auto
      then show ?thesis by (rule entry)
    next
      case new: False
      with x(1) have "x \<in> set Z" by simp
      from staged_untouched [OF staged this] y(2-4) False yx show ?thesis by simp
    qed
  qed
qed

lemma staged_kept:
  assumes staged: "staged h desired plan kept news Z Z'" and r: "r \<in> set kept"
  shows "\<exists>y \<in> set Z'. rc_id y = rc_id r \<and> rc_id y \<notin> rc_id ` set (pl_stale plan) \<and> owned h y
    \<and> record_key y = Inr (key_of r)"
proof -
  from staged have planned: "planned (filter (\<lambda>r. rc_name r = h) Z) desired plan kept"
    and Z': "list_all2 (rewritten (pl_updates plan)) (Z @ news) Z'" and ids: "distinct (map rc_id Z)"
    by (simp_all add: staged_def)
  note recs = planned_records [OF planned]
  have rZ: "r \<in> set Z" using recs(1) r by simp
  from list_all2_set1 [OF Z'] rZ obtain y where y: "y \<in> set Z'" "rewritten (pl_updates plan) r y" by auto
  have "rc_id r \<notin> rc_id ` set (pl_stale plan)"
  proof
    assume "rc_id r \<in> rc_id ` set (pl_stale plan)"
    then obtain s where s: "s \<in> set (pl_stale plan)" "rc_id r = rc_id s" by auto
    then have "r = s" using staged_ids [OF staged rZ recs(1)] by simp
    with s(1) r planned_disjoint(1) [OF planned ids] show False by blast
  qed
  moreover have "owned h y \<and> record_key y = Inr (key_of r)"
  proof (cases "rc_id r \<in> (rc_id \<circ> fst) ` set (pl_updates plan)")
    case True
    then obtain r' b where rb: "(r', b) \<in> set (pl_updates plan)" "rc_id r' = rc_id r" by auto
    from planned_update [OF planned rb(1)] obtain e
      where e: "e \<in> set desired" "fst e = key_of r'" "b = snd e" "r' \<in> set kept" by blast
    have "r' = r" using staged_ids [OF staged recs(1) rZ rb(2)] e(4) by simp
    have "written (snd e) y" using y(2) rb e(3) by (auto simp: rewritten_def)
    from staged_written [OF staged e(1) this] e(2) \<open>r' = r\<close> show ?thesis by simp
  next
    case False
    with y(2) have "y = r" by (simp add: rewritten_def)
    with recs(2,3) [of r] r show ?thesis by simp
  qed
  ultimately show ?thesis using y by (auto simp: rewritten_def)
qed

lemma staged_complete:
  assumes staged: "staged h desired plan kept news Z Z'" and k: "k \<in> fst ` set desired"
  shows "\<exists>y \<in> set Z'. rc_id y \<notin> rc_id ` set (pl_stale plan) \<and> owned h y \<and> record_key y = Inr k"
proof (cases "k \<in> key_of ` set kept")
  case True
  then obtain r where r: "r \<in> set kept" "k = key_of r" by blast
  from staged_kept [OF staged r(1)] r(2) show ?thesis by auto
next
  case False
  from staged have planned: "planned (filter (\<lambda>r. rc_name r = h) Z) desired plan kept"
    and news: "list_all2 written (pl_missing plan) news" and Z': "list_all2 (rewritten (pl_updates plan)) (Z @ news) Z'"
    by (simp_all add: staged_def)
  from k obtain e where e: "e \<in> set desired" "k = fst e" by blast
  with False planned_missing [OF planned, of "snd e"] have "snd e \<in> set (pl_missing plan)" by blast
  from list_all2_set1 [OF news this] obtain r where r: "r \<in> set news" "written (snd e) r" by blast
  from list_all2_set1 [OF Z', of r] r(1) obtain y where y: "y \<in> set Z'" "rewritten (pl_updates plan) r y" by auto
  with staged_fresh(2) [OF staged r(1)] have "y = r" by (simp add: rewritten_def)
  with y(1) staged_fresh(1) [OF staged r(1)] staged_written [OF staged e(1) r(2)] e(2) show ?thesis by blast
qed

lemma staged_settled:
  assumes "staged h desired plan kept news Z Z'"
  shows "settled h desired (filter (\<lambda>x. rc_id x \<notin> rc_id ` set (pl_stale plan)) Z')"
  unfolding settled_def
proof (intro conjI ballI)
  fix k assume "k \<in> fst ` set desired"
  from staged_complete [OF assms this]
  show "\<exists>r \<in> set (filter (\<lambda>x. rc_id x \<notin> rc_id ` set (pl_stale plan)) Z'). owned h r \<and> record_key r = Inr k"
    by auto
qed (use staged_sound [OF assms] in auto)

lemma reconcile_settled:
  assumes "documented sv zone" and "reconcile_serving sv h desired z = (Inr (), z')"
    and "distinct (map fst desired)" and "\<And>e. e \<in> set desired \<Longrightarrow> entry_ok h e"
  shows "settled h desired (zone z')"
  using assms(1-3)
proof (cases rule: reconcile_phases)
  case (delete plan kept z1 z2 z3)
  have "changes created (pl_missing plan) (zone z) (zone z2)"
    using each_changes [OF delete(3), where zone = zone and p = created] documented_create [OF assms(1)] delete(2) by simp
  from changes_created [OF this] obtain news where news: "list_all2 written (pl_missing plan) news"
    "zone z2 = zone z @ news" "rc_id ` set news \<inter> rc_id ` set (zone z) = {}" by blast
  have "changes (\<lambda>(r, b). patched (rc_id r) b) (pl_updates plan) (zone z2) (zone z3)"
    using each_changes [OF delete(4), where zone = zone and p = "\<lambda>(r, b). patched (rc_id r) b"]
      documented_update [OF assms(1)] by fastforce
  moreover have "distinct (map (rc_id \<circ> fst) (pl_updates plan))"
  proof -
    have "distinct (map rc_id (filter misfit kept))"
      using planned_disjoint(2) [OF delete(1) documented_ids [OF assms(1)]]
        planned_records(1) [OF delete(1)] documented_ids [OF assms(1), of z]
      by (auto simp: distinct_map inj_on_def)
    then show ?thesis using delete(1) by (simp add: planned_def comp_def)
  qed
  ultimately have upd: "list_all2 (rewritten (pl_updates plan)) (zone z @ news) (zone z3)"
    using changes_patched news(2) by metis
  have "changes (\<lambda>r. deleted (rc_id r)) (pl_stale plan) (zone z3) (zone z')"
    using each_changes [OF delete(5), where zone = zone and p = "\<lambda>r. deleted (rc_id r)"]
      documented_delete [OF assms(1)] by simp
  then have "zone z' = filter (\<lambda>x. rc_id x \<notin> rc_id ` set (pl_stale plan)) (zone z3)"
    by (simp only: changes_deleted)
  moreover have "staged h desired plan kept news (zone z) (zone z3)"
    using delete(1) documented_ids [OF assms(1)] assms(3,4) news upd by (simp add: staged_def)
  ultimately show ?thesis using staged_settled by simp
qed simp_all

section \<open>What a resolver would see\<close>

definition shown :: "cf_record \<Rightarrow> published" where
  "shown r = (rc_kind r, if rc_kind r = ''CAA''
     then (case rc_data r of
         None \<Rightarrow> rc_content r
       | Some d \<Rightarrow> decimal (unat (cd_flags d)) @ '' '' @ cd_tag d @ '' '' @ quoted (cd_value d))
     else rc_content r)"

definition cf_serving :: "('z \<Rightarrow> cf_record list) \<Rightarrow> 'z \<Rightarrow> string \<Rightarrow> published set" where
  "cf_serving zone z h = shown ` {r \<in> set (zone z). rc_name r = h \<and> serving_kind r}"

definition txt_name :: "string \<Rightarrow> string" where
  "txt_name h = ''_acme-challenge.'' @ h"

definition cf_challenge :: "('z \<Rightarrow> cf_record list) \<Rightarrow> 'z \<Rightarrow> string \<Rightarrow> string set" where
  "cf_challenge zone z h =
     txt_content ` {r \<in> set (zone z). rc_name r = txt_name h \<and> rc_kind r = ''TXT''}"

text \<open>The text of a record is determined by its key.\<close>

fun shown_key :: "record_key \<Rightarrow> published" where
  "shown_key (kind, text) = (kind, if kind = ''CAA''
     then (if take 6 text = ''issue:'' then ''0 issue '' @ quoted (drop 6 text) else ''0 issuewild '' @ quoted (drop 10 text))
     else text)"

lemma decimal_0: "decimal 0 = ''0''"
  by code_simp

lemma shown_key: "record_key r = Inr k \<Longrightarrow> shown r = shown_key k"
  by (auto simp: record_key_def shown_def decimal_0 split: if_splits option.splits)

lemma wanted_keys:
  assumes "serving_desired r = Inr desired"
  shows "shown_key ` fst ` set desired = wanted r"
  using assms
proof (rule serving_desired_Inr)
  fix as assume desired: "desired = as @ [issue_entry (nr_hostname r) (nr_acme_account_uri r), denial_entry (nr_hostname r)]"
    and as: "set as = address_entry (nr_hostname r) ` set (nr_addresses r)"
  from assms obtain vs where vs: "caa_values (nr_acme_account_uri r) = Inr vs"
    by (auto simp: serving_desired_def Let_def split: sum.splits)
  then have "set vs = {''0 issue '' @ quoted (caa_issue_value (nr_acme_account_uri r)), ''0 issuewild '' @ quoted '';''}"
    by (auto simp: caa_values_def split: if_splits)
  moreover have "shown_key (fst (address_entry (nr_hostname r) ip)) = address_record ip" for ip
    by (cases ip) (simp_all add: address_entry_def)
  moreover have "shown_key (fst (issue_entry h uri)) = (''CAA'', ''0 issue '' @ quoted (caa_issue_value uri))"
    "shown_key (fst (denial_entry h)) = (''CAA'', ''0 issuewild '' @ quoted '';'')" for h uri
    by (simp_all add: issue_entry_def denial_entry_def)
  ultimately show ?thesis
    unfolding image_image desired set_append as wanted_def vs sum.case
    by (simp only: image_Un image_image list.set image_insert image_empty)
qed

lemma settled_serving:
  assumes "settled h desired (zone z)"
  shows "cf_serving zone z h = shown_key ` fst ` set desired"
proof
  show "cf_serving zone z h \<subseteq> shown_key ` fst ` set desired"
  proof
    fix p assume "p \<in> cf_serving zone z h"
    then obtain r where r: "p = shown r" "r \<in> set (zone z)" "rc_name r = h" "serving_kind r" by (auto simp: cf_serving_def)
    with assms have k: "record_key r = Inr (key_of r)" "key_of r \<in> fst ` set desired" unfolding settled_def by blast+
    from shown_key [OF k(1)] r(1) k(2) show "p \<in> shown_key ` fst ` set desired" by simp
  qed
  show "shown_key ` fst ` set desired \<subseteq> cf_serving zone z h"
  proof (rule image_subsetI)
    fix k assume "k \<in> fst ` set desired"
    with assms obtain r where r: "r \<in> set (zone z)" "owned h r" "record_key r = Inr k" unfolding settled_def by blast
    from r(1,2) have "shown r \<in> cf_serving zone z h" by (auto simp: cf_serving_def owned_def)
    with shown_key [OF r(3)] show "shown_key k \<in> cf_serving zone z h" by simp
  qed
qed

lemma publish_exact:
  assumes "documented sv zone" and "cf_publish_name scope sv n z = (Inr (), z')"
  shows "cf_serving zone z' (nr_hostname n) = wanted n"
proof -
  from assms(2) obtain desired where desired: "serving_desired n = Inr desired"
    and run: "reconcile_serving sv (nr_hostname n) desired z = (Inr (), z')"
    by (auto simp: cf_publish_name_def require_def split: sum.splits if_splits)
  have "settled (nr_hostname n) desired (zone z')"
    using desired_entries_ok [OF desired] serving_desired_Inr [OF desired]
    by (intro reconcile_settled [OF assms(1) run]) blast+
  then show ?thesis by (simp add: settled_serving wanted_keys [OF desired])
qed

lemma retire_name_exact:
  assumes "documented sv zone" and "cf_retire_name scope sv h z = (Inr (), z')"
  shows "cf_serving zone z' h = {}"
  using assms
proof (cases rule: retire_name_Cons)
  case (delete z1)
  let ?records = "sort_key delete_rank (filter serving_kind (filter (\<lambda>r. rc_name r = h) (zone z)))"
  have "changes (\<lambda>r. deleted (rc_id r)) ?records (zone z1) (zone z')"
    using each_changes [OF delete(3), where zone = zone and p = "\<lambda>r. deleted (rc_id r)"]
      documented_delete [OF assms(1)] by simp
  then have "zone z' = filter (\<lambda>x. rc_id x \<notin> rc_id ` set ?records) (zone z)"
    by (simp only: changes_deleted delete(2))
  then show ?thesis by (auto simp: cf_serving_def)
qed simp

section \<open>Challenge records\<close>

definition txt_owned :: "string \<Rightarrow> cf_record \<Rightarrow> bool" where
  "txt_owned h r \<longleftrightarrow> rc_name r = txt_name h \<and> rc_kind r = ''TXT'' \<and> challenge_managed r"

lemma challenge_name_Inr: "challenge_name h = Inr name \<Longrightarrow> name = txt_name h"
  by (auto simp: challenge_name_def txt_name_def split: sum.splits)

text \<open>The loop deletes some records, and keeps one record for each value it reports.\<close>

lemma keep_values_invariant:
  assumes "keep_values sv vs rs kept z = (x, z')" and "I z"
    and "\<And>r z y z'. r \<in> set rs \<Longrightarrow> I z \<Longrightarrow> cf_delete sv r z = (y, z') \<Longrightarrow> I z'"
  shows "I z'"
  using assms
proof (induction rs arbitrary: kept z)
  case (Cons r rs)
  show ?case
  proof (cases "txt_content r \<in> set vs \<and> txt_content r \<notin> kept")
    case True
    with Cons.prems(1) have "keep_values sv vs rs (insert (txt_content r) kept) z = (x, z')" by simp
    then show ?thesis by (rule Cons.IH [OF _ Cons.prems(2)]) (use Cons.prems(3) in auto)
  next
    case False
    obtain y z1 where d: "cf_delete sv r z = (y, z1)" by fastforce
    with Cons.prems(2,3) have I: "I z1" by auto
    show ?thesis
    proof (cases y)
      case (Inr u)
      with d False Cons.prems(1) have "keep_values sv vs rs kept z1 = (x, z')" by auto
      then show ?thesis by (rule Cons.IH [OF _ I]) (use Cons.prems(3) in auto)
    qed (use d False I Cons.prems(1) in auto)
  qed
qed simp

lemma keep_values_Inr:
  assumes "documented sv zone" and "keep_values sv vs rs kept z = (Inr kept', z')"
  shows "\<exists>gone stay. mset rs = mset gone + mset stay \<and> zone z' = filter (\<lambda>x. rc_id x \<notin> rc_id ` set gone) (zone z)
    \<and> kept' = kept \<union> txt_content ` set stay \<and> txt_content ` set stay \<subseteq> set vs"
  using assms(2)
proof (induction rs arbitrary: kept z)
  case (Cons r rs)
  show ?case
  proof (cases "txt_content r \<in> set vs \<and> txt_content r \<notin> kept")
    case True
    with Cons.prems have "keep_values sv vs rs (insert (txt_content r) kept) z = (Inr kept', z')" by simp
    from Cons.IH [OF this] obtain gone stay where "mset rs = mset gone + mset stay"
      "zone z' = filter (\<lambda>x. rc_id x \<notin> rc_id ` set gone) (zone z)"
      "kept' = insert (txt_content r) kept \<union> txt_content ` set stay" "txt_content ` set stay \<subseteq> set vs" by blast
    with True show ?thesis by (intro exI [of _ gone] exI [of _ "r # stay"]) auto
  next
    case False
    obtain y z1 where d: "cf_delete sv r z = (y, z1)" by fastforce
    with Cons.prems False have y: "y = Inr ()" "keep_values sv vs rs kept z1 = (Inr kept', z')" by (cases y; auto)+
    from documented_delete [OF assms(1) d] y(1) have z1: "zone z1 = filter (\<lambda>x. rc_id x \<noteq> rc_id r) (zone z)"
      by (simp add: deleted_def)
    from Cons.IH [OF y(2)] obtain gone stay where "mset rs = mset gone + mset stay"
      "zone z' = filter (\<lambda>x. rc_id x \<notin> rc_id ` set gone) (zone z1)"
      "kept' = kept \<union> txt_content ` set stay" "txt_content ` set stay \<subseteq> set vs" by blast
    with z1 show ?thesis
      by (intro exI [of _ "r # gone"] exI [of _ stay]) (auto intro!: filter_cong)
  qed
qed simp

lemma set_challenge_phases:
  assumes "documented sv zone" and "cf_set_challenge scope sv h vs z = (x, z')"
  obtains (early) "isl x" "zone z' = zone z"
  | (keep) z1 e where "zone z1 = zone z" "\<forall>r \<in> set (zone z). rc_name r = txt_name h \<longrightarrow> txt_owned h r"
      "keep_values sv vs (filter (\<lambda>r. rc_name r = txt_name h) (zone z)) {} z1 = (Inl e, z')" "isl x"
  | (create) z1 kept z2 where "zone z1 = zone z"
      "\<forall>r \<in> set (zone z). rc_name r = txt_name h \<longrightarrow> txt_owned h r"
      "keep_values sv vs (filter (\<lambda>r. rc_name r = txt_name h) (zone z)) {} z1 = (Inr kept, z2)"
      "each (\<lambda>v. cf_create sv (txt_body (txt_name h) v)) (filter (\<lambda>v. v \<notin> kept) vs) z2 = (x, z')"
proof -
  let ?n = "txt_name h"
  let ?records = "filter (\<lambda>r. rc_name r = ?n) (zone z)"
  obtain y z1 where list: "cf_list sv ?n z = (y, z1)" by fastforce
  note zone = documented_list [OF assms(1) list]
  show thesis
  proof (cases "(\<exists>e. x = Inl e) \<and> z' \<in> {z, z1}")
    case True
    with zone(1) show thesis by (intro early) auto
  next
    case False
    have name: "challenge_name h = Inr ?n"
    proof (cases "challenge_name h")
      case (Inl a)
      then have "\<exists>e. cf_set_challenge scope sv h vs z = (Inl e, z)"
        by (cases scope; cases "validate_challenge_values vs") (simp_all add: cf_set_challenge_def require_def)
      with assms(2) False show ?thesis by auto
    qed (use challenge_name_Inr in blast)
    have valid: "scope = CfChallenge" "validate_challenge_values vs = Inr ()"
      using assms(2) False
      by (cases scope; cases "validate_challenge_values vs"; auto simp: cf_set_challenge_def require_def)+
    have eq: "(x, z') = (case y of Inl e \<Rightarrow> (Inl e, z1) | Inr records \<Rightarrow>
        if list_ex (\<lambda>r. rc_kind r \<noteq> ''TXT'' \<or> \<not> challenge_managed r) records then (Inl DnsConflict, z1)
        else (case keep_values sv vs records {} z1 of
            (Inl e, z') \<Rightarrow> (Inl e, z')
          | (Inr kept, z') \<Rightarrow> each (\<lambda>v. cf_create sv (txt_body ?n v)) (filter (\<lambda>v. v \<notin> kept) vs) z'))"
      unfolding assms(2) [symmetric] cf_set_challenge_def
      by (cases y) (simp_all add: require_def name list valid)
    with False obtain records where y: "y = Inr records" by (cases y) auto
    from zone(2) [OF y] have records: "records = ?records" .
    with eq y False have ok: "\<not> list_ex (\<lambda>r. rc_kind r \<noteq> ''TXT'' \<or> \<not> challenge_managed r) ?records"
      by (auto split: if_splits)
    then have owned: "\<forall>r \<in> set (zone z). rc_name r = ?n \<longrightarrow> txt_owned h r" by (auto simp: list_ex_iff txt_owned_def)
    obtain k z2 where k: "keep_values sv vs ?records {} z1 = (k, z2)" by fastforce
    have run: "(x, z') = (case k of Inl e \<Rightarrow> (Inl e, z2)
        | Inr kept \<Rightarrow> each (\<lambda>v. cf_create sv (txt_body ?n v)) (filter (\<lambda>v. v \<notin> kept) vs) z2)"
      using eq ok by (simp add: y records k)
    show thesis
    proof (cases k)
      case (Inl e)
      with run k show thesis by (intro keep [OF zone(1) owned]) auto
    next
      case (Inr kept)
      with run k show thesis by (intro create [OF zone(1) owned]) auto
    qed
  qed
qed

lemma txt_body_owned: "written (txt_body (txt_name h) v) r \<Longrightarrow> txt_owned h r \<and> txt_content r = v"
  by (auto simp: written_def txt_body_def txt_owned_def txt_content_def challenge_managed_def strip_prefix_def
      strip_suffix_def quoted_def CHALLENGE_COMMENT_def CHALLENGE_PREFIX_def)

lemma set_challenge_foreign:
  assumes "documented sv zone" and "cf_set_challenge scope sv h vs z = (x, z')"
  shows "filter (\<lambda>r. \<not> txt_owned h r) (zone z') = filter (\<lambda>r. \<not> txt_owned h r) (zone z)"
proof -
  let ?S = "{r \<in> set (zone z). rc_name r = txt_name h}"
  let ?I = "\<lambda>y. guards (txt_owned h) (rc_id ` ?S) (filter (\<lambda>r. \<not> txt_owned h r) (zone z)) (zone y)"
  have keep: "?I z2"
    if "keep_values sv vs (filter (\<lambda>r. rc_name r = txt_name h) (zone z)) {} z1 = (y, z2)" "zone z1 = zone z"
      "\<forall>r \<in> set (zone z). rc_name r = txt_name h \<longrightarrow> txt_owned h r" for z1 y z2
    using that(1)
  proof (rule keep_values_invariant [where I = ?I])
    show "?I z1" unfolding that(2) by (rule guards_start [OF documented_ids [OF assms(1)]]) (use that(3) in auto)
    fix r za q zb assume r: "r \<in> set (filter (\<lambda>r. rc_name r = txt_name h) (zone z))" and I: "?I za" and d: "cf_delete sv r za = (q, zb)"
    from documented_delete [OF assms(1) d] show "?I zb"
      using guards_deleted [OF I, of "rc_id r" "zone zb"] I r by auto
  qed
  from assms have "?I z' \<or> zone z' = zone z"
  proof (cases rule: set_challenge_phases)
    case (create z1 kept z2)
    from create(4) keep [OF create(3,1,2)] have "?I z'"
    proof (rule each_invariant [where I = ?I])
      fix v za q zb assume I: "?I za" and c: "cf_create sv (txt_body (txt_name h) v) za = (q, zb)"
      from documented_create [OF assms(1) c] show "?I zb"
        using guards_created [OF I, of "txt_body (txt_name h) v" "zone zb"] txt_body_owned I by auto
    qed
    then show ?thesis by blast
  qed (use keep in auto)
  then show ?thesis by (auto simp: guards_def)
qed

lemma set_challenge_exact:
  assumes "documented sv zone" and "cf_set_challenge scope sv h vs z = (Inr (), z')"
  shows "cf_challenge zone z' h = set vs"
  using assms
proof (cases rule: set_challenge_phases)
  case (create z1 kept z2)
  let ?records = "filter (\<lambda>r. rc_name r = txt_name h) (zone z)"
  from keep_values_Inr [OF assms(1) create(3)] obtain gone stay where
    split: "mset ?records = mset (gone @ stay)" and z2: "zone z2 = filter (\<lambda>x. rc_id x \<notin> rc_id ` set gone) (zone z)"
    and kept: "kept = txt_content ` set stay" "txt_content ` set stay \<subseteq> set vs"
    unfolding create(1) by auto
  have "changes (\<lambda>v. created (txt_body (txt_name h) v)) (filter (\<lambda>v. v \<notin> kept) vs) (zone z2) (zone z')"
    using each_changes [OF create(4), where zone = zone and p = "\<lambda>v. created (txt_body (txt_name h) v)"]
      documented_create [OF assms(1)] by simp
  moreover have "changes (\<lambda>v. created (txt_body (txt_name h) v)) us Z Z' \<longleftrightarrow> changes created (map (txt_body (txt_name h)) us) Z Z'"
    for us Z Z' by (induction us arbitrary: Z) auto
  ultimately obtain news where news: "list_all2 (\<lambda>v. written (txt_body (txt_name h) v)) (filter (\<lambda>v. v \<notin> kept) vs) news"
    "zone z' = zone z2 @ news"
    using changes_created by (metis list_all2_map1)
  have dist: "distinct (map rc_id (gone @ stay))"
    using documented_ids [OF assms(1), of z] mset_eq_imp_distinct_iff [of "map rc_id ?records" "map rc_id (gone @ stay)"]
      split by (simp add: distinct_map_filter)
  have all: "set ?records = set gone \<union> set stay" using mset_eq_setD [OF split] by simp
  have old: "{r \<in> set (zone z2). rc_name r = txt_name h \<and> rc_kind r = ''TXT''} = set stay"
    using all dist create(2) by (auto simp: z2 txt_owned_def)
  have new: "txt_content ` {r \<in> set news. rc_name r = txt_name h \<and> rc_kind r = ''TXT''} = {v \<in> set vs. v \<notin> kept}"
  proof -
    have "txt_content ` set news = set (filter (\<lambda>v. v \<notin> kept) vs) \<and> (\<forall>r \<in> set news. txt_owned h r)"
      using news(1) by (induction rule: list_all2_induct) (auto dest!: txt_body_owned)
    then show ?thesis by (auto simp: txt_owned_def)
  qed
  have "cf_challenge zone z' h = txt_content ` {r \<in> set (zone z2). rc_name r = txt_name h \<and> rc_kind r = ''TXT''}
      \<union> txt_content ` {r \<in> set news. rc_name r = txt_name h \<and> rc_kind r = ''TXT''}"
    by (auto simp: cf_challenge_def news(2))
  also have "\<dots> = set vs" unfolding old new using kept by auto
  finally show ?thesis .
qed simp_all

lemma retire_challenge_phases:
  assumes "documented sv zone" and "cf_retire_challenge scope sv h z = (x, z')"
  obtains (early) "isl x" "zone z' = zone z"
  | (delete) z1 where "zone z1 = zone z"
      "\<forall>r \<in> set (zone z). rc_name r = txt_name h \<longrightarrow> rc_kind r = ''TXT'' \<longrightarrow> txt_owned h r"
      "each (cf_delete sv) (filter (\<lambda>r. rc_kind r = ''TXT'') (filter (\<lambda>r. rc_name r = txt_name h) (zone z))) z1 = (x, z')"
proof -
  let ?records = "filter (\<lambda>r. rc_kind r = ''TXT'') (filter (\<lambda>r. rc_name r = txt_name h) (zone z))"
  obtain y z1 where list: "cf_list sv (txt_name h) z = (y, z1)" by fastforce
  note zone = documented_list [OF assms(1) list]
  show thesis
  proof (cases "(\<exists>e. x = Inl e) \<and> z' \<in> {z, z1}")
    case True
    with zone(1) show thesis by (intro early) auto
  next
    case False
    have name: "challenge_name h = Inr (txt_name h)"
    proof (cases "challenge_name h")
      case (Inl a)
      then have "\<exists>e. cf_retire_challenge scope sv h z = (Inl e, z)"
        by (cases scope) (simp_all add: cf_retire_challenge_def require_def)
      with assms(2) False show ?thesis by auto
    qed (use challenge_name_Inr in blast)
    have scope: "scope = CfChallenge"
      using assms(2) False by (cases scope) (auto simp: cf_retire_challenge_def require_def)
    have eq: "(x, z') = (case y of Inl e \<Rightarrow> (Inl e, z1) | Inr found \<Rightarrow>
        let records = filter (\<lambda>r. rc_kind r = ''TXT'') found in
        if list_ex (\<lambda>r. \<not> challenge_managed r) records then (Inl DnsConflict, z1)
        else each (cf_delete sv) records z1)"
      unfolding assms(2) [symmetric] cf_retire_challenge_def
      by (cases y) (simp_all add: require_def name list scope)
    with False obtain found where y: "y = Inr found" by (cases y) auto
    from zone(2) [OF y] have "found = filter (\<lambda>r. rc_name r = txt_name h) (zone z)" .
    with eq y False have run: "each (cf_delete sv) ?records z1 = (x, z')" "\<not> list_ex (\<lambda>r. \<not> challenge_managed r) ?records"
      by (auto simp: Let_def split: if_splits)
    from run(2) show thesis by (intro delete [OF zone(1) _ run(1)]) (auto simp: list_ex_iff txt_owned_def)
  qed
qed

lemma retire_challenge_foreign:
  assumes "documented sv zone" and "cf_retire_challenge scope sv h z = (x, z')"
  shows "filter (\<lambda>r. \<not> txt_owned h r) (zone z') = filter (\<lambda>r. \<not> txt_owned h r) (zone z)"
  using assms
proof (cases rule: retire_challenge_phases)
  case (delete z1)
  have "filter (\<lambda>r. \<not> txt_owned h r) (zone z') = filter (\<lambda>r. \<not> txt_owned h r) (zone z1)"
    by (rule delete_listed [OF assms(1) delete(3)]) (use delete(1,2) in auto)
  with delete(1) show ?thesis by simp
qed simp

lemma retire_challenge_exact:
  assumes "documented sv zone" and "cf_retire_challenge scope sv h z = (Inr (), z')"
  shows "cf_challenge zone z' h = {}"
  using assms
proof (cases rule: retire_challenge_phases)
  case (delete z1)
  let ?records = "filter (\<lambda>r. rc_kind r = ''TXT'') (filter (\<lambda>r. rc_name r = txt_name h) (zone z))"
  have "changes (\<lambda>r. deleted (rc_id r)) ?records (zone z1) (zone z')"
    using each_changes [OF delete(3), where zone = zone and p = "\<lambda>r. deleted (rc_id r)"]
      documented_delete [OF assms(1)] by simp
  then have "zone z' = filter (\<lambda>x. rc_id x \<notin> rc_id ` set ?records) (zone z)"
    by (simp only: changes_deleted delete(1))
  then show ?thesis by (auto simp: cf_challenge_def)
qed simp

section \<open>The provider interface\<close>

text \<open>What is outside the owned records is seen as before.\<close>

lemma foreign_same:
  assumes "filter (\<lambda>r. \<not> p r) Z' = filter (\<lambda>r. \<not> p r) Z" and "\<And>r. q r \<Longrightarrow> \<not> p r"
  shows "{r \<in> set Z'. q r} = {r \<in> set Z. q r}"
proof -
  have "{r \<in> set Y. q r} = {r \<in> set (filter (\<lambda>r. \<not> p r) Y). q r}" for Y using assms(2) by auto
  with assms(1) show ?thesis by metis
qed

lemma serving_frame:
  assumes "filter (\<lambda>r. \<not> owned h r) (zone z') = filter (\<lambda>r. \<not> owned h r) (zone z)"
  shows "cf_challenge zone z' k = cf_challenge zone z k \<and> (k \<noteq> h \<longrightarrow> cf_serving zone z' k = cf_serving zone z k)"
proof
  show "cf_challenge zone z' k = cf_challenge zone z k"
    unfolding cf_challenge_def by (subst foreign_same [OF assms]) (auto simp: owned_def serving_kind_def)
  show "k \<noteq> h \<longrightarrow> cf_serving zone z' k = cf_serving zone z k"
    unfolding cf_serving_def by (intro impI) (subst foreign_same [OF assms], auto simp: owned_def)
qed

lemma txt_frame:
  assumes "filter (\<lambda>r. \<not> txt_owned h r) (zone z') = filter (\<lambda>r. \<not> txt_owned h r) (zone z)"
  shows "cf_serving zone z' k = cf_serving zone z k \<and> (k \<noteq> h \<longrightarrow> cf_challenge zone z' k = cf_challenge zone z k)"
proof
  show "cf_serving zone z' k = cf_serving zone z k"
    unfolding cf_serving_def by (subst foreign_same [OF assms]) (auto simp: txt_owned_def serving_kind_def)
  show "k \<noteq> h \<longrightarrow> cf_challenge zone z' k = cf_challenge zone z k"
    unfolding cf_challenge_def by (intro impI) (subst foreign_same [OF assms], auto simp: txt_owned_def txt_name_def)
qed

text \<open>
  C9. Against a service that does what its API documents, the Cloudflare provider of either scope
  satisfies the interface the worker relies on: a successful publication makes the addresses and
  the CAA records of the name exactly the wanted ones, whatever was there before; a successful
  challenge change makes the TXT values exactly the given ones; a retirement removes them; and no
  operation, failed or not, touches the records of another name or of the other kind.
\<close>

theorem cloudflare_refines:
  assumes "documented sv zone"
  shows "dns_provider (cloudflare_provider scope sv) (cf_serving zone) (cf_challenge zone)"
proof
  show "cf_serving zone s' (nr_hostname r) = wanted r"
    if "pv_publish_name (cloudflare_provider scope sv) r s = (Inr (), s')" for r s s'
    using publish_exact [OF assms] that by (simp add: cloudflare_provider_def)
  show "cf_challenge zone s' h = cf_challenge zone s h \<and> (h \<noteq> nr_hostname r \<longrightarrow> cf_serving zone s' h = cf_serving zone s h)"
    if "pv_publish_name (cloudflare_provider scope sv) r s = (x, s')" for r s x s' h
    by (rule serving_frame [where zone = zone, OF publish_foreign [OF assms]]) (use that in \<open>simp add: cloudflare_provider_def\<close>)
  show "cf_challenge zone s' h = set vs"
    if "pv_set_challenge (cloudflare_provider scope sv) h vs s = (Inr (), s')" for h vs s s'
    using set_challenge_exact [OF assms] that by (simp add: cloudflare_provider_def)
  show "cf_serving zone s' k = cf_serving zone s k \<and> (k \<noteq> h \<longrightarrow> cf_challenge zone s' k = cf_challenge zone s k)"
    if "pv_set_challenge (cloudflare_provider scope sv) h vs s = (x, s')" for h vs s x s' k
    by (rule txt_frame [where zone = zone, OF set_challenge_foreign [OF assms]]) (use that in \<open>simp add: cloudflare_provider_def\<close>)
  show "cf_serving zone s' h = {}" if "pv_retire_name (cloudflare_provider scope sv) h s = (Inr (), s')" for h s s'
    using retire_name_exact [OF assms] that by (simp add: cloudflare_provider_def)
  show "cf_challenge zone s' k = cf_challenge zone s k \<and> (k \<noteq> h \<longrightarrow> cf_serving zone s' k = cf_serving zone s k)"
    if "pv_retire_name (cloudflare_provider scope sv) h s = (x, s')" for h s x s' k
    by (rule serving_frame [where zone = zone, OF retire_name_foreign [OF assms]]) (use that in \<open>simp add: cloudflare_provider_def\<close>)
  show "cf_challenge zone s' h = {}" if "pv_retire_challenge (cloudflare_provider scope sv) h s = (Inr (), s')" for h s s'
    using retire_challenge_exact [OF assms] that by (simp add: cloudflare_provider_def)
  show "cf_serving zone s' k = cf_serving zone s k \<and> (k \<noteq> h \<longrightarrow> cf_challenge zone s' k = cf_challenge zone s k)"
    if "pv_retire_challenge (cloudflare_provider scope sv) h s = (x, s')" for h s x s' k
    by (rule txt_frame [where zone = zone, OF retire_challenge_foreign [OF assms]]) (use that in \<open>simp add: cloudflare_provider_def\<close>)
qed

end
