(* ===== verification/Dns_Cloudflare_Caa.thy ===== *)
theory Dns_Cloudflare_Caa
  imports Dns_Cloudflare_Refines
begin

text \<open>
  What a change of the Cloudflare provider guarantees when it stops half way: the records of others
  are untouched, and the authorization of the ACME account never stands without the denial of
  wildcard certificates.
\<close>

section \<open>Authorization and denial\<close>

definition caa_record :: "string \<Rightarrow> cf_record \<Rightarrow> string \<Rightarrow> bool" where
  "caa_record h r tag \<longleftrightarrow> rc_name r = h \<and> rc_kind r = ''CAA'' \<and> map_option cd_tag (rc_data r) = Some tag"

definition denial :: "string \<Rightarrow> cf_record \<Rightarrow> bool" where
  "denial h r \<longleftrightarrow> caa_record h r ''issuewild'' \<and> map_option cd_value (rc_data r) = Some '';''"

lemma denial_written: "written (snd (denial_entry h)) r \<Longrightarrow> denial h r"
  by (auto simp: written_def denial_entry_def denial_def caa_record_def)

lemma denial_key: "record_key r = Inr (fst (denial_entry h)) \<Longrightarrow> rc_name r = h \<Longrightarrow> denial h r"
  by (auto simp: record_key_def denial_entry_def denial_def caa_record_def split: if_splits option.splits)

lemma create_rank_entries:
  "create_rank (snd (denial_entry h)) = 0" "create_rank (snd (issue_entry h uri)) = 1"
  "create_rank (snd (address_entry h ip)) = 2"
  by (simp_all add: create_rank_def denial_entry_def issue_entry_def address_entry_def split: ip_addr.split)

section \<open>Loops that stop\<close>

lemma each_prefix:
  assumes "each f xs z = (x, z')"
    and "\<And>y z r z'. f y z = (r, z') \<Longrightarrow> isl r \<and> zone z' = zone z \<or> p y (zone z) (zone z')"
  shows "\<exists>n. changes p (take n xs) (zone z) (zone z')"
  using assms(1)
proof (induction xs arbitrary: z)
  case (Cons y ys)
  obtain r z1 where r: "f y z = (r, z1)" by fastforce
  note step = assms(2) [OF r]
  show ?case
  proof (cases r)
    case (Inl e)
    with r Cons.prems have "z' = z1" by simp
    with step show ?thesis
      by (elim disjE) (auto intro: exI [of _ 0] exI [of _ 1])
  next
    case (Inr u)
    with r Cons.prems have "each f ys z1 = (x, z')" by simp
    from Cons.IH [OF this] obtain n where "changes p (take n ys) (zone z1) (zone z')" by blast
    with step Inr show ?thesis by (intro exI [of _ "Suc n"]) auto
  qed
qed (auto intro: exI [of _ 0])

section \<open>Publishing\<close>

text \<open>A denial with the identifier \<open>i\<close> that the rest of the plan does not take away.\<close>

definition standing :: "string \<Rightarrow> serving_plan \<Rightarrow> string \<Rightarrow> cf_record list \<Rightarrow> bool" where
  "standing h plan i Z \<longleftrightarrow> (\<exists>r \<in> set Z. rc_id r = i \<and> denial h r) \<and> i \<notin> rc_id ` set (pl_stale plan)
     \<and> (\<forall>(r, b) \<in> set (pl_updates plan). rc_id r = i \<longrightarrow> b = snd (denial_entry h))"

lemma standing_denial: "standing h plan i Z \<Longrightarrow> \<exists>r \<in> set Z. denial h r"
  by (auto simp: standing_def)

lemma standing_created: "standing h plan i Z \<Longrightarrow> created b Z Z' \<Longrightarrow> standing h plan i Z'"
  by (auto simp: standing_def created_def)

lemma standing_deleted:
  "standing h plan i Z \<Longrightarrow> r \<in> set (pl_stale plan) \<Longrightarrow> deleted (rc_id r) Z Z' \<Longrightarrow> standing h plan i Z'"
  by (auto simp: standing_def deleted_def)

lemma standing_patched:
  assumes "standing h plan i Z" and "(r, b) \<in> set (pl_updates plan)" and "patched (rc_id r) b Z Z'"
  shows "standing h plan i Z'"
proof -
  from assms(3) obtain w where w: "written b w" "rc_id w = rc_id r"
    "Z' = map (\<lambda>x. if rc_id x = rc_id r then w else x) Z" by (auto simp: patched_def)
  from assms(1) obtain d where d: "d \<in> set Z" "rc_id d = i" "denial h d" by (auto simp: standing_def)
  have "rc_id r = i \<Longrightarrow> denial h w" using assms(1,2) w(1) denial_written by (auto simp: standing_def)
  with w d have "\<exists>x \<in> set Z'. rc_id x = i \<and> denial h x"
    by (intro bexI [of _ "if rc_id d = rc_id r then w else d"]) auto
  with assms(1) show ?thesis by (simp add: standing_def)
qed

lemma standing_loops:
  assumes "documented sv zone" and "standing h plan i (zone z)"
  shows "each (cf_create sv) bs z = (x, z') \<Longrightarrow> standing h plan i (zone z')"
    and "each (cf_update sv) (pl_updates plan) z = (x, z') \<Longrightarrow> standing h plan i (zone z')"
    and "each (cf_delete sv) (pl_stale plan) z = (x, z') \<Longrightarrow> standing h plan i (zone z')"
proof -
  let ?I = "\<lambda>z. standing h plan i (zone z)"
  show "?I z'" if "each (cf_create sv) bs z = (x, z')"
    using that assms(2)
  proof (rule each_invariant [where I = ?I])
    fix b za q zb assume I: "?I za" and run: "cf_create sv b za = (q, zb)"
    from documented_create [OF assms(1) run] I standing_created [OF I] show "?I zb" by auto
  qed
  show "?I z'" if "each (cf_delete sv) (pl_stale plan) z = (x, z')"
    using that assms(2)
  proof (rule each_invariant [where I = ?I])
    fix r za q zb assume r: "r \<in> set (pl_stale plan)" and I: "?I za" and run: "cf_delete sv r za = (q, zb)"
    from documented_delete [OF assms(1) run] I standing_deleted [OF I r] show "?I zb" by auto
  qed
  show "?I z'" if "each (cf_update sv) (pl_updates plan) z = (x, z')"
    using that assms(2)
  proof (rule each_invariant [where I = ?I])
    fix u za q zb assume u: "u \<in> set (pl_updates plan)" and I: "?I za" and run: "cf_update sv u za = (q, zb)"
    obtain r b where rb: "u = (r, b)" by (cases u)
    from documented_update [OF assms(1) run [unfolded rb]] I standing_patched [OF I u [unfolded rb]] show "?I zb" by auto
  qed
qed

text \<open>A kept denial stands; otherwise the denial is the first record to be created.\<close>

lemma standing_kept:
  assumes "planned (filter (\<lambda>r. rc_name r = h) Z) desired plan kept" and "distinct (map rc_id Z)"
    and "distinct (map fst desired)" and "denial_entry h \<in> set desired" and "fst (denial_entry h) \<in> key_of ` set kept"
  shows "\<exists>i. standing h plan i Z"
proof -
  note recs = planned_records [OF assms(1)]
  from assms(5) obtain r where r: "r \<in> set kept" "key_of r = fst (denial_entry h)" by auto
  have ids: "x = r" if "x \<in> set Z" "rc_id x = rc_id r" for x
    using assms(2) that recs(1) [of r] r(1) by (auto simp: distinct_map inj_on_def)
  have "rc_id r \<notin> rc_id ` set (pl_stale plan)"
  proof
    assume "rc_id r \<in> rc_id ` set (pl_stale plan)"
    then obtain s where s: "s \<in> set (pl_stale plan)" "rc_id s = rc_id r" by auto
    with ids [of s] recs(1) [of s] have "s = r" by simp
    with s(1) r(1) planned_disjoint(1) [OF assms(1,2)] show False by blast
  qed
  moreover have "b = snd (denial_entry h)" if "(s, b) \<in> set (pl_updates plan)" "rc_id s = rc_id r" for s b
  proof -
    from planned_update [OF assms(1) that(1)] obtain e where e: "e \<in> set desired" "fst e = key_of s" "b = snd e" "s \<in> set kept" .
    have "s = r" using ids recs(1) [of s] e(4) that(2) by simp
    with e(1,2) r(2) assms(3,4) have "e = denial_entry h" by (auto simp: distinct_map inj_on_def)
    with e(3) show ?thesis by simp
  qed
  moreover have "denial h r" using recs(2,3) [of r] r by (intro denial_key) (auto simp: owned_def)
  ultimately show ?thesis using recs(1) [of r] r(1) by (intro exI [of _ "rc_id r"]) (auto simp: standing_def)
qed

lemma missing_denial:
  assumes "planned existing desired plan kept" and "fst (denial_entry h) \<notin> key_of ` set kept"
    and desired: "desired = as @ [issue_entry h uri, denial_entry h]" "set as \<subseteq> range (address_entry h)"
  obtains bs where "pl_missing plan = snd (denial_entry h) # bs"
proof -
  note missing = planned_missing [OF assms(1)]
  have body: "snd (denial_entry h) \<in> set (pl_missing plan)" using missing assms(2) desired by auto
  then obtain b bs where bs: "pl_missing plan = b # bs" by (cases "pl_missing plan") auto
  from assms(1) have "sorted (map create_rank (b # bs))" by (simp only: planned_def bs [symmetric])
  with body have "create_rank b \<le> create_rank (snd (denial_entry h))" by (auto simp: bs)
  then have rank: "create_rank b = 0" by (simp add: create_rank_entries)
  from missing [of b] obtain e where e: "e \<in> set desired" "b = snd e" by (auto simp: bs)
  have "e = denial_entry h"
    using e(1) desired rank unfolding e(2) by (auto simp: create_rank_entries)
  with e(2) bs that show thesis by simp
qed

lemma create_denial_first:
  assumes "documented sv zone" and "each (cf_create sv) (snd (denial_entry h) # bs) z = (x, z')"
    and "rc_id ` set (pl_stale plan) \<subseteq> rc_id ` set (zone z)"
    and "rc_id ` fst ` set (pl_updates plan) \<subseteq> rc_id ` set (zone z)"
  shows "isl x \<and> zone z' = zone z \<or> (\<exists>i. standing h plan i (zone z'))"
proof -
  obtain y z1 where y: "cf_create sv (snd (denial_entry h)) z = (y, z1)" by fastforce
  from documented_create [OF assms(1) y] show ?thesis
  proof
    assume "isl y \<and> zone z1 = zone z"
    with y assms(2) show ?thesis by (cases y) auto
  next
    assume "created (snd (denial_entry h)) (zone z) (zone z1)"
    then obtain r where r: "written (snd (denial_entry h)) r" "rc_id r \<notin> rc_id ` set (zone z)" "zone z1 = zone z @ [r]"
      by (auto simp: created_def)
    have "rc_id r \<notin> rc_id ` set (pl_stale plan)" "rc_id r \<notin> rc_id ` fst ` set (pl_updates plan)"
      using r(2) assms(3,4) by blast+
    note fresh = this
    have stand: "standing h plan (rc_id r) (zone z1)"
      unfolding standing_def
    proof (intro conjI ballI)
      show "\<exists>x \<in> set (zone z1). rc_id x = rc_id r \<and> denial h x" using r(3) denial_written [OF r(1)] by simp
      fix u assume "u \<in> set (pl_updates plan)"
      then have "rc_id (fst u) \<in> rc_id ` fst ` set (pl_updates plan)" by (intro imageI)
      with fresh(2) have "rc_id (fst u) \<noteq> rc_id r" by metis
      then show "case u of (s, b) \<Rightarrow> rc_id s = rc_id r \<longrightarrow> b = snd (denial_entry h)" by (cases u) simp
    qed (rule fresh(1))
    show ?thesis
    proof (cases y)
      case (Inl e)
      with y assms(2) stand show ?thesis by auto
    next
      case (Inr u)
      with y assms(2) have "each (cf_create sv) bs z1 = (x, z')" by simp
      from standing_loops(1) [OF assms(1) stand this] show ?thesis by blast
    qed
  qed
qed

lemma create_standing:
  assumes "documented sv zone" and planned: "planned (filter (\<lambda>r. rc_name r = h) (zone z)) desired plan kept"
    and z1: "zone z1 = zone z" and create: "each (cf_create sv) (pl_missing plan) z1 = (y, z2)"
    and keys: "distinct (map fst desired)"
    and as: "desired = as @ [issue_entry h uri, denial_entry h]" "set as \<subseteq> range (address_entry h)"
  shows "isl y \<and> zone z2 = zone z \<or> (\<exists>i. standing h plan i (zone z2))"
proof (cases "fst (denial_entry h) \<in> key_of ` set kept")
  case True
  have "denial_entry h \<in> set desired" by (simp add: as(1))
  from standing_kept [OF planned documented_ids [OF assms(1)] keys this True] obtain i
    where "standing h plan i (zone z1)" unfolding z1 by blast
  from standing_loops(1) [OF assms(1) this create] show ?thesis by blast
next
  case False
  from missing_denial [OF planned False as] obtain bs where bs: "pl_missing plan = snd (denial_entry h) # bs" .
  have "set (pl_stale plan) \<subseteq> set (zone z1)" unfolding z1 using planned_records(1) [OF planned] by blast
  then have stale: "rc_id ` set (pl_stale plan) \<subseteq> rc_id ` set (zone z1)" by (rule image_mono)
  have "fst ` set (pl_updates plan) \<subseteq> set (zone z1)"
    unfolding z1 using planned_records(1) [OF planned] by (auto elim!: planned_update [OF planned])
  then have "rc_id ` fst ` set (pl_updates plan) \<subseteq> rc_id ` set (zone z1)" by (rule image_mono)
  from create_denial_first [OF assms(1) create [unfolded bs] stale this] z1 show ?thesis by simp
qed

lemma publish_denial:
  assumes "documented sv zone" and "cf_publish_name scope sv n z = (x, z')"
  shows "zone z' = zone z \<or> (\<exists>r \<in> set (zone z'). denial (nr_hostname n) r)"
proof (cases "scope = CfServing \<and> (\<exists>desired. serving_desired n = Inr desired)")
  case True
  let ?h = "nr_hostname n"
  from True obtain desired where desired: "serving_desired n = Inr desired" by blast
  from serving_desired_Inr [OF desired] obtain as where
    as: "desired = as @ [issue_entry ?h (nr_acme_account_uri n), denial_entry ?h]" "set as = address_entry ?h ` set (nr_addresses n)"
    and keys: "distinct (map fst desired)" .
  have sub: "set as \<subseteq> range (address_entry ?h)" unfolding as(2) by (rule image_mono) simp
  have run: "reconcile_serving sv ?h desired z = (x, z')"
    using assms(2) True desired by (simp add: cf_publish_name_def require_def)
  note created = create_standing [OF assms(1) _ _ _ keys as(1) sub]
  from assms(1) run keys show ?thesis
  proof (cases rule: reconcile_phases)
    case early
    then show ?thesis by simp
  next
    case (create plan kept z1)
    from created [OF create(1-3)] show ?thesis by (auto dest: standing_denial)
  next
    case (update plan kept z1 z2)
    from created [OF update(1-3)] obtain i where "standing ?h plan i (zone z2)" by auto
    from standing_loops(2) [OF assms(1) this update(4)] show ?thesis by (auto dest: standing_denial)
  next
    case (delete plan kept z1 z2 z3)
    from created [OF delete(1-3)] obtain i where "standing ?h plan i (zone z2)" by auto
    from standing_loops(2) [OF assms(1) this delete(4)] have "standing ?h plan i (zone z3)" .
    from standing_loops(3) [OF assms(1) this delete(5)] show ?thesis by (auto dest: standing_denial)
  qed
next
  case False
  with assms(2) have "zone z' = zone z" by (auto simp: cf_publish_name_def require_def split: sum.splits if_splits)
  then show ?thesis ..
qed

section \<open>Retiring\<close>

lemma retire_denial:
  assumes "documented sv zone" and "cf_retire_name scope sv h z = (x, z')"
    and issue: "r \<in> set (zone z')" "caa_record h r ''issue''" and d: "d \<in> set (zone z)" "denial h d"
  shows "d \<in> set (zone z')"
  using assms(1,2)
proof (cases rule: retire_name_Cons)
  case (delete z1)
  let ?records = "sort_key delete_rank (filter serving_kind (filter (\<lambda>r. rc_name r = h) (zone z)))"
  have "\<exists>n. changes (\<lambda>r. deleted (rc_id r)) (take n ?records) (zone z1) (zone z')"
    by (rule each_prefix [OF delete(3), where zone = zone]) (rule documented_delete [OF assms(1)])
  then obtain n where n: "changes (\<lambda>r. deleted (rc_id r)) (take n ?records) (zone z1) (zone z')" ..
  then have z': "zone z' = filter (\<lambda>x. rc_id x \<notin> rc_id ` set (take n ?records)) (zone z)"
    by (simp only: changes_deleted delete(2))
  obtain A B where AB: "?records = A @ B" "take n ?records = A" by (metis append_take_drop_id)
  note z' = z' [unfolded AB(2)]
  from issue(1) have "r \<in> set (zone z)" "r \<notin> set A" by (auto simp: z')
  moreover from this(1) issue(2) have "r \<in> set ?records" by (simp add: caa_record_def serving_kind_def)
  ultimately have r: "r \<in> set B" unfolding AB(1) by simp
  have "sorted (map delete_rank ?records)" by (rule sorted_sort_key)
  then have le: "delete_rank s \<le> delete_rank r" if "s \<in> set A" for s
    using that r unfolding AB(1) by (auto simp: sorted_append)
  have "delete_rank r = 0" "delete_rank d = 2"
    using issue(2) d(2) by (auto simp: delete_rank_def caa_record_def denial_def)
  with le [of d] have notin: "d \<notin> set A" by auto
  have "rc_id d \<notin> rc_id ` set A"
  proof
    assume "rc_id d \<in> rc_id ` set A"
    then obtain s where s: "s \<in> set A" "rc_id s = rc_id d" by auto
    then have "s \<in> set ?records" unfolding AB(1) by simp
    then have "s \<in> set (zone z)" by simp
    with s(2) d(1) documented_ids [OF assms(1), of z] have "s = d" by (auto simp: distinct_map inj_on_def)
    with s(1) notin show False by simp
  qed
  with d(1) show ?thesis by (simp add: z')
qed (use d in simp)

section \<open>Changes that stop half way\<close>

text \<open>
  C18. Whatever its outcome, a change of a name leaves every record alone that is not an address or CAA
  record of that name marked as the relay's; and a change of a challenge every record that is
  not a TXT record of the challenge's name marked as the relay's. They stay the same, in number and in content.
\<close>

theorem cloudflare_spares_foreign:
  assumes "documented sv zone"
  shows "filter (\<lambda>r. \<not> owned (nr_hostname n) r) (zone (snd (cf_publish_name scope sv n z)))
      = filter (\<lambda>r. \<not> owned (nr_hostname n) r) (zone z)
    \<and> filter (\<lambda>r. \<not> owned h r) (zone (snd (cf_retire_name scope sv h z))) = filter (\<lambda>r. \<not> owned h r) (zone z)
    \<and> filter (\<lambda>r. \<not> txt_owned h r) (zone (snd (cf_set_challenge scope sv h vs z)))
      = filter (\<lambda>r. \<not> txt_owned h r) (zone z)
    \<and> filter (\<lambda>r. \<not> txt_owned h r) (zone (snd (cf_retire_challenge scope sv h z)))
      = filter (\<lambda>r. \<not> txt_owned h r) (zone z)"
  by (intro conjI publish_foreign [OF assms surjective_pairing] retire_name_foreign [OF assms surjective_pairing]
      set_challenge_foreign [OF assms surjective_pairing] retire_challenge_foreign [OF assms surjective_pairing])

text \<open>
  C4. Whatever its outcome, a publication that changed anything leaves the denial of wildcard
  certificates in place, so the account is never authorized ahead of it; and a retirement that left an authorization
  behind took no denial away.
\<close>

theorem cloudflare_denial_first:
  assumes "documented sv zone"
  shows "(zone (snd (cf_publish_name scope sv n z)) = zone z
      \<or> (\<exists>r \<in> set (zone (snd (cf_publish_name scope sv n z))). denial (nr_hostname n) r))
    \<and> (\<forall>r d. r \<in> set (zone (snd (cf_retire_name scope sv h z))) \<longrightarrow> caa_record h r ''issue'' \<longrightarrow>
         d \<in> set (zone z) \<longrightarrow> denial h d \<longrightarrow> d \<in> set (zone (snd (cf_retire_name scope sv h z))))"
  using publish_denial [OF assms surjective_pairing, of scope n z]
    retire_denial [OF assms surjective_pairing, of _ scope h z] by blast

end
