(* ===== verification/Dns_Witnesses.thy ===== *)
theory Dns_Witnesses
  imports Dns_Cloudflare_Caa Dns_Route53 "HOL-Library.Code_Target_Nat"
begin

text \<open>
  Concrete services that behave as documented, at which the properties of the providers are applied.
\<close>

section \<open>A small Cloudflare zone\<close>

text \<open>Responses: a record is eleven fields, a field is its characters, each behind a one, and a zero.\<close>

definition field_bytes :: "string \<Rightarrow> bytes" where
  "field_bytes s = concat (map (\<lambda>c. [1, of_nat (byte_of c)]) s) @ [0]"

fun fields_of :: "string \<Rightarrow> bytes \<Rightarrow> string list" where
  "fields_of acc [] = []"
| "fields_of acc [x] = (if x = 0 then [rev acc] else [])"
| "fields_of acc (x # y # ys) =
     (if x = 0 then rev acc # fields_of [] (y # ys) else fields_of (char_of (unat y) # acc) ys)"

definition record_fields :: "cf_record \<Rightarrow> string list" where
  "record_fields r =
     [rc_id r, rc_name r, rc_kind r, rc_content r, replicate (unat (rc_ttl r)) CHR ''x'',
      if rc_proxied r then ''x'' else [], rc_comment r]
     @ (case rc_data r of
          None \<Rightarrow> [[], [], [], []]
        | Some d \<Rightarrow> [''x'', replicate (unat (cd_flags d)) CHR ''x'', cd_tag d, cd_value d])"

fun records_of :: "string list \<Rightarrow> cf_record list" where
  "records_of (i # n # k # c # t # p # m # x # f # g # v # fs) =
     \<lparr>rc_id = i, rc_name = n, rc_kind = k, rc_content = c, rc_ttl = of_nat (length t), rc_proxied = (p \<noteq> []),
      rc_comment = m, rc_data = (if x = [] then None
        else Some \<lparr>cd_flags = of_nat (length f), cd_tag = g, cd_value = v\<rparr>)\<rparr> # records_of fs"
| "records_of _ = []"

lemma fields_of_field:
  "fields_of acc (concat (map (\<lambda>c. [1, of_nat (byte_of c)]) s) @ 0 # bs) = (rev acc @ s) # fields_of [] bs"
proof (induction s arbitrary: acc)
  case Nil
  then show ?case by (cases bs) simp_all
next
  case (Cons c s)
  have "char_of (unat (of_nat (byte_of c) :: u8)) = c" by (simp add: byte_of_def unat_of_nat)
  with Cons show ?case by simp
qed

lemma fields_of_fields: "fields_of [] (concat (map field_bytes fs)) = fs"
  by (induction fs) (simp_all add: field_bytes_def fields_of_field [of "[]", simplified])

lemma records_of_records: "records_of (concat (map record_fields rs)) = rs"
proof (induction rs)
  case (Cons r rs)
  then show ?case by (cases "rc_data r") (simp_all add: record_fields_def)
qed simp

text \<open>The zone: sixteen places with fixed identifiers.\<close>

definition ident :: "nat \<Rightarrow> string" where
  "ident k = replicate 31 CHR ''0'' @ [''0123456789abcdef'' ! (k mod 16)]"

definition record_of :: "string \<Rightarrow> cf_body \<Rightarrow> cf_record" where
  "record_of i b =
     \<lparr>rc_id = i, rc_name = bo_name b, rc_kind = bo_type b, rc_content = (case bo_content b of None \<Rightarrow> [] | Some c \<Rightarrow> c),
      rc_ttl = bo_ttl b, rc_proxied = (bo_proxied b = Some True), rc_comment = bo_comment b, rc_data = bo_data b\<rparr>"

fun rows_from :: "nat \<Rightarrow> cf_body option list \<Rightarrow> cf_record list" where
  "rows_from k [] = []"
| "rows_from k (None # xs) = rows_from (Suc k) xs"
| "rows_from k (Some b # xs) = record_of (ident k) b # rows_from (Suc k) xs"

fun edit_from :: "nat \<Rightarrow> string \<Rightarrow> cf_body option \<Rightarrow> cf_body option list \<Rightarrow> cf_body option list" where
  "edit_from k i new [] = []"
| "edit_from k i new (x # xs) = (if ident k = i \<and> x \<noteq> None then new else x) # edit_from (Suc k) i new xs"

type_synonym small_zone = "cf_body option list"

definition small_records :: "small_zone \<Rightarrow> cf_record list" where
  "small_records z = rows_from 0 (take 16 z)"

fun small_http :: "cf_method \<Rightarrow> cf_url \<Rightarrow> cf_body option \<Rightarrow> small_zone \<Rightarrow> cf_response \<times> small_zone" where
  "small_http GET (ListUrl name) _ z =
     (Response 200 [Some (concat (map field_bytes (concat (map record_fields
        (filter (\<lambda>r. rc_name r = name) (small_records z))))))], z)"
| "small_http POST Collection (Some b) z =
     (if length z < 16 then (Response 200 [Some []], z @ [Some b]) else (Response 500 [], z))"
| "small_http DELETE (Item i) _ z = (Response 200 [Some []], edit_from 0 i None z)"
| "small_http PATCH (Item i) (Some b) z = (Response 200 [Some []], edit_from 0 i (Some b) z)"
| "small_http _ _ _ z = (Response 400 [], z)"

definition small_service :: "small_zone cf_service" where
  "small_service =
     \<lparr>sv_http = small_http,
      sv_records = (\<lambda>body. Some \<lparr>ev_success = True, ev_result = Some (records_of (fields_of [] body)), ev_total_pages = Some 1\<rparr>),
      sv_value = (\<lambda>body. Some \<lparr>ev_success = True, ev_result = Some (), ev_total_pages = None\<rparr>)\<rparr>"

lemma ident_eq: "i < 16 \<Longrightarrow> j < 16 \<Longrightarrow> ident i = ident j \<longleftrightarrow> i = j"
proof -
  assume "i < 16" "j < 16"
  moreover have "distinct ''0123456789abcdef''" "length ''0123456789abcdef'' = 16" by simp_all
  ultimately show ?thesis
    using nth_eq_iff_index_eq [of "''0123456789abcdef''" i j] by (simp add: ident_def del: nth_Cons_numeral)
qed

lemma rows_ids: "rc_id ` set (rows_from k xs) \<subseteq> ident ` {k..<k + length xs}"
proof (induction k xs rule: rows_from.induct)
  case (2 k xs)
  then show ?case by (auto dest!: subsetD)
next
  case (3 k b xs)
  then show ?case by (auto simp: record_of_def dest!: subsetD)
qed simp

lemma rows_distinct: "k + length xs \<le> 16 \<Longrightarrow> distinct (map rc_id (rows_from k xs))"
proof (induction k xs rule: rows_from.induct)
  case (3 k b xs)
  have "ident k \<notin> ident ` {Suc k..<Suc k + length xs}" using 3(2) by (auto simp: ident_eq)
  with rows_ids [of "Suc k" xs] have "ident k \<notin> rc_id ` set (rows_from (Suc k) xs)" by blast
  with 3 show ?case by (simp add: record_of_def)
qed simp_all

lemma rows_append: "rows_from k (xs @ ys) = rows_from k xs @ rows_from (k + length xs) ys"
  by (induction k xs rule: rows_from.induct) simp_all

lemma take_edit: "take n (edit_from k i new xs) = edit_from k i new (take n xs)"
  by (induction xs arbitrary: k n) (auto simp: take_Cons split: nat.split)

lemma rows_removed: "rows_from k (edit_from k i None xs) = filter (\<lambda>r. rc_id r \<noteq> i) (rows_from k xs)"
  by (induction k xs rule: rows_from.induct) (simp_all add: record_of_def)

lemma rows_edited:
  "rows_from k (edit_from k i (Some b) xs) = map (\<lambda>r. if rc_id r = i then record_of i b else r) (rows_from k xs)"
  by (induction k xs rule: rows_from.induct) (simp_all add: record_of_def)

lemma record_of_written: "written b (record_of i b)"
  by (simp add: written_def record_of_def split: option.split)

lemma read_body_one: "read_body [Some body] [] = (if length body > 262144 then Inl DnsUnavailable else Inr body)"
  by simp

lemma small_service_documented: "documented small_service small_records"
proof -
  have list: "small_records z' = small_records z \<and> (\<forall>e n rs. x = Inr e \<longrightarrow> ev_total_pages e = Some n \<longrightarrow> n \<le> 1
            \<longrightarrow> ev_result e = Some rs \<longrightarrow> rs = filter (\<lambda>r. rc_name r = name) (small_records z))"
    if "cf_send small_service (sv_records small_service) GET (ListUrl name) None z = (x, z')" for name z x z'
    using that by (auto simp: cf_send_def small_service_def accept_response_def fields_of_fields records_of_records
        split: if_splits)
  have create: "isl x \<and> small_records z' = small_records z \<or> created b (small_records z) (small_records z')"
    if "cf_send small_service (sv_value small_service) POST Collection (Some b) z = (x, z')" for b z x z'
  proof (cases "length z < 16")
    case True
    have "ident (length z) \<notin> ident ` {0..<length z}" using True by (auto simp: ident_eq)
    with rows_ids [of 0 z] have "ident (length z) \<notin> rc_id ` set (rows_from 0 z)" by auto
    moreover have "z' = z @ [Some b]"
      using that True by (simp add: cf_send_def small_service_def)
    ultimately have "created b (small_records z) (small_records z')"
      using True record_of_written [of b]
      by (auto simp: created_def small_records_def rows_append record_of_def intro!: exI [of _ "record_of (ident (length z)) b"])
    then show ?thesis ..
  next
    case False
    with that show ?thesis by (auto simp: cf_send_def small_service_def accept_response_def)
  qed
  have delete: "isl x \<and> small_records z' = small_records z \<or> deleted i (small_records z) (small_records z')"
    if "cf_send small_service (sv_value small_service) DELETE (Item i) None z = (x, z')" for i z x z'
    using that by (auto simp: cf_send_def small_service_def deleted_def small_records_def take_edit rows_removed)
  have update: "isl x \<and> small_records z' = small_records z \<or> patched i b (small_records z) (small_records z')"
    if "cf_send small_service (sv_value small_service) PATCH (Item i) (Some b) z = (x, z')" for i b z x z'
    using that record_of_written [of b i]
    by (auto simp: cf_send_def small_service_def patched_def small_records_def take_edit rows_edited record_of_def
        intro!: exI [of _ "record_of i b"])
  show ?thesis
    unfolding documented_def
    using list create delete update rows_distinct [of 0] by (auto simp: small_records_def)
qed

section \<open>The Cloudflare provider at work\<close>

definition example_name :: name_records where
  "example_name = \<lparr>nr_hostname = replicate 26 CHR ''a'' @ ''.'' @ ZONE, nr_addresses = [V4 0x0A000001],
     nr_acme_account_uri = ACME_PRODUCTION_ACCOUNT_PREFIX @ ''7''\<rparr>"

lemma example_published:
  "fst (cf_publish_name CfServing small_service example_name []) = Inr ()"
  by code_simp

theorem cloudflare_refines_witness:
  "fst (cf_publish_name CfServing small_service example_name []) = Inr ()
   \<and> dns_provider (cloudflare_provider CfServing small_service) (cf_serving small_records) (cf_challenge small_records)"
  using cloudflare_refines [OF small_service_documented, of CfServing] example_published by blast

text \<open>A mail record of somebody else at the same name.\<close>

definition foreign_body :: cf_body where
  "foreign_body = \<lparr>bo_type = ''MX'', bo_name = nr_hostname example_name, bo_content = Some ''mail.example'',
     bo_ttl = 60, bo_proxied = None, bo_comment = [], bo_data = None\<rparr>"

lemma foreign_published:
  "fst (cf_publish_name CfServing small_service example_name [Some foreign_body]) = Inr ()
   \<and> length (small_records (snd (cf_publish_name CfServing small_service example_name [Some foreign_body]))) = 4"
  by code_simp

theorem cloudflare_spares_foreign_witness:
  "length (small_records (snd (cf_publish_name CfServing small_service example_name [Some foreign_body]))) = 4
   \<and> filter (\<lambda>r. \<not> owned (nr_hostname example_name) r)
         (small_records (snd (cf_publish_name CfServing small_service example_name [Some foreign_body])))
       = [record_of (ident 0) foreign_body]"
proof -
  have "filter (\<lambda>r. \<not> owned (nr_hostname example_name) r) (small_records [Some foreign_body])
      = [record_of (ident 0) foreign_body]"
    by (simp add: small_records_def owned_def serving_kind_def record_of_def foreign_body_def)
  with cloudflare_spares_foreign [OF small_service_documented, of example_name CfServing "[Some foreign_body]" "[]" "[]"]
    foreign_published show ?thesis by simp
qed

text \<open>A zone with room for one record: the denial is created, and the publication fails.\<close>

lemma almost_full_published:
  "fst (cf_publish_name CfServing small_service example_name (replicate 15 None)) = Inl DnsUnavailable
   \<and> length (small_records (snd (cf_publish_name CfServing small_service example_name (replicate 15 None)))) = 1"
  by code_simp

theorem cloudflare_denial_first_witness:
  "fst (cf_publish_name CfServing small_service example_name (replicate 15 None)) = Inl DnsUnavailable
   \<and> (\<exists>r \<in> set (small_records (snd (cf_publish_name CfServing small_service example_name (replicate 15 None)))).
        denial (nr_hostname example_name) r)"
proof -
  have "length (small_records (replicate 15 None)) = 0" by code_simp
  with almost_full_published
  have "small_records (snd (cf_publish_name CfServing small_service example_name (replicate 15 None)))
      \<noteq> small_records (replicate 15 None)" by auto
  with cloudflare_denial_first [OF small_service_documented, of CfServing example_name "replicate 15 None" "[]"]
    almost_full_published show ?thesis by blast
qed

section \<open>A small hosted zone\<close>

fun change_zone :: "rr_change \<Rightarrow> rr_set list \<Rightarrow> rr_set list" where
  "change_zone (ChDelete, s) z = filter (\<lambda>r. r \<noteq> s) z"
| "change_zone (ChUpsert, s) z = s # filter (\<lambda>r. \<not> same_key s r) z"

definition small_aws :: "rr_set list r53_service" where
  "small_aws =
     \<lparr>aws_list = (\<lambda>name n z. (Some (take n (remdups (filter (\<lambda>r. trim_dots (rs_name r) = name) z))), z)),
      aws_change = (\<lambda>cs z. (True, fold change_zone cs z))\<rparr>"

lemma change_zone_effect: "effect c (set z) (set (change_zone c z))"
proof -
  obtain a s where c: "c = (a, s)" by (cases c)
  show ?thesis
  proof (cases a)
    case ChUpsert
    have "same_key s s" by (simp add: same_key_def)
    with c ChUpsert show ?thesis by auto
  qed (use c in auto)
qed

lemma small_aws_batch: "batch cs (set z) (set (fold change_zone cs z))"
proof (induction cs arbitrary: z)
  case (Cons c cs)
  with change_zone_effect [of c z] show ?case by (auto intro!: exI [of _ "set (change_zone c z)"])
qed simp

lemma small_aws_documented: "r53_documented small_aws set"
proof -
  have "sets_at name (set (take n (remdups (filter (\<lambda>r. trim_dots (rs_name r) = name) z)))) \<subseteq> set z" for name n z
    by (auto simp: sets_at_def dest!: in_set_takeD)
  moreover have "sets_at name (set (take n (remdups (filter (\<lambda>r. trim_dots (rs_name r) = name) z)))) = sets_at name (set z)"
    if "card (sets_at name (set z)) \<le> n" for name n z
  proof -
    have "set (filter (\<lambda>r. trim_dots (rs_name r) = name) z) = sets_at name (set z)" by (auto simp: sets_at_def)
    then have "length (remdups (filter (\<lambda>r. trim_dots (rs_name r) = name) z)) = card (sets_at name (set z))"
      by (metis length_remdups_card_conv)
    with that have "take n (remdups (filter (\<lambda>r. trim_dots (rs_name r) = name) z))
        = remdups (filter (\<lambda>r. trim_dots (rs_name r) = name) z)" by simp
    then show ?thesis by (simp add: sets_at_def)
  qed
  ultimately show ?thesis
    unfolding r53_documented_def using small_aws_batch by (auto simp: small_aws_def)
qed

text \<open>A name that had an IPv6 address, published with an IPv4 address only.\<close>

definition old_zone :: "rr_set list" where
  "old_zone = [\<lparr>rs_name = nr_hostname example_name @ ''.'', rs_type = RrAaaa, rs_ttl = 300, rs_values = [''::1''], rs_rest = []\<rparr>]"

lemma old_zone_published:
  "fst (r53_publish_name small_aws example_name old_zone) = Inr ()
   \<and> length (snd (r53_publish_name small_aws example_name old_zone)) = 2"
  by code_simp


end
