(* ===== verification/Dns_Worker_Witnesses.thy ===== *)
theory Dns_Worker_Witnesses
  imports Dns_Worker Dns_Witnesses Control_Witnesses
begin

text \<open>
  Attempts of a worker with the in-memory provider, at which the properties of the worker are evaluated.
\<close>

section \<open>A publication\<close>

text \<open>The example database with its installation still waiting for its DNS.\<close>

definition pending_db :: db where
  "pending_db = example_db\<lparr>installations := map (in_state_update (\<lambda>_. PendingDns)) (installations example_db)\<rparr>"

definition sample_host :: string where
  "sample_host = ''aaaaaaaaaaaaaaaa2345672345.relay.bloom.directory''"

definition sample_uri :: string where
  "sample_uri = ''https://acme-v02.api.letsencrypt.org/acme/acct/1''"

definition sample_resolver :: resolver where
  "sample_resolver q name kind =
     (case kind of
        TypeA \<Rightarrow> Answers [RdA 0x0A000001]
      | TypeAaaa \<Rightarrow> NoRecords
      | TypeCaa \<Rightarrow> Answers [RdCaa ''issue'' (as_bytes (caa_issue_value sample_uri)), RdCaa ''issuewild'' (as_bytes '';'')]
      | TypeTxt \<Rightarrow> Answers [RdTxt [as_bytes (replicate 43 CHR ''v'')]])"

definition sample_attempt :: "(unit, memory_state) attempt" where
  "sample_attempt = \<lparr>at_calls = sample_exchange 10, at_zone = (\<lambda>z. z),
     at_view = \<lparr>vw_built = True, vw_authoritative = sample_resolver, vw_recursive = sample_resolver\<rparr>\<rparr>"

definition sample_worker :: "dns_job_scope \<Rightarrow> (unit, memory_state) worker" where
  "sample_worker scope = \<lparr>wk_cfg = st_store sample_app, wk_placement = ''eu'', wk_scope = scope,
     wk_provider = memory_provider, wk_ingress = [V4 0x0A000001]\<rparr>"

definition empty_memory :: memory_state where
  "empty_memory = \<lparr>me_names = (\<lambda>_. None), me_challenges = (\<lambda>_. None)\<rparr>"

definition publication :: "(worker_error + bool) \<times> unit world \<times> memory_state" where
  "publication = process_job (sample_worker Serving) sample_attempt (hd (outbox pending_db)) (sample_world pending_db, empty_memory)"

lemma publication_outcome:
  "case publication of (x, _, z) \<Rightarrow> x = Inr True \<and> me_names z sample_host \<noteq> None"
  unfolding publication_def by code_simp

lemma publication_done: "fst publication = Inr True" "me_names (snd (snd publication)) sample_host \<noteq> None"
  using publication_outcome by (simp_all only: case_prod_beta simp_thms)

lemma publication_job:
  "ob_kind (hd (outbox pending_db)) = ''publish_name'' \<and> ob_installation (hd (outbox pending_db)) = 1
   \<and> dns_identity pending_db 1 = Some (sample_host, sample_uri, ''eu'')"
  by code_simp


lemma sample_between [simp]: "cx_between (at_calls sample_attempt) k w = w"
  by (simp add: sample_attempt_def)

lemma sample_worker_fields:
  "wk_scope (sample_worker scope) = scope" "wk_ingress (sample_worker scope) = [V4 0x0A000001]"
  "vw_authoritative (at_view sample_attempt) = sample_resolver" "at_zone sample_attempt z = z"
  by (simp_all add: sample_worker_def sample_attempt_def)

abbreviation sample_name :: name_records where
  "sample_name \<equiv> \<lparr>nr_hostname = sample_host, nr_addresses = [V4 0x0A000001], nr_acme_account_uri = sample_uri\<rparr>"

theorem completed_publication_witness:
  "fst publication = Inr True \<and> memory_serving (snd (snd publication)) sample_host = wanted sample_name
   \<and> seen sample_resolver sample_host = Some (wanted sample_name)
   \<and> \<not> exists_row (awaiting_dns 1) (installations (w_db (fst (snd publication))))"
proof -
  have run: "process_job (sample_worker Serving) sample_attempt (hd (outbox pending_db)) (sample_world pending_db, empty_memory)
      = (Inr True, fst (snd publication), snd (snd publication))"
    unfolding publication_def [symmetric] using publication_done(1) by (metis prod.collapse)
  have provider: "dns_provider (wk_provider (sample_worker Serving)) memory_serving memory_challenge"
    by (simp add: sample_worker_def memory.dns_provider_axioms)
  have "dns_identity (w_db (cx_between (at_calls sample_attempt) 1 (sample_world pending_db)))
      (ob_installation (hd (outbox pending_db))) = Some (sample_host, sample_uri, ''eu'')"
    using publication_job by (simp only: sample_between sample_fields)
  from completed_publication [OF provider run conjunct1 [OF publication_job] this refl] publication_job publication_done
  show ?thesis by (simp only: sample_worker_fields simp_thms)
qed

section \<open>A reconciliation\<close>

definition challenge_db :: db where
  "challenge_db = snd (trace example_params [(seconds 7, EnsureChallenge 1 3 (replicate 43 CHR ''v''))] example_db)"

definition reconciliation :: "(worker_error + bool) \<times> unit world \<times> memory_state" where
  "reconciliation = process_job (sample_worker Challenge) sample_attempt (last (outbox challenge_db))
     (sample_world challenge_db, empty_memory)"

lemma reconciliation_done: "fst reconciliation = Inr True"
  unfolding reconciliation_def by code_simp

lemma reconciliation_job:
  "ob_kind (last (outbox challenge_db)) = ''reconcile_txt'' \<and> ob_installation (last (outbox challenge_db)) = 1
   \<and> dns_identity challenge_db 1 = Some (sample_host, sample_uri, ''eu'')
   \<and> challenge_target challenge_db 1 = (1, [replicate 43 CHR ''v''])"
  by code_simp


theorem worker_scopes_witness:
  "snd (snd publication) \<noteq> empty_memory \<and> memory_challenge (snd (snd publication)) = memory_challenge empty_memory"
proof -
  have run: "process_job (sample_worker Serving) sample_attempt (hd (outbox pending_db)) (sample_world pending_db, empty_memory)
      = (fst publication, fst (snd publication), snd (snd publication))"
    unfolding publication_def [symmetric] by simp
  have provider: "dns_provider (wk_provider (sample_worker Serving)) memory_serving memory_challenge"
    by (simp add: sample_worker_def memory.dns_provider_axioms)
  have changed: "snd (snd publication) \<noteq> empty_memory" 
    using publication_done(2) unfolding empty_memory_def by (metis memory_state.select_convs(1))
  with worker_scopes [OF provider run] show ?thesis by (simp only: sample_worker_fields simp_thms)
qed

end
