(* ===== verification/Spec2Isabelle.thy ===== *)
theory Spec2Isabelle
  imports Gateway_Properties Control_Witnesses Dns_Worker_Witnesses
begin

text \<open>
  A verification of the Bloom relay. The relay gives each installation of a broker a permanent
  hostname, publishes its DNS records, carries the browser's TLS bytes to the broker through a
  tunnel, and lets the broker obtain certificates by DNS-01.

  \<^bold>\<open>The parts.\<close> All processes share one PostgreSQL store (\<^verbatim>\<open>crates/bloom-relay-store\<close>) and a
  restore witness that keeps an old backup from coming back unnoticed. The control API
  (\<^verbatim>\<open>crates/bloom-relay-control\<close>) enrolls installations, issues credentials and takes challenge
  values; each change queues a job in the outbox of the store. DNS workers claim the jobs, change
  the records through a provider (\<^verbatim>\<open>crates/bloom-relay-dns\<close>), observe the result and record it. The
  gateway (\<^verbatim>\<open>crates/bloom-relay\<close>) takes tunnels and browsers and joins a browser with the tunnel of
  the installation that owns the requested name.

  \<^bold>\<open>Theories and source.\<close>
  \<^item> \<open>Relay_Prelude\<close>: words, bytes, decimal and hexadecimal text and the list lemmas all share.
  \<^item> \<open>Protocol\<close> models \<^verbatim>\<open>bloom-relay-protocol/src/lib.rs\<close>: names, limits, signed requests, receipts and
    the control decoder; the acceptance conditions are stated exactly, and decoding does not depend
    on how the bytes were cut into frames.
  \<^item> \<open>Restore\<close> models \<^verbatim>\<open>restore.rs\<close> and \<^verbatim>\<open>s3_witness.rs\<close>: the witness file and the remote witness with
    its compare-and-swap. Neither ever falls, and a database below the witness is refused.
  \<^item> \<open>Sql_Table\<close> and \<open>Store_Schema\<close> give the tables as lists of rows with the SQL operations the code uses, the
    transaction type, and \<open>acknowledge\<close>. \<open>Store_Bootstrap\<close>, \<open>Store_Credentials\<close>, \<open>Store_Installations\<close>,
    \<open>Store_Tunnel\<close>, \<open>Store_Challenge\<close>, \<open>Store_Outbox\<close> and \<open>Store_Ct\<close> model the operations of
    \<^verbatim>\<open>bloom-relay-store/src/lib.rs\<close> and \<^verbatim>\<open>ct.rs\<close>, one definition each.
  \<^item> \<open>Store_Steps\<close> makes the store a step relation with reachability in the locale \<open>stepwise\<close>, which is
    interpreted for the store, its fencing and the gateway. \<open>Store_Invariant\<close>, \<open>Store_History\<close>,
    \<open>Store_Fencing\<close> and \<open>Store_Nonces\<close> prove the invariants of every reachable database, and
    \<open>Store_Properties\<close> states what follows: a hostname is never given away, generations only grow, and an older
    token is refused for ever.
  \<^item> \<open>Gateway_Stream\<close>, \<open>Gateway\<close>, \<open>Gateway_Routing\<close>, \<open>Gateway_Capacity\<close> and \<open>Gateway_Properties\<close> model
    \<^verbatim>\<open>bloom-relay/src/main.rs\<close> as one machine with the store: quota, tunnels, tickets, browsers, reading
    the ClientHello and forwarding. A browser only reaches the owner of its name, capacity is
    bounded and refines a machine of permits, and the bytes arrive unchanged.
  \<^item> \<open>Client_Addr\<close>, \<open>Receipt_Signer\<close>, \<open>Control_Messages\<close> and \<open>Control_Api\<close> model \<^verbatim>\<open>client_addr.rs\<close>,
    \<^verbatim>\<open>receipt_signer.rs\<close> and \<^verbatim>\<open>bloom-relay-control/src/main.rs\<close>. A handler is a function on the store's
    world, between whose calls the other processes run, and each call of which may fail or lose its
    answer. \<open>Control_Properties\<close> shows who may ask for what, that a request is accepted once, and that a
    receipt and a token are what the client needs; \<open>Control_Witnesses\<close> evaluates concrete exchanges.
  \<^item> \<open>Dns_Records\<close> models the shared part of the DNS crate, with the locale \<open>dns_provider\<close> for what the worker relies
    on and its interpretation for the in-memory provider. \<open>Dns_Cloudflare\<close> and \<open>Dns_Route53\<close> model the two
    providers, \<open>Dns_Observer\<close> the resolvers' view and \<open>Dns_Worker\<close> the jobs of \<^verbatim>\<open>dns_worker.rs\<close>.
    \<open>Dns_Cloudflare_Proofs\<close>, \<open>Dns_Cloudflare_Refines\<close> and \<open>Dns_Cloudflare_Caa\<close> show that the Cloudflare provider
    satisfies \<open>dns_provider\<close>, spares foreign records and never authorizes ahead of the wildcard
    denial, also when a change stops half way; \<open>Dns_Route53\<close> that its changes are whole. \<open>Dns_Worker\<close> joins
    provider, observer and store. \<open>Dns_Witnesses\<close> and \<open>Dns_Worker_Witnesses\<close> hold concrete services and
    attempts.

  \<^bold>\<open>Conventions.\<close> Times are integers in microseconds. Unsigned 64-bit values are words, and the casts to
  the signed columns are written out. A public operation of the store is a transaction, which fails
  as a whole, followed by the acknowledgement of the witness. Errors are the left of a sum. Loops are recursion
  on the list they run over, or total functions with a measure. Loops over a stream take the
  sequence of its events, so a run is as long as what it is given. The retries of the
  witness are bounded by the constant of the source, so no fuel is added.

  \<^bold>\<open>Parameters.\<close> Cryptography, base64 and base32, canonical JSON, KMS and S3, TLS and HTTP/2, the
  resolvers, and the Cloudflare and Route 53 services are arguments of the definitions. What a
  property needs of them is a hypothesis, \<open>documented\<close> and \<open>r53_documented\<close> for the two DNS services, and its
  witness instantiates it. A DNS request that was answered with an error may have taken effect.
  Database transactions are serial; what other processes do is between them.

  \<^bold>\<open>Not modelled.\<close> Connecting to and migrating the database, the routing of the web framework, the
  parsing of addresses and URLs from the environment and the start of the processes are calls of
  libraries. \<^verbatim>\<open>bloom-relay-observe\<close> only exports metrics and a health flag. The CT worker
  (\<^verbatim>\<open>bloom-relay-ct/src/main.rs\<close>) fetches and posts over HTTP around the operations of \<open>Store_Ct\<close>, which
  are modelled. The broker's tunnel client (\<^verbatim>\<open>bloom-relay-client\<close>) and the administrator's client
  (\<^verbatim>\<open>bloom-relay-admin-client\<close>) run on the other side of the wire; the checks they make on receipts and
  control messages are those of \<open>Protocol\<close>. The smoke test is a tool against a deployed relay.
\<close>

end
